(* ===== verification/Hearth_Prelude.thy ===== *)
theory Hearth_Prelude
  imports Main "HOL-Library.Word"
begin

text \<open>
  What every component of the development shares: the machine integers of the Rust code, the
  result of a fallible call (an \<open>io::Error\<close>, a panic or undefined behaviour of an \<open>unsafe\<close>
  block on the left, the value on the right), arithmetic with the overflow checks of the
  documented (debug) build, and the little- and big-endian byte encodings of the standard
  library.
\<close>

unbundle bit_operations_syntax

section \<open>Machine integers and outcomes\<close>

type_synonym u8 = "8 word"
type_synonym u16 = "16 word"
type_synonym u32 = "32 word"
type_synonym u64 = "64 word"

text \<open>The kinds of \<open>io::Error\<close> the program makes or passes on.\<close>

datatype io_kind = Other | InvalidData | InvalidInput | UnexpectedEof | OsError

text \<open>The reasons for which safe Rust code panics.\<close>

datatype panic = ArithOverflow | IndexOutOfBounds | UnwrapNone | DivideByZero | AssertFailed

datatype fault = IoError io_kind | Panicked panic | UndefinedBehaviour

type_synonym 'a res = "fault + 'a"

named_theorems res_simps \<open>rewriting of fallible calls\<close>

text \<open>The \<open>?\<close> operator: a fault leaves the function, a value goes on.\<close>

fun try_res :: "'a res \<Rightarrow> ('a \<Rightarrow> 'b res) \<Rightarrow> 'b res" where
  "try_res (Inl e) f = Inl e"
| "try_res (Inr x) f = f x"

lemma try_res_Inr_iff [res_simps]: "try_res m f = Inr y \<longleftrightarrow> (\<exists>x. m = Inr x \<and> f x = Inr y)"
  by (cases m) auto

lemma try_res_Inl_iff [res_simps]:
  "try_res m f = Inl e \<longleftrightarrow> m = Inl e \<or> (\<exists>x. m = Inr x \<and> f x = Inl e)"
  by (cases m) auto

lemma try_res_InrE:
  assumes "try_res m f = Inr y"
  obtains x where "m = Inr x" "f x = Inr y"
  using assms by (cases m) auto

lemma try_res_cong [fundef_cong]:
  "m = m' \<Longrightarrow> (\<And>x. m' = Inr x \<Longrightarrow> f x = g x) \<Longrightarrow> try_res m f = try_res m' g"
  by (cases m') auto

lemma try_res_assoc: "try_res (try_res m f) g = try_res m (\<lambda>x. try_res (f x) g)"
  by (cases m) auto

text \<open>\<open>ok_or\<close> and \<open>unwrap\<close> on an \<open>Option\<close>.\<close>

definition ok_or :: "io_kind \<Rightarrow> 'a option \<Rightarrow> 'a res" where
  "ok_or k o' = (case o' of None \<Rightarrow> Inl (IoError k) | Some x \<Rightarrow> Inr x)"

definition unwrap :: "'a option \<Rightarrow> 'a res" where
  "unwrap o' = (case o' of None \<Rightarrow> Inl (Panicked UnwrapNone) | Some x \<Rightarrow> Inr x)"

lemma ok_or_simps [simp]: "ok_or k None = Inl (IoError k)" "ok_or k (Some x) = Inr x"
  by (simp_all add: ok_or_def)

lemma unwrap_simps [simp]: "unwrap None = Inl (Panicked UnwrapNone)" "unwrap (Some x) = Inr x"
  by (simp_all add: unwrap_def)

lemma ok_or_iff [res_simps]:
  "ok_or k m = Inr x \<longleftrightarrow> m = Some x" "ok_or k m = Inl e \<longleftrightarrow> m = None \<and> e = IoError k"
  by (cases m; auto)+

lemma unwrap_iff [res_simps]:
  "unwrap m = Inr x \<longleftrightarrow> m = Some x"
  "unwrap m = Inl e \<longleftrightarrow> m = None \<and> e = Panicked UnwrapNone"
  by (cases m; auto)+

text \<open>\<open>unwrap\<close> and \<open>expect\<close> on an \<open>io::Result\<close>.\<close>

definition unwrap_res :: "'a res \<Rightarrow> 'a res" where
  "unwrap_res r = (case r of Inl (IoError _) \<Rightarrow> Inl (Panicked UnwrapNone) | _ \<Rightarrow> r)"

section \<open>Operations on state\<close>

text \<open>
  A method with \<open>&mut self\<close> that can fail: it returns its outcome and the state it leaves,
  also when it fails, since the changes made before the fault stay.
\<close>

type_synonym ('s, 'a) oper = "'s \<Rightarrow> 'a res \<times> 's"

definition then_op :: "('s, 'a) oper \<Rightarrow> ('a \<Rightarrow> ('s, 'b) oper) \<Rightarrow> ('s, 'b) oper" where
  "then_op m f s = (case m s of (Inl e, s') \<Rightarrow> (Inl e, s') | (Inr x, s') \<Rightarrow> f x s')"

lemma then_op_Inl [simp]: "m s = (Inl e, s') \<Longrightarrow> then_op m f s = (Inl e, s')"
  by (simp add: then_op_def)

lemma then_op_Inr [simp]: "m s = (Inr x, s') \<Longrightarrow> then_op m f s = f x s'"
  by (simp add: then_op_def)

lemma then_op_Inr_iff [res_simps]:
  "then_op m f s = (Inr y, t) \<longleftrightarrow> (\<exists>x s'. m s = (Inr x, s') \<and> f x s' = (Inr y, t))"
  by (auto simp: then_op_def split: prod.splits sum.splits)

section \<open>Checked arithmetic\<close>

text \<open>
  \<open>cargo build\<close> (the build the README runs) makes the dev profile, where an integer operation
  that overflows panics. The \<open>checked_\<close> methods return \<open>None\<close> instead.
\<close>

definition checked_add :: "'a::len word \<Rightarrow> 'a word \<Rightarrow> 'a word option" where
  "checked_add a b = (if unat a + unat b < 2 ^ LENGTH('a) then Some (a + b) else None)"

definition checked_mul :: "'a::len word \<Rightarrow> 'a word \<Rightarrow> 'a word option" where
  "checked_mul a b = (if unat a * unat b < 2 ^ LENGTH('a) then Some (a * b) else None)"

definition checked_sub :: "'a::len word \<Rightarrow> 'a word \<Rightarrow> 'a word option" where
  "checked_sub a b = (if unat b \<le> unat a then Some (a - b) else None)"

definition overflow_panic :: "'a option \<Rightarrow> 'a res" where
  "overflow_panic o' = (case o' of None \<Rightarrow> Inl (Panicked ArithOverflow) | Some x \<Rightarrow> Inr x)"

abbreviation add_ov :: "'a::len word \<Rightarrow> 'a word \<Rightarrow> 'a word res" where
  "add_ov a b \<equiv> overflow_panic (checked_add a b)"

abbreviation mul_ov :: "'a::len word \<Rightarrow> 'a word \<Rightarrow> 'a word res" where
  "mul_ov a b \<equiv> overflow_panic (checked_mul a b)"

abbreviation sub_ov :: "'a::len word \<Rightarrow> 'a word \<Rightarrow> 'a word res" where
  "sub_ov a b \<equiv> overflow_panic (checked_sub a b)"

lemma overflow_panic_simps [simp]:
  "overflow_panic None = Inl (Panicked ArithOverflow)" "overflow_panic (Some x) = Inr x"
  by (simp_all add: overflow_panic_def)

lemma overflow_panic_iff [res_simps]:
  "overflow_panic m = Inr x \<longleftrightarrow> m = Some x"
  "overflow_panic m = Inl e \<longleftrightarrow> m = None \<and> e = Panicked ArithOverflow"
  by (cases m; auto)+

lemma unat_add_no_overflow:
  fixes a b :: "'a::len word"
  shows "unat a + unat b < 2 ^ LENGTH('a) \<Longrightarrow> unat (a + b) = unat a + unat b"
  by (simp add: unat_word_ariths)

lemma unat_mult_no_overflow:
  fixes a b :: "'a::len word"
  shows "unat a * unat b < 2 ^ LENGTH('a) \<Longrightarrow> unat (a * b) = unat a * unat b"
  by (simp add: unat_word_ariths)

lemma unat_less_two_power [simp]: "unat (a :: 'a::len word) < 2 ^ LENGTH('a)"
  by (rule unsigned_less)

lemma unat_sub_no_borrow:
  fixes a b :: "'a::len word"
  assumes "unat b \<le> unat a"
  shows "unat (a - b) = unat a - unat b"
  using assms by (simp add: unat_sub word_le_nat_alt)

text \<open>A word between two numerals is one of finitely many: for the \<open>a..=b\<close> arms of a \<open>match\<close>.\<close>

lemma word_range_cases:
  fixes s a b :: "'a::len word"
  shows "a \<le> s \<and> s \<le> b \<Longrightarrow> s \<in> word_of_nat ` set [unat a..<Suc (unat b)]"
  by (auto simp: word_le_nat_alt image_iff le_less [symmetric] simp del: upt_Suc
      intro!: bexI [of _ "unat s"])

lemma checked_add_SomeD:
  fixes a b :: "'a::len word"
  shows "checked_add a b = Some c \<Longrightarrow> unat c = unat a + unat b"
  by (auto simp: checked_add_def unat_add_no_overflow split: if_splits)

lemma checked_mul_SomeD:
  fixes a b :: "'a::len word"
  shows "checked_mul a b = Some c \<Longrightarrow> unat c = unat a * unat b"
  by (auto simp: checked_mul_def unat_mult_no_overflow split: if_splits)

lemma checked_sub_SomeD:
  fixes a b :: "'a::len word"
  shows "checked_sub a b = Some c \<Longrightarrow> unat c = unat a - unat b \<and> unat b \<le> unat a"
  by (auto simp: checked_sub_def unat_sub_no_borrow split: if_splits)

section \<open>Byte encodings of integers\<close>

text \<open>\<open>to_le_bytes\<close> and \<open>from_le_bytes\<close> of the standard library, for any number of bytes.\<close>

fun le_bytes :: "nat \<Rightarrow> nat \<Rightarrow> u8 list" where
  "le_bytes 0 v = []"
| "le_bytes (Suc n) v = word_of_nat (v mod 256) # le_bytes n (v div 256)"

fun le_val :: "u8 list \<Rightarrow> nat" where
  "le_val [] = 0"
| "le_val (b # bs) = unat b + 256 * le_val bs"

lemma length_le_bytes [simp]: "length (le_bytes n v) = n"
  by (induction n arbitrary: v) auto

lemma unat_byte_of_nat [simp]: "unat (word_of_nat (v mod 256) :: u8) = v mod 256"
  by (simp add: unat_of_nat take_bit_eq_mod)

lemma unat_u8_less [simp]: "unat (b :: u8) < 256"
  using unsigned_less [of b] by simp

lemma le_val_le_bytes: "le_val (le_bytes n v) = v mod 256 ^ n"
proof (induction n arbitrary: v)
  case (Suc n)
  have "v mod (256 * 256 ^ n) = 256 * (v div 256 mod 256 ^ n) + v mod 256"
    by (simp add: mod_mult2_eq)
  with Suc show ?case by simp
qed simp

lemma le_val_less: "le_val bs < 256 ^ length bs"
proof (induction bs)
  case (Cons b bs)
  have "unat b < 256" by simp
  moreover have "le_val bs + 1 \<le> 256 ^ length bs" using Cons by simp
  then have "256 * (le_val bs + 1) \<le> 256 * 256 ^ length bs" by (rule mult_le_mono2)
  ultimately show ?case by (simp del: unat_u8_less)
qed simp

lemma le_bytes_le_val: "length bs = n \<Longrightarrow> le_bytes n (le_val bs) = bs"
proof (induction bs arbitrary: n)
  case (Cons b bs)
  then show ?case by (cases n) (auto simp: add.commute)
qed simp

lemma le_bytes_snoc: "le_bytes n v = map (\<lambda>i. word_of_nat (v div 256 ^ i mod 256)) [0..<n]"
  by (induction n arbitrary: v)
    (simp_all add: upt_conv_Cons map_Suc_upt [symmetric] div_mult2_eq del: upt_Suc map_Suc_upt)

definition to_le16 :: "u16 \<Rightarrow> u8 list" where "to_le16 w = le_bytes 2 (unat w)"
definition to_le32 :: "u32 \<Rightarrow> u8 list" where "to_le32 w = le_bytes 4 (unat w)"
definition to_le64 :: "u64 \<Rightarrow> u8 list" where "to_le64 w = le_bytes 8 (unat w)"
definition from_le16 :: "u8 list \<Rightarrow> u16" where "from_le16 bs = word_of_nat (le_val bs)"
definition from_le32 :: "u8 list \<Rightarrow> u32" where "from_le32 bs = word_of_nat (le_val bs)"
definition from_le64 :: "u8 list \<Rightarrow> u64" where "from_le64 bs = word_of_nat (le_val bs)"
definition to_be16 :: "u16 \<Rightarrow> u8 list" where "to_be16 w = rev (to_le16 w)"
definition to_be32 :: "u32 \<Rightarrow> u8 list" where "to_be32 w = rev (to_le32 w)"
definition from_be16 :: "u8 list \<Rightarrow> u16" where "from_be16 bs = from_le16 (rev bs)"
definition from_be32 :: "u8 list \<Rightarrow> u32" where "from_be32 bs = from_le32 (rev bs)"

lemmas byte_enc_defs =
  to_le16_def to_le32_def to_le64_def from_le16_def from_le32_def from_le64_def
  to_be16_def to_be32_def from_be16_def from_be32_def

lemma length_to_le [simp]:
  "length (to_le16 a) = 2" "length (to_le32 b) = 4" "length (to_le64 c) = 8"
  "length (to_be16 a) = 2" "length (to_be32 b) = 4"
  by (simp_all add: byte_enc_defs)

lemma from_to_le [simp]:
  "from_le16 (to_le16 a) = a" "from_le32 (to_le32 b) = b" "from_le64 (to_le64 c) = c"
  "from_be16 (to_be16 a) = a" "from_be32 (to_be32 b) = b"
  using unat_less_two_power [of a] unat_less_two_power [of b] unat_less_two_power [of c]
  by (simp_all add: byte_enc_defs le_val_le_bytes)

lemma to_from_le:
  "length bs = 2 \<Longrightarrow> to_le16 (from_le16 bs) = bs"
  "length bs = 4 \<Longrightarrow> to_le32 (from_le32 bs) = bs"
  "length bs = 8 \<Longrightarrow> to_le64 (from_le64 bs) = bs"
  using le_val_less [of bs]
  by (simp_all add: byte_enc_defs unat_of_nat take_bit_eq_mod le_bytes_le_val)

lemma to_from_be:
  "length bs = 2 \<Longrightarrow> to_be16 (from_be16 bs) = bs"
  "length bs = 4 \<Longrightarrow> to_be32 (from_be32 bs) = bs"
  by (simp_all add: to_be16_def to_be32_def from_be16_def from_be32_def to_from_le)

end
