(* ===== verification/Guest_Memory.thy ===== *)
theory Guest_Memory
  imports Hearth_Prelude
begin

text \<open>
  Guest RAM as \<open>src/src/main.rs\<close> keeps it: the regions, the translation of guest-physical
  addresses (\<open>gpa_to_host\<close>), reads and writes through the pointers it returns, the loading of
  data, and the KVM memory slots that back a region (\<open>add_mem_region\<close>, \<open>log_dirty_pages\<close>).

  A pointer into the mapping of a region is the region's index and an offset. The bytes are a
  function of the two; the guest and the VMM change them through the same mapping. A read or
  write through a pointer that is misaligned or leaves its region is undefined behaviour and is
  modelled as a fault of its own, so that memory safety is a property that can be proved.
\<close>

section \<open>Regions and pointers\<close>

record mem_region =
  mem_ptr :: u64
  mem_size :: nat
  guest_phys_addr :: u64
  slot :: "u32 option"

type_synonym guest_memory = "mem_region list"
type_synonym host_ptr = "nat \<times> nat"
type_synonym ram = "nat \<Rightarrow> nat \<Rightarrow> u8"

abbreviation (input) PAGE_SIZE :: u64 where "PAGE_SIZE \<equiv> 4096"

definition ptr_add :: "host_ptr \<Rightarrow> nat \<Rightarrow> host_ptr" where
  "ptr_add p n = (fst p, snd p + n)"

text \<open>The closure of \<open>find_map\<close>: \<open>usize\<close> has 64 bits, so the conversion never fails.\<close>

definition region_offset :: "mem_region \<Rightarrow> u64 \<Rightarrow> nat \<Rightarrow> nat option" where
  "region_offset r gpa len =
     (case checked_sub gpa (guest_phys_addr r) of
        None \<Rightarrow> None
      | Some d \<Rightarrow>
          (let off = unat d
           in if off + len < 2 ^ 64 \<and> off + len \<le> mem_size r then Some off else None))"

fun gpa_to_host_from :: "nat \<Rightarrow> guest_memory \<Rightarrow> u64 \<Rightarrow> nat \<Rightarrow> host_ptr option" where
  "gpa_to_host_from i [] gpa len = None"
| "gpa_to_host_from i (r # rs) gpa len =
     (case region_offset r gpa len of
        Some off \<Rightarrow> Some (i, off)
      | None \<Rightarrow> gpa_to_host_from (Suc i) rs gpa len)"

definition gpa_to_host :: "guest_memory \<Rightarrow> u64 \<Rightarrow> nat \<Rightarrow> host_ptr option" where
  "gpa_to_host mem gpa len = gpa_to_host_from 0 mem gpa len"

section \<open>Bytes\<close>

definition ram_read :: "ram \<Rightarrow> host_ptr \<Rightarrow> nat \<Rightarrow> u8 list" where
  "ram_read m p n = map (\<lambda>i. m (fst p) (snd p + i)) [0..<n]"

definition ram_write :: "host_ptr \<Rightarrow> u8 list \<Rightarrow> ram \<Rightarrow> ram" where
  "ram_write p bs m = (\<lambda>i off.
     if i = fst p \<and> snd p \<le> off \<and> off < snd p + length bs then bs ! (off - snd p) else m i off)"

text \<open>The bytes a pointer and a length cover.\<close>

definition ptr_bytes :: "host_ptr \<Rightarrow> nat \<Rightarrow> (nat \<times> nat) set" where
  "ptr_bytes p n = {(i, off). i = fst p \<and> snd p \<le> off \<and> off < snd p + n}"

definition same_outside :: "(nat \<times> nat) set \<Rightarrow> ram \<Rightarrow> ram \<Rightarrow> bool" where
  "same_outside A m m' \<longleftrightarrow> (\<forall>i off. (i, off) \<notin> A \<longrightarrow> m' i off = m i off)"

definition ptr_ok :: "guest_memory \<Rightarrow> host_ptr \<Rightarrow> nat \<Rightarrow> bool" where
  "ptr_ok mem p n \<longleftrightarrow> fst p < length mem \<and> snd p + n \<le> mem_size (mem ! fst p)"

definition ptr_aligned :: "guest_memory \<Rightarrow> nat \<Rightarrow> host_ptr \<Rightarrow> bool" where
  "ptr_aligned mem al p \<longleftrightarrow> (unat (mem_ptr (mem ! fst p)) + snd p) mod al = 0"

text \<open>
  \<open>read_guest_ptr::<T>\<close> and \<open>write_guest_ptr::<T>\<close>: volatile accesses of a \<open>T\<close> of a given size
  and alignment.
\<close>

definition read_guest_ptr :: "guest_memory \<Rightarrow> ram \<Rightarrow> nat \<Rightarrow> nat \<Rightarrow> host_ptr \<Rightarrow> u8 list res" where
  "read_guest_ptr mem m sz al p =
     (if ptr_ok mem p sz \<and> ptr_aligned mem al p then Inr (ram_read m p sz)
      else Inl UndefinedBehaviour)"

definition write_guest_ptr ::
    "guest_memory \<Rightarrow> nat \<Rightarrow> host_ptr \<Rightarrow> u8 list \<Rightarrow> ram \<Rightarrow> ram res" where
  "write_guest_ptr mem al p bs m =
     (if ptr_ok mem p (length bs) \<and> ptr_aligned mem al p then Inr (ram_write p bs m)
      else Inl UndefinedBehaviour)"

text \<open>A byte slice made of a raw pointer.\<close>

definition slice_from_ptr :: "guest_memory \<Rightarrow> host_ptr \<Rightarrow> nat \<Rightarrow> (host_ptr \<times> nat) res" where
  "slice_from_ptr mem p n = (if ptr_ok mem p n then Inr (p, n) else Inl UndefinedBehaviour)"

section \<open>Loading data\<close>

definition load_data_to_memory :: "guest_memory \<Rightarrow> nat \<Rightarrow> u8 list \<Rightarrow> u64 \<Rightarrow> (ram, nat) oper" where
  "load_data_to_memory mem idx data offset m =
     (if length mem \<le> idx then (Inl (IoError Other), m)
      else if mem_size (mem ! idx) \<le> unat offset then (Inl (IoError Other), m)
      else if mem_size (mem ! idx) < unat offset + length data then (Inl (IoError Other), m)
      else (Inr (length data), ram_write (idx, unat offset) data m))"

text \<open>
  The outcome of opening and reading the file is an argument. The message printed before the
  load computes the guest address: an index that is out of range panics there.
\<close>

definition load_file_to_memory ::
    "guest_memory \<Rightarrow> nat \<Rightarrow> u8 list res \<Rightarrow> u64 \<Rightarrow> (ram, nat) oper" where
  "load_file_to_memory mem idx file offset m =
     (case file of
        Inl e \<Rightarrow> (Inl e, m)
      | Inr contents \<Rightarrow>
          if length mem \<le> idx then (Inl (Panicked IndexOutOfBounds), m)
          else (case add_ov offset (guest_phys_addr (mem ! idx)) of
                  Inl e \<Rightarrow> (Inl e, m)
                | Inr _ \<Rightarrow> load_data_to_memory mem idx contents offset m))"

section \<open>KVM memory slots\<close>

record region_call =
  rc_slot :: u32
  rc_flags :: u32
  rc_gpa :: u64
  rc_size :: u64
  rc_uaddr :: u64

text \<open>The part of \<open>VM\<close> these methods use, with the log of the ioctl calls made.\<close>

record vm_mem =
  vm_regions :: guest_memory
  vm_next_slot :: u32
  vm_calls :: "region_call list"

text \<open>Whether a \<open>KVM_SET_USER_MEMORY_REGION\<close> call succeeds after the calls before it.\<close>

type_synonym region_env = "region_call list \<Rightarrow> region_call \<Rightarrow> bool"

definition set_user_memory_region ::
    "region_env \<Rightarrow> u32 \<Rightarrow> u32 \<Rightarrow> u64 \<Rightarrow> u64 \<Rightarrow> u64 \<Rightarrow> (vm_mem, unit) oper" where
  "set_user_memory_region env sl flags gpa sz uaddr vm =
     (let call = \<lparr>rc_slot = sl, rc_flags = flags, rc_gpa = gpa, rc_size = sz, rc_uaddr = uaddr\<rparr>
      in (if env (vm_calls vm) call then Inr () else Inl (IoError OsError),
          vm\<lparr>vm_calls := vm_calls vm @ [call]\<rparr>))"

text \<open>\<open>mmap\<close> returns an address or fails; the region is entered after KVM accepted it.\<close>

definition add_mem_region ::
    "region_env \<Rightarrow> u64 option \<Rightarrow> nat \<Rightarrow> u64 \<Rightarrow> (vm_mem, nat) oper" where
  "add_mem_region env mapped sz gpa vm =
     (case mapped of
        None \<Rightarrow> (Inl (IoError OsError), vm)
      | Some ptr \<Rightarrow>
          (case add_ov (vm_next_slot vm) 1 of
             Inl e \<Rightarrow> (Inl e, vm)
           | Inr next \<Rightarrow>
               then_op (set_user_memory_region env (vm_next_slot vm) 0 gpa (word_of_nat sz) ptr)
                 (\<lambda>_ vm'.
                    let r = \<lparr>mem_ptr = ptr, mem_size = sz, guest_phys_addr = gpa,
                             slot = Some (vm_next_slot vm)\<rparr>
                    in (Inr (length (vm_regions vm')), vm'\<lparr>vm_regions := vm_regions vm' @ [r]\<rparr>))
                 (vm\<lparr>vm_next_slot := next\<rparr>)))"

text \<open>\<open>free_slot.take().unwrap_or_else(...)\<close>.\<close>

definition take_slot :: "u32 option \<Rightarrow> (vm_mem, u32) oper" where
  "take_slot free vm =
     (case free of
        Some s \<Rightarrow> (Inr s, vm)
      | None \<Rightarrow>
          (case add_ov (vm_next_slot vm) 1 of
             Inl e \<Rightarrow> (Inl e, vm)
           | Inr next \<Rightarrow> (Inr (vm_next_slot vm), vm\<lparr>vm_next_slot := next\<rparr>)))"

text \<open>The loop over the pieces before, inside and after the logged pages.\<close>

fun split_region ::
    "region_env \<Rightarrow> u64 \<Rightarrow> u64 \<Rightarrow> (u64 \<times> u64 \<times> u32) list \<Rightarrow> u32 option \<Rightarrow> u32 option \<Rightarrow>
      (vm_mem, u32 option) oper" where
  "split_region env base host [] free logged vm = (Inr logged, vm)"
| "split_region env base host ((from, to, flags) # rest) free logged vm =
     (if from = to then split_region env base host rest free logged vm
      else then_op (take_slot free) (\<lambda>s vm.
        case try_res (sub_ov to from) (\<lambda>sz. try_res (sub_ov from base) (\<lambda>d.
               try_res (add_ov host d) (\<lambda>uaddr. Inr (sz, uaddr)))) of
          Inl e \<Rightarrow> (Inl e, vm)
        | Inr (sz, uaddr) \<Rightarrow>
            then_op (set_user_memory_region env s flags from sz uaddr)
              (\<lambda>_. split_region env base host rest None (if flags \<noteq> 0 then Some s else logged)) vm) vm)"

definition next_multiple_of :: "u64 \<Rightarrow> u64 \<Rightarrow> u64 res" where
  "next_multiple_of a b =
     (if a mod b = 0 then Inr a else add_ov a (b - a mod b))"

definition region_covers :: "u64 \<Rightarrow> u64 \<Rightarrow> mem_region \<Rightarrow> bool res" where
  "region_covers start end' r =
     (if guest_phys_addr r \<le> start
      then try_res (add_ov (guest_phys_addr r) (word_of_nat (mem_size r))) (\<lambda>e. Inr (end' \<le> e))
      else Inr False)"

fun covering_region :: "nat \<Rightarrow> u64 \<Rightarrow> u64 \<Rightarrow> guest_memory \<Rightarrow> nat option res" where
  "covering_region i start end' [] = Inr None"
| "covering_region i start end' (r # rs) =
     try_res (region_covers start end' r) (\<lambda>b.
       if b then Inr (Some i) else covering_region (Suc i) start end' rs)"

text \<open>
  \<open>log_flag\<close> is the constant \<open>KVM_MEM_LOG_DIRTY_PAGES\<close> of the generated bindings, \<open>unshared\<close>
  says whether the region's \<open>Arc\<close> has no other owner and \<open>dup_ok\<close> whether \<open>dup\<close> succeeds. The
  result is the slot of the log and its number of pages.
\<close>

definition log_dirty_pages ::
    "region_env \<Rightarrow> u32 \<Rightarrow> (nat \<Rightarrow> bool) \<Rightarrow> bool \<Rightarrow> u64 \<Rightarrow> u64 \<Rightarrow> (vm_mem, u32 \<times> nat) oper" where
  "log_dirty_pages env log_flag unshared dup_ok gpa sz vm =
     (let start = gpa AND NOT (PAGE_SIZE - 1)
      in case try_res (add_ov gpa sz) (\<lambda>e. try_res (next_multiple_of e PAGE_SIZE) (\<lambda>end'.
                try_res (covering_region 0 start end' (vm_regions vm)) (\<lambda>i.
                try_res (ok_or Other i) (\<lambda>idx.
                try_res (add_ov (guest_phys_addr (vm_regions vm ! idx))
                                (word_of_nat (mem_size (vm_regions vm ! idx)))) (\<lambda>region_end.
                try_res (ok_or Other (slot (vm_regions vm ! idx))) (\<lambda>sl.
                  Inr (end', idx, region_end, sl))))))) of
           Inl e \<Rightarrow> (Inl e, vm)
         | Inr (end', idx, region_end, sl) \<Rightarrow>
             (let base = guest_phys_addr (vm_regions vm ! idx); host = mem_ptr (vm_regions vm ! idx)
              in then_op (set_user_memory_region env sl 0 base 0 host) (\<lambda>_.
                 then_op (split_region env base host
                   [(base, start, 0), (start, end', log_flag), (end', region_end, 0)] (Some sl) None)
                 (\<lambda>logged vm.
                    if \<not> unshared idx then (Inl (IoError Other), vm)
                    else (let vm = vm\<lparr>vm_regions := (vm_regions vm)
                                 [idx := (vm_regions vm ! idx)\<lparr>slot := None\<rparr>]\<rparr>
                          in if \<not> dup_ok then (Inl (IoError OsError), vm)
                             else case logged of
                               None \<Rightarrow> (Inl (Panicked UnwrapNone), vm)
                             | Some s \<Rightarrow> (Inr (s, unat ((end' - start) div PAGE_SIZE)), vm)))) vm))"

text \<open>
  \<open>DirtyLog::fetch\<close>: KVM fills whole words with a bit for each page of the slot written since the
  last fetch, \<open>written\<close>; the pages beyond the slot have no bit.
\<close>

definition dirty_log_fetch :: "bool \<Rightarrow> (nat \<Rightarrow> bool) \<Rightarrow> nat \<Rightarrow> u64 list res" where
  "dirty_log_fetch ok written pages =
     (if ok then Inr (map (\<lambda>w. horner_sum of_bool 2 (map (\<lambda>b. 64 * w + b < pages \<and> written (64 * w + b)) [0..<64]))
                       [0..<(pages + 63) div 64])
      else Inl (IoError OsError))"

lemma dirty_log_fetch_bit:
  assumes "dirty_log_fetch ok written pages = Inr bm" and "p < pages"
  shows "p div 64 < length bm" and "bit (bm ! (p div 64)) (p mod 64) \<longleftrightarrow> written p"
proof -
  have bm: "bm = map (\<lambda>w. horner_sum of_bool 2 (map (\<lambda>b. 64 * w + b < pages \<and> written (64 * w + b)) [0..<64]))
      [0..<(pages + 63) div 64]"
    using assms(1) by (auto simp: dirty_log_fetch_def split: if_splits)
  have "p div 64 < (pages + 63) div 64" using assms(2) by linarith
  then show "p div 64 < length bm" "bit (bm ! (p div 64)) (p mod 64) \<longleftrightarrow> written p"
    using assms(2) by (simp_all add: bm bit_horner_sum_bit_word_iff del: upt_conv_Nil)
qed

section \<open>Reading back what was written\<close>

lemma length_ram_read [simp]: "length (ram_read m p n) = n"
  by (simp add: ram_read_def)

lemma ram_read_nth: "i < n \<Longrightarrow> ram_read m p n ! i = m (fst p) (snd p + i)"
  by (simp add: ram_read_def)

lemma ram_read_write_same [simp]: "ram_read (ram_write p bs m) p (length bs) = bs"
  by (intro nth_equalityI) (simp_all add: ram_read_nth ram_write_def)

lemma mem_ptr_bytes_iff: "(i, off) \<in> ptr_bytes p n \<longleftrightarrow> i = fst p \<and> snd p \<le> off \<and> off < snd p + n"
  by (simp add: ptr_bytes_def)

lemma ptr_bytes_0 [simp]: "ptr_bytes p 0 = {}"
  by (auto simp: ptr_bytes_def)

lemma ptr_bytes_add_subset: "k + n \<le> l \<Longrightarrow> ptr_bytes (ptr_add p k) n \<subseteq> ptr_bytes p l"
  by (auto simp: ptr_bytes_def ptr_add_def)

lemma same_outside_refl [simp]: "same_outside A m m"
  by (simp add: same_outside_def)

lemma same_outside_trans:
  "same_outside A m m' \<Longrightarrow> same_outside A m' m'' \<Longrightarrow> same_outside A m m''"
  by (auto simp: same_outside_def)

lemma same_outside_mono: "same_outside A m m' \<Longrightarrow> A \<subseteq> B \<Longrightarrow> same_outside B m m'"
  by (auto simp: same_outside_def)

lemma ram_write_outside: "same_outside (ptr_bytes p (length bs)) m (ram_write p bs m)"
  by (auto simp: same_outside_def ram_write_def ptr_bytes_def)

lemma ram_read_same_outside:
  assumes "same_outside A m m'" and "A \<inter> ptr_bytes p n = {}"
  shows "ram_read m' p n = ram_read m p n"
proof (rule nth_equalityI)
  fix i assume "i < length (ram_read m' p n)"
  then have i: "i < n" by simp
  then have "(fst p, snd p + i) \<notin> A" using assms(2) by (auto simp: ptr_bytes_def)
  then show "ram_read m' p n ! i = ram_read m p n ! i"
    using assms(1) i by (simp add: ram_read_nth same_outside_def)
qed simp

lemma ram_read_write_disjoint:
  "ptr_bytes q (length bs) \<inter> ptr_bytes p n = {} \<Longrightarrow> ram_read (ram_write q bs m) p n = ram_read m p n"
  by (rule ram_read_same_outside [OF ram_write_outside])

lemma ptr_ok_add: "ptr_ok mem p l \<Longrightarrow> k + n \<le> l \<Longrightarrow> ptr_ok mem (ptr_add p k) n"
  by (auto simp: ptr_ok_def ptr_add_def)

lemma ptr_aligned_add: "ptr_aligned mem al p \<Longrightarrow> al dvd k \<Longrightarrow> ptr_aligned mem al (ptr_add p k)"
  by (auto simp: ptr_aligned_def ptr_add_def mod_eq_0_iff_dvd add.assoc [symmetric] intro!: dvd_add)

lemma ptr_aligned_dvd: "ptr_aligned mem al p \<Longrightarrow> b dvd al \<Longrightarrow> ptr_aligned mem b p"
  unfolding ptr_aligned_def mod_eq_0_iff_dvd by (rule dvd_trans)

lemma read_guest_ptr_Inr_iff [res_simps]:
  "read_guest_ptr mem m sz al p = Inr bs \<longleftrightarrow>
     ptr_ok mem p sz \<and> ptr_aligned mem al p \<and> bs = ram_read m p sz"
  by (auto simp: read_guest_ptr_def)

lemma write_guest_ptr_Inr_iff [res_simps]:
  "write_guest_ptr mem al p bs m = Inr m' \<longleftrightarrow>
     ptr_ok mem p (length bs) \<and> ptr_aligned mem al p \<and> m' = ram_write p bs m"
  by (auto simp: write_guest_ptr_def)

lemma slice_from_ptr_Inr_iff [res_simps]:
  "slice_from_ptr mem p n = Inr s \<longleftrightarrow> ptr_ok mem p n \<and> s = (p, n)"
  by (auto simp: slice_from_ptr_def)

section \<open>Address translation\<close>

lemma region_offset_Some_iff:
  "region_offset r gpa len = Some off \<longleftrightarrow>
     unat gpa = unat (guest_phys_addr r) + off \<and> off + len \<le> mem_size r \<and> off + len < 2 ^ 64"
  by (auto simp: region_offset_def checked_sub_def unat_sub_no_borrow Let_def split: if_splits)

lemma region_offset_None_iff:
  "region_offset r gpa len = None \<longleftrightarrow>
     \<not> (unat (guest_phys_addr r) \<le> unat gpa \<and> unat gpa + len \<le> unat (guest_phys_addr r) + mem_size r \<and>
        unat gpa - unat (guest_phys_addr r) + len < 2 ^ 64)"
  by (auto simp: region_offset_def checked_sub_def unat_sub_no_borrow Let_def split: if_splits)

lemma gpa_to_host_from_Some:
  "gpa_to_host_from i mem gpa len = Some p \<Longrightarrow>
     i \<le> fst p \<and> fst p < i + length mem \<and>
     region_offset (mem ! (fst p - i)) gpa len = Some (snd p)"
proof (induction mem arbitrary: i)
  case (Cons r rs)
  show ?case
  proof (cases "region_offset r gpa len")
    case None
    with Cons.prems have "gpa_to_host_from (Suc i) rs gpa len = Some p" by simp
    from Cons.IH [OF this] show ?thesis by (auto simp: nth_Cons' Suc_le_eq)
  next
    case (Some off)
    with Cons.prems show ?thesis by auto
  qed
qed simp

lemma gpa_to_host_from_None:
  "gpa_to_host_from i mem gpa len = None \<longleftrightarrow> (\<forall>r \<in> set mem. region_offset r gpa len = None)"
  by (induction mem arbitrary: i) (auto split: option.splits)

lemma gpa_to_host_ptr_ok: "gpa_to_host mem gpa len = Some p \<Longrightarrow> ptr_ok mem p len"
  unfolding gpa_to_host_def
  by (drule gpa_to_host_from_Some) (auto simp: region_offset_Some_iff ptr_ok_def)

text \<open>
  C8. Address translation is sound and complete: a pointer that \<open>gpa_to_host\<close> returns is into
  one region, at the offset of the guest address in it, with all \<open>len\<close> bytes inside; and it
  returns none only when no region holds all of \<open>gpa..gpa + len\<close>.
\<close>

theorem gpa_to_host_correct:
  "case gpa_to_host mem gpa len of
     Some p \<Rightarrow> fst p < length mem \<and> snd p + len \<le> mem_size (mem ! fst p) \<and>
       unat gpa = unat (guest_phys_addr (mem ! fst p)) + snd p
   | None \<Rightarrow> \<not> (\<exists>r \<in> set mem. unat (guest_phys_addr r) \<le> unat gpa \<and>
       unat gpa + len \<le> unat (guest_phys_addr r) + mem_size r \<and> mem_size r < 2 ^ 64)"
proof (cases "gpa_to_host mem gpa len")
  case None
  then have "\<forall>r \<in> set mem. region_offset r gpa len = None"
    by (simp add: gpa_to_host_def gpa_to_host_from_None)
  then show ?thesis using None by (auto simp: region_offset_None_iff)
next
  case (Some p)
  then show ?thesis
    by (auto simp: gpa_to_host_def region_offset_Some_iff dest!: gpa_to_host_from_Some)
qed

section \<open>Loads and regions that succeed\<close>

text \<open>An address rounded down to its page.\<close>

lemma and_not_page:
  fixes w :: u64
  shows "unat (w AND NOT 0xfff) = unat w div 4096 * 4096"
proof -
  have m: "(0xfff :: u64) = mask 12" by (simp add: mask_eq_exp_minus_1)
  have "w AND NOT (mask 12) = push_bit 12 (drop_bit 12 w)"
    by (rule bit_word_eqI) (auto simp: bit_simps)
  moreover have "unat w div 4096 * 4096 < 2 ^ 64"
    using unsigned_less [of w, where 'a = nat] div_times_less_eq_dividend [of "unat w" 4096] by simp
  ultimately show ?thesis unfolding m
    by (simp add: push_bit_eq_mult drop_bit_eq_div unat_word_ariths unat_div)
qed

lemma load_data_ok:
  "load_data_to_memory mem idx data off m = (Inr n, m') \<longleftrightarrow>
    idx < length mem \<and> unat off < mem_size (mem ! idx) \<and> unat off + length data \<le> mem_size (mem ! idx) \<and>
    n = length data \<and> m' = ram_write (idx, unat off) data m"
  by (auto simp: load_data_to_memory_def)

lemma ram_read_write_apart:
  "a + length bs \<le> b \<or> b + n \<le> a \<Longrightarrow> ram_read (ram_write (i, a) bs m) (i, b) n = ram_read m (i, b) n"
  by (rule ram_read_write_disjoint) (auto simp: ptr_bytes_def)

lemma add_mem_region_ok:
  "add_mem_region env mapped sz gpa vm = (Inr i, vm') \<Longrightarrow> i = length (vm_regions vm) \<and>
    (\<exists>ptr s. vm_regions vm' = vm_regions vm @ [\<lparr>mem_ptr = ptr, mem_size = sz, guest_phys_addr = gpa, slot = Some s\<rparr>])"
  by (auto simp: add_mem_region_def set_user_memory_region_def then_op_def Let_def
      split: option.splits sum.splits if_splits prod.splits)

end
