(* ===== verification/Vring_Queue.thy ===== *)
theory Vring_Queue
  imports Guest_Memory
begin

text \<open>
  The split virtqueue of \<open>src/src/virtio/queue.rs\<close>: descriptor chains taken from the available
  ring and completed ones put on the used ring, both in guest RAM and wholly under the guest's
  control. Constants, sizes, alignments and field layouts of the \<open>vring_*\<close> structs come from
  bindings generated at build time; they are the argument \<open>V\<close>, and \<open>documented_vring\<close> says what
  the virtio specification fixes about them.
\<close>

section \<open>The generated bindings\<close>

record vring_desc =
  vd_addr :: u64
  vd_len :: u32
  vd_flags :: u16
  vd_next :: u16

record vring_avail =
  va_flags :: u16
  va_idx :: u16

record vring_used =
  vu_flags :: u16
  vu_idx :: u16

record vring_used_elem =
  ue_id :: u32
  ue_len :: u32

record vring_abi =
  vring_desc_f_next :: u32
  vring_desc_f_write :: u32
  vring_desc_f_indirect :: u32
  vring_avail_f_no_interrupt :: u32
  sz_desc :: nat
  al_desc :: nat
  dec_desc :: "u8 list \<Rightarrow> vring_desc"
  sz_avail :: nat
  al_avail :: nat
  dec_avail :: "u8 list \<Rightarrow> vring_avail"
  sz_used :: nat
  al_used :: nat
  dec_used :: "u8 list \<Rightarrow> vring_used"
  sz_used_elem :: nat
  al_used_elem :: nat
  enc_used_elem :: "vring_used_elem \<Rightarrow> u8 list"

text \<open>The values of the Linux headers, for concrete runs.\<close>

definition linux_vring :: vring_abi where
  "linux_vring =
     \<lparr>vring_desc_f_next = 1, vring_desc_f_write = 2, vring_desc_f_indirect = 4,
      vring_avail_f_no_interrupt = 1,
      sz_desc = 16, al_desc = 8,
      dec_desc = (\<lambda>b. \<lparr>vd_addr = from_le64 (take 8 b), vd_len = from_le32 (take 4 (drop 8 b)),
        vd_flags = from_le16 (take 2 (drop 12 b)), vd_next = from_le16 (take 2 (drop 14 b))\<rparr>),
      sz_avail = 4, al_avail = 2,
      dec_avail = (\<lambda>b. \<lparr>va_flags = from_le16 (take 2 b), va_idx = from_le16 (take 2 (drop 2 b))\<rparr>),
      sz_used = 4, al_used = 4,
      dec_used = (\<lambda>b. \<lparr>vu_flags = from_le16 (take 2 b), vu_idx = from_le16 (take 2 (drop 2 b))\<rparr>),
      sz_used_elem = 8, al_used_elem = 4,
      enc_used_elem = (\<lambda>e. to_le32 (ue_id e) @ to_le32 (ue_len e))\<rparr>"

text \<open>
  What the code relies on: the sizes it adds to literal offsets, alignments, the position of the
  ring indices, and the encoding of a used element.
\<close>

definition documented_vring :: "vring_abi \<Rightarrow> bool" where
  "documented_vring V \<longleftrightarrow>
     sz_desc V = 16 \<and> al_desc V = 8 \<and> sz_avail V = 4 \<and> al_avail V = 2 \<and>
     sz_used V = 4 \<and> al_used V = 4 \<and> sz_used_elem V = 8 \<and> al_used_elem V = 4 \<and>
     (\<forall>b. va_idx (dec_avail V b) = from_le16 (take 2 (drop 2 b))) \<and>
     (\<forall>b. vu_idx (dec_used V b) = from_le16 (take 2 (drop 2 b))) \<and>
     (\<forall>e. enc_used_elem V e = to_le32 (ue_id e) @ to_le32 (ue_len e))"

lemma documented_linux_vring: "documented_vring linux_vring"
  by (simp add: documented_vring_def linux_vring_def)

section \<open>Descriptors\<close>

abbreviation (input) VRING_QUEUES_MAX :: nat where "VRING_QUEUES_MAX \<equiv> 2"

datatype desc_type = WRITE | READ

definition needs_interrupt :: "vring_abi \<Rightarrow> vring_avail \<Rightarrow> bool" where
  "needs_interrupt V a \<longleftrightarrow> ucast (va_flags a) AND vring_avail_f_no_interrupt V = 0"

definition desc_type_of :: "vring_abi \<Rightarrow> vring_desc \<Rightarrow> desc_type" where
  "desc_type_of V d = (if ucast (vd_flags d) AND vring_desc_f_write V = 0 then READ else WRITE)"

definition is_indirect :: "vring_abi \<Rightarrow> vring_desc \<Rightarrow> bool" where
  "is_indirect V d \<longleftrightarrow> ucast (vd_flags d) AND vring_desc_f_indirect V \<noteq> 0"

definition has_next :: "vring_abi \<Rightarrow> vring_desc \<Rightarrow> bool" where
  "has_next V d \<longleftrightarrow> ucast (vd_flags d) AND vring_desc_f_next V \<noteq> 0"

definition get_data :: "guest_memory \<Rightarrow> ram \<Rightarrow> vring_desc \<Rightarrow> u8 list res" where
  "get_data mem m d =
     try_res (unwrap (gpa_to_host mem (vd_addr d) (unat (vd_len d)))) (\<lambda>p.
     try_res (slice_from_ptr mem p (unat (vd_len d))) (\<lambda>s. Inr (ram_read m (fst s) (snd s))))"

definition guest_ptr :: "guest_memory \<Rightarrow> u64 \<Rightarrow> nat \<Rightarrow> host_ptr res" where
  "guest_ptr mem gpa len = ok_or Other (gpa_to_host mem gpa len)"

section \<open>The queue\<close>

record vring_queue =
  vq_ready :: u32
  vq_num :: u32
  vq_last_avail :: u16
  vq_desc :: u64
  vq_avail :: u64
  vq_used :: u64

text \<open>Readable data is copied out, writable buffers are slices of guest RAM.\<close>

record desc_chain =
  ch_head :: u16
  ch_read :: "u8 list"
  ch_write :: "(host_ptr \<times> nat) list"

definition vring_queue_new :: vring_queue where
  "vring_queue_new = \<lparr>vq_ready = 0, vq_num = 0, vq_last_avail = 0, vq_desc = 0, vq_avail = 0, vq_used = 0\<rparr>"

definition get_desc_head ::
    "vring_abi \<Rightarrow> guest_memory \<Rightarrow> ram \<Rightarrow> vring_queue \<Rightarrow> u16 \<Rightarrow> vring_desc res" where
  "get_desc_head V mem m q idx =
     try_res (mul_ov (ucast idx) (word_of_nat (sz_desc V))) (\<lambda>d.
     try_res (add_ov (vq_desc q) d) (\<lambda>addr.
     try_res (unwrap (gpa_to_host mem addr (sz_desc V))) (\<lambda>p.
     try_res (read_guest_ptr mem m (sz_desc V) (al_desc V) p) (\<lambda>b. Inr (dec_desc V b)))))"

text \<open>The body of the \<open>for\<close> loop: what one descriptor adds to the chain.\<close>

definition add_desc :: "vring_abi \<Rightarrow> guest_memory \<Rightarrow> ram \<Rightarrow> vring_desc \<Rightarrow> desc_chain \<Rightarrow> desc_chain res" where
  "add_desc V mem m d ch =
     (case desc_type_of V d of
        WRITE \<Rightarrow>
          try_res (guest_ptr mem (vd_addr d) (unat (vd_len d))) (\<lambda>p.
          try_res (slice_from_ptr mem p (unat (vd_len d))) (\<lambda>s.
            Inr (ch\<lparr>ch_write := ch_write ch @ [s]\<rparr>)))
      | READ \<Rightarrow>
          try_res (get_data mem m d) (\<lambda>b. Inr (ch\<lparr>ch_read := ch_read ch @ b\<rparr>)))"

text \<open>\<open>for _ in 0..self.num\<close>, left by \<open>break\<close> at a descriptor without a successor.\<close>

fun walk_chain ::
    "vring_abi \<Rightarrow> guest_memory \<Rightarrow> ram \<Rightarrow> vring_queue \<Rightarrow> nat \<Rightarrow> u16 \<Rightarrow> desc_chain \<Rightarrow> desc_chain res" where
  "walk_chain V mem m q 0 idx ch = Inr ch"
| "walk_chain V mem m q (Suc n) idx ch =
     try_res (get_desc_head V mem m q idx) (\<lambda>d.
     try_res (add_desc V mem m d ch) (\<lambda>ch'.
       if has_next V d then walk_chain V mem m q n (vd_next d) ch' else Inr ch'))"

text \<open>\<open>(self.last_avail_idx as u32) % self.num\<close>; a zero \<open>num\<close> panics.\<close>

definition ring_slot :: "u16 \<Rightarrow> u32 \<Rightarrow> nat res" where
  "ring_slot idx num =
     (if num = 0 then Inl (Panicked DivideByZero) else Inr (unat ((ucast idx :: u32) mod num)))"

text \<open>A fault leaves the queue as it was, so the new queue is part of the value.\<close>

definition pop_avail ::
    "vring_abi \<Rightarrow> guest_memory \<Rightarrow> ram \<Rightarrow> vring_queue \<Rightarrow> (desc_chain option \<times> vring_queue) res" where
  "pop_avail V mem m q =
     try_res (guest_ptr mem (vq_avail q) (sz_avail V + 2 * unat (vq_num q))) (\<lambda>p.
     try_res (read_guest_ptr mem m (sz_avail V) (al_avail V) p) (\<lambda>b.
       if vq_last_avail q = va_idx (dec_avail V b) then Inr (None, q)
       else try_res (ring_slot (vq_last_avail q) (vq_num q)) (\<lambda>s.
         try_res (read_guest_ptr mem m 2 2 (ptr_add p (0x4 + 0x2 * s))) (\<lambda>h.
         try_res (walk_chain V mem m q (unat (vq_num q)) (from_le16 h)
             \<lparr>ch_head = from_le16 h, ch_read = [], ch_write = []\<rparr>) (\<lambda>ch.
           Inr (Some ch, q\<lparr>vq_last_avail := vq_last_avail q + 1\<rparr>))))))"

definition push_used ::
    "vring_abi \<Rightarrow> guest_memory \<Rightarrow> vring_queue \<Rightarrow> u16 \<Rightarrow> u32 \<Rightarrow> ram \<Rightarrow> ram res" where
  "push_used V mem q head len m =
     try_res (guest_ptr mem (vq_used q) (sz_used V + sz_used_elem V * unat (vq_num q))) (\<lambda>p.
     try_res (read_guest_ptr mem m (sz_used V) (al_used V) p) (\<lambda>b.
     try_res (ring_slot (vu_idx (dec_used V b)) (vq_num q)) (\<lambda>s.
     try_res (write_guest_ptr mem (al_used_elem V) (ptr_add p (0x4 + sz_used_elem V * s))
         (enc_used_elem V \<lparr>ue_id = ucast head, ue_len = len\<rparr>) m) (\<lambda>m1.
       write_guest_ptr mem 2 (ptr_add p 0x2) (to_le16 (vu_idx (dec_used V b) + 1)) m1))))"

section \<open>Ring slots\<close>

lemma ring_slot_Inr_iff [res_simps]:
  "ring_slot idx num = Inr s \<longleftrightarrow> num \<noteq> 0 \<and> s = unat idx mod unat num"
  proof -
  have "unat (ucast idx :: u32) = unat idx"
    using unat_less_two_power [of idx] by (simp add: unsigned_ucast_eq take_bit_nat_eq_self)
  then show ?thesis by (auto simp: ring_slot_def unat_mod)
qed

lemma ring_slot_Inl_iff [res_simps]:
  "ring_slot idx num = Inl e \<longleftrightarrow> num = 0 \<and> e = Panicked DivideByZero"
  by (auto simp: ring_slot_def)

lemma ring_slot_less: "ring_slot idx num = Inr s \<Longrightarrow> s < unat num"
  by (auto simp: ring_slot_Inr_iff unat_gt_0)

section \<open>Memory safety\<close>

text \<open>
  \<open>mmap\<close> returns page-aligned addresses and \<open>KVM_SET_USER_MEMORY_REGION\<close> refuses a
  guest address that is not page-aligned.
\<close>

definition regions_aligned :: "guest_memory \<Rightarrow> bool" where
  "regions_aligned mem \<longleftrightarrow>
     (\<forall>r \<in> set mem. unat (mem_ptr r) mod 4096 = 0 \<and> unat (guest_phys_addr r) mod 4096 = 0)"

text \<open>The alignment the virtio specification asks of the driver (16, 2 and 4) suffices.\<close>

definition queue_aligned :: "vring_queue \<Rightarrow> bool" where
  "queue_aligned q \<longleftrightarrow>
     unat (vq_desc q) mod 16 = 0 \<and> unat (vq_avail q) mod 2 = 0 \<and> unat (vq_used q) mod 4 = 0"

lemma gpa_to_host_SomeD:
  assumes "gpa_to_host mem gpa len = Some p"
  shows "fst p < length mem" "snd p + len \<le> mem_size (mem ! fst p)"
    "unat gpa = unat (guest_phys_addr (mem ! fst p)) + snd p"
  using gpa_to_host_from_Some [OF assms [unfolded gpa_to_host_def]]
  by (auto simp: region_offset_Some_iff)

lemma gpa_to_host_aligned:
  assumes "regions_aligned mem" and "gpa_to_host mem gpa len = Some p"
    and "al dvd 4096" and "unat gpa mod al = 0"
  shows "ptr_aligned mem al p"
proof -
  let ?r = "mem ! fst p"
  have "?r \<in> set mem" using gpa_to_host_SomeD(1) [OF assms(2)] by simp
  then have "4096 dvd unat (mem_ptr ?r)" "4096 dvd unat (guest_phys_addr ?r)"
    using assms(1) by (auto simp: regions_aligned_def)
  then have r: "al dvd unat (mem_ptr ?r)" "al dvd unat (guest_phys_addr ?r)"
    using assms(3) dvd_trans by blast+
  have "al dvd unat gpa" using assms(4) by auto
  then have "al dvd snd p"
    using r(2) gpa_to_host_SomeD(3) [OF assms(2)] by (simp add: dvd_add_right_iff)
  with r(1) show ?thesis by (simp add: ptr_aligned_def)
qed

lemma guest_ptr_Inr_iff [res_simps]: "guest_ptr mem gpa len = Inr p \<longleftrightarrow> gpa_to_host mem gpa len = Some p"
  by (simp add: guest_ptr_def res_simps)

lemma guest_ptr_Inl_iff [res_simps]:
  "guest_ptr mem gpa len = Inl e \<longleftrightarrow> gpa_to_host mem gpa len = None \<and> e = IoError Other"
  by (simp add: guest_ptr_def res_simps)

lemma get_data_no_ub: "get_data mem m d \<noteq> Inl UndefinedBehaviour"
  using gpa_to_host_ptr_ok
  by (auto simp: get_data_def res_simps slice_from_ptr_def)

lemma add_desc_safe:
  "add_desc V mem m d ch \<noteq> Inl UndefinedBehaviour"
  "add_desc V mem m d ch = Inr ch' \<Longrightarrow> \<forall>s \<in> set (ch_write ch). ptr_ok mem (fst s) (snd s) \<Longrightarrow>
     \<forall>s \<in> set (ch_write ch'). ptr_ok mem (fst s) (snd s)"
  using gpa_to_host_ptr_ok get_data_no_ub
  by (auto simp: add_desc_def res_simps slice_from_ptr_def split: desc_type.splits)

lemma get_desc_head_no_ub:
  assumes "documented_vring V" "regions_aligned mem" "queue_aligned q"
  shows "get_desc_head V mem m q idx \<noteq> Inl UndefinedBehaviour"
proof
  assume ub: "get_desc_head V mem m q idx = Inl UndefinedBehaviour"
  then obtain d addr p where
    d: "checked_mul (ucast idx) (word_of_nat (sz_desc V)) = Some (d :: u64)"
    and a: "checked_add (vq_desc q) d = Some addr"
    and p: "gpa_to_host mem addr 16 = Some p"
    and bad: "\<not> ptr_ok mem p 16 \<or> \<not> ptr_aligned mem 8 p"
    using assms(1)
    by (auto simp: get_desc_head_def documented_vring_def res_simps read_guest_ptr_def split: if_splits)
  have "unat d mod 16 = 0"
    using checked_mul_SomeD [OF d] assms(1) by (simp add: documented_vring_def unat_of_nat)
  then have "unat addr mod 16 = 0"
    using checked_add_SomeD [OF a] assms(3) by (simp add: queue_aligned_def mod_add_eq [symmetric])
  then have "unat addr mod 8 = 0"
    using dvd_trans [of 8 16 "unat addr"] by (simp add: dvd_eq_mod_eq_0 [symmetric])
  then show False
    using bad gpa_to_host_ptr_ok [OF p] gpa_to_host_aligned [OF assms(2) p] by (simp add: dvd_def)
qed

lemma walk_chain_safe:
  assumes "documented_vring V" "regions_aligned mem" "queue_aligned q"
    and "\<forall>s \<in> set (ch_write ch). ptr_ok mem (fst s) (snd s)"
  shows "walk_chain V mem m q n idx ch \<noteq> Inl UndefinedBehaviour \<and>
    (\<forall>ch'. walk_chain V mem m q n idx ch = Inr ch' \<longrightarrow>
      (\<forall>s \<in> set (ch_write ch'). ptr_ok mem (fst s) (snd s)))"
  using assms(4)
proof (induction n arbitrary: idx ch)
  case (Suc n)
  show ?case
  proof (cases "try_res (get_desc_head V mem m q idx) (\<lambda>d. try_res (add_desc V mem m d ch) (\<lambda>ch'. Inr (d, ch')))")
    case (Inl e)
    then show ?thesis
      using get_desc_head_no_ub [OF assms(1-3), of m idx] add_desc_safe(1) [of V mem m _ ch]
      by (auto simp: res_simps)
  next
    case (Inr r)
    then obtain d ch1 where d: "get_desc_head V mem m q idx = Inr d" "add_desc V mem m d ch = Inr ch1"
      by (auto simp: res_simps)
    have "\<forall>s \<in> set (ch_write ch1). ptr_ok mem (fst s) (snd s)"
      using add_desc_safe(2) [OF d(2)] Suc.prems by simp
    with Suc.IH [of ch1] d show ?thesis by auto
  qed
qed simp

lemma avail_ring_reads:
  assumes "documented_vring V" "regions_aligned mem" "queue_aligned q"
    and p: "gpa_to_host mem (vq_avail q) (4 + 2 * unat (vq_num q)) = Some p"
  shows "read_guest_ptr mem m 4 2 p = Inr (ram_read m p 4)"
    and "s < unat (vq_num q) \<Longrightarrow>
      read_guest_ptr mem m 2 2 (ptr_add p (4 + 2 * s)) = Inr (ram_read m (ptr_add p (4 + 2 * s)) 2)"
proof -
  have ok: "ptr_ok mem p (4 + 2 * unat (vq_num q))" by (rule gpa_to_host_ptr_ok [OF p])
  have al: "ptr_aligned mem 2 p"
    using gpa_to_host_aligned [OF assms(2) p, of 2] assms(3) by (simp add: queue_aligned_def)
  show "read_guest_ptr mem m 4 2 p = Inr (ram_read m p 4)"
    using ok al by (simp add: read_guest_ptr_Inr_iff ptr_ok_def)
  show "read_guest_ptr mem m 2 2 (ptr_add p (4 + 2 * s)) = Inr (ram_read m (ptr_add p (4 + 2 * s)) 2)"
    if "s < unat (vq_num q)"
    using that ptr_ok_add [OF ok, of "4 + 2 * s" 2] ptr_aligned_add [OF al, of "4 + 2 * s"]
    by (simp add: read_guest_ptr_Inr_iff)
qed

text \<open>
  \<open>pop_avail\<close> with its checks resolved: the shape every proof about it starts from.
\<close>

definition avail_idx :: "vring_abi \<Rightarrow> ram \<Rightarrow> host_ptr \<Rightarrow> u16" where
  "avail_idx V m p = va_idx (dec_avail V (ram_read m p 4))"

definition avail_head :: "ram \<Rightarrow> host_ptr \<Rightarrow> nat \<Rightarrow> u16" where
  "avail_head m p s = from_le16 (ram_read m (ptr_add p (4 + 2 * s)) 2)"

lemma pop_avail_eq:
  assumes "documented_vring V" "regions_aligned mem" "queue_aligned q"
  shows "pop_avail V mem m q =
    (case gpa_to_host mem (vq_avail q) (4 + 2 * unat (vq_num q)) of
       None \<Rightarrow> Inl (IoError Other)
     | Some p \<Rightarrow>
         if vq_last_avail q = avail_idx V m p then Inr (None, q)
         else if vq_num q = 0 then Inl (Panicked DivideByZero)
         else let h = avail_head m p (unat (vq_last_avail q) mod unat (vq_num q))
           in try_res (walk_chain V mem m q (unat (vq_num q)) h
                \<lparr>ch_head = h, ch_read = [], ch_write = []\<rparr>)
                (\<lambda>ch. Inr (Some ch, q\<lparr>vq_last_avail := vq_last_avail q + 1\<rparr>)))"
proof (cases "gpa_to_host mem (vq_avail q) (4 + 2 * unat (vq_num q))")
  case None
  then show ?thesis using assms(1) by (simp add: pop_avail_def documented_vring_def guest_ptr_def)
next
  case (Some p)
  show ?thesis
  proof (cases "vq_num q = 0")
    case True
    then show ?thesis
      using Some assms(1) avail_ring_reads(1) [OF assms Some, where m = m]
      by (simp add: pop_avail_def documented_vring_def guest_ptr_def avail_idx_def ring_slot_def)
  next
    case False
    let ?s = "unat (vq_last_avail q) mod unat (vq_num q)"
    have s: "ring_slot (vq_last_avail q) (vq_num q) = Inr ?s" using False by (simp add: ring_slot_Inr_iff)
    have "?s < unat (vq_num q)" by (rule ring_slot_less [OF s])
    then show ?thesis
      using Some assms(1) avail_ring_reads [OF assms Some, where m = m] s False
      by (simp add: pop_avail_def documented_vring_def guest_ptr_def avail_idx_def avail_head_def Let_def)
  qed
qed

lemma used_ring_reads:
  assumes "documented_vring V" "regions_aligned mem" "queue_aligned q"
    and p: "gpa_to_host mem (vq_used q) (4 + 8 * unat (vq_num q)) = Some p"
  shows "read_guest_ptr mem m 4 4 p = Inr (ram_read m p 4)"
    and "length bs = 8 \<Longrightarrow> s < unat (vq_num q) \<Longrightarrow>
      write_guest_ptr mem 4 (ptr_add p (4 + 8 * s)) bs m = Inr (ram_write (ptr_add p (4 + 8 * s)) bs m)"
    and "length bs' = 2 \<Longrightarrow> write_guest_ptr mem 2 (ptr_add p 2) bs' m = Inr (ram_write (ptr_add p 2) bs' m)"
proof -
  have ok: "ptr_ok mem p (4 + 8 * unat (vq_num q))" by (rule gpa_to_host_ptr_ok [OF p])
  have al: "ptr_aligned mem 4 p"
    using gpa_to_host_aligned [OF assms(2) p, of 4] assms(3) by (simp add: queue_aligned_def)
  show "read_guest_ptr mem m 4 4 p = Inr (ram_read m p 4)"
    using ok al by (simp add: read_guest_ptr_Inr_iff ptr_ok_def)
  show "write_guest_ptr mem 4 (ptr_add p (4 + 8 * s)) bs m = Inr (ram_write (ptr_add p (4 + 8 * s)) bs m)"
    if "length bs = 8" "s < unat (vq_num q)"
    using that ptr_ok_add [OF ok, of "4 + 8 * s" 8] ptr_aligned_add [OF al, of "4 + 8 * s"]
    by (simp add: write_guest_ptr_Inr_iff)
  show "write_guest_ptr mem 2 (ptr_add p 2) bs' m = Inr (ram_write (ptr_add p 2) bs' m)"
    if "length bs' = 2"
    using that ptr_ok_add [OF ok, of 2 2] ptr_aligned_add [OF ptr_aligned_dvd [OF al, of 2], of 2]
    by (simp add: write_guest_ptr_Inr_iff)
qed

definition used_idx :: "vring_abi \<Rightarrow> ram \<Rightarrow> host_ptr \<Rightarrow> u16" where
  "used_idx V m p = vu_idx (dec_used V (ram_read m p 4))"

text \<open>The two bytes at offset 2 and the \<open>n\<close>-th element of a used ring.\<close>

definition used_elem :: "ram \<Rightarrow> host_ptr \<Rightarrow> nat \<Rightarrow> u8 list" where
  "used_elem m p s = ram_read m (ptr_add p (4 + 8 * s)) 8"

lemma push_used_eq:
  assumes "documented_vring V" "regions_aligned mem" "queue_aligned q"
  shows "push_used V mem q h l m =
    (case gpa_to_host mem (vq_used q) (4 + 8 * unat (vq_num q)) of
       None \<Rightarrow> Inl (IoError Other)
     | Some p \<Rightarrow>
         if vq_num q = 0 then Inl (Panicked DivideByZero)
         else Inr (ram_write (ptr_add p 2) (to_le16 (used_idx V m p + 1))
                (ram_write (ptr_add p (4 + 8 * (unat (used_idx V m p) mod unat (vq_num q))))
                   (to_le32 (ucast h) @ to_le32 l) m)))"
proof (cases "gpa_to_host mem (vq_used q) (4 + 8 * unat (vq_num q))")
  case None
  then show ?thesis using assms(1) by (simp add: push_used_def documented_vring_def guest_ptr_def)
next
  case (Some p)
  note rd = used_ring_reads [OF assms Some]
  show ?thesis
  proof (cases "vq_num q = 0")
    case True
    then show ?thesis
      using Some assms(1) rd(1) [of m]
      by (simp add: push_used_def documented_vring_def guest_ptr_def ring_slot_def)
  next
    case False
    let ?s = "unat (used_idx V m p) mod unat (vq_num q)"
    have s: "ring_slot (used_idx V m p) (vq_num q) = Inr ?s" using False by (simp add: ring_slot_Inr_iff)
    then show ?thesis
      using Some False assms(1) rd(1) [of m] rd(3)
        rd(2) [OF _ ring_slot_less [OF s], of "to_le32 (ucast h) @ to_le32 l" m]
      by (simp add: push_used_def documented_vring_def guest_ptr_def used_idx_def)
  qed
qed

text \<open>The two operations, one fact at a time.\<close>

lemma pop_avail_no_ub:
  assumes "documented_vring V" "regions_aligned mem" "queue_aligned q"
  shows "pop_avail V mem m q \<noteq> Inl UndefinedBehaviour"
  using walk_chain_safe [OF assms, of "\<lparr>ch_head = a, ch_read = [], ch_write = []\<rparr>" for a, simplified]
  by (auto simp: pop_avail_eq [OF assms] Let_def res_simps split: option.splits)

lemma push_used_no_ub:
  assumes "documented_vring V" "regions_aligned mem" "queue_aligned q"
  shows "push_used V mem q h l m \<noteq> Inl UndefinedBehaviour"
  by (auto simp: push_used_eq [OF assms] split: option.splits)

lemma vring_memory_safe_used:
  assumes "documented_vring V" "regions_aligned mem" "queue_aligned q"
    and push: "push_used V mem q h l m = Inr m'"
  shows "\<exists>p. gpa_to_host mem (vq_used q) (4 + 8 * unat (vq_num q)) = Some p \<and>
    same_outside (ptr_bytes p (4 + 8 * unat (vq_num q))) m m'"
proof -
  from push obtain p where p: "gpa_to_host mem (vq_used q) (4 + 8 * unat (vq_num q)) = Some p"
    and n: "vq_num q \<noteq> 0"
    by (auto simp: push_used_eq [OF assms(1-3)] split: option.splits if_splits)
  let ?s = "unat (used_idx V m p) mod unat (vq_num q)" and ?l = "4 + 8 * unat (vq_num q)"
  let ?m1 = "ram_write (ptr_add p (4 + 8 * ?s)) (to_le32 (ucast h) @ to_le32 l) m"
  have "?s < unat (vq_num q)" using n by (simp add: unat_gt_0)
  then have "same_outside (ptr_bytes p ?l) m ?m1"
    by (intro same_outside_mono [OF ram_write_outside] ptr_bytes_add_subset) simp
  moreover have "same_outside (ptr_bytes p ?l) ?m1 m'"
    using push p n
    by (auto simp: push_used_eq [OF assms(1-3)] intro!: same_outside_mono [OF ram_write_outside] ptr_bytes_add_subset)
  ultimately show ?thesis using p by (auto intro: same_outside_trans)
qed

text \<open>
  Memory safety of the rings. With regions and ring addresses aligned as the virtio
  specification asks, neither taking a chain nor completing one ever reads or writes outside
  guest RAM or misaligned, whatever the guest put in its descriptors; the writable buffers
  handed to a device lie in guest RAM; and completing a chain changes only the used ring.
\<close>

theorem vring_memory_safe:
  assumes "documented_vring V" "regions_aligned mem" "queue_aligned q"
  shows "pop_avail V mem m q \<noteq> Inl UndefinedBehaviour
    \<and> push_used V mem q h l m \<noteq> Inl UndefinedBehaviour
    \<and> (case pop_avail V mem m q of
         Inr (Some ch, q') \<Rightarrow> \<forall>s \<in> set (ch_write ch). ptr_ok mem (fst s) (snd s)
       | _ \<Rightarrow> True)
    \<and> (case push_used V mem q h l m of
         Inr m' \<Rightarrow> \<exists>p. gpa_to_host mem (vq_used q) (4 + 8 * unat (vq_num q)) = Some p \<and>
           same_outside (ptr_bytes p (4 + 8 * unat (vq_num q))) m m'
       | Inl e \<Rightarrow> True)"
proof (intro conjI)
  show "pop_avail V mem m q \<noteq> Inl UndefinedBehaviour" by (rule pop_avail_no_ub [OF assms])
  show "push_used V mem q h l m \<noteq> Inl UndefinedBehaviour" by (rule push_used_no_ub [OF assms])
  note walk = walk_chain_safe [OF assms, of "\<lparr>ch_head = a, ch_read = [], ch_write = []\<rparr>" for a, simplified]
  show "case pop_avail V mem m q of
         Inr (Some ch, q') \<Rightarrow> \<forall>s \<in> set (ch_write ch). ptr_ok mem (fst s) (snd s) | _ \<Rightarrow> True"
    using walk by (auto simp: pop_avail_eq [OF assms] Let_def res_simps split: option.splits sum.splits if_splits)
  show "case push_used V mem q h l m of
         Inr m' \<Rightarrow> \<exists>p. gpa_to_host mem (vq_used q) (4 + 8 * unat (vq_num q)) = Some p \<and>
           same_outside (ptr_bytes p (4 + 8 * unat (vq_num q))) m m'
       | Inl e \<Rightarrow> True"
    using vring_memory_safe_used [OF assms] by (auto split: sum.splits)
qed

section \<open>The used ring\<close>

lemma used_ring_write:
  assumes "documented_vring V" and "s < n" and "length bs = 8"
  shows "used_elem (ram_write (ptr_add p 2) (to_le16 k) (ram_write (ptr_add p (4 + 8 * s)) bs m)) p j =
      (if j = s then bs else used_elem m p j)"
    and "used_idx V (ram_write (ptr_add p 2) (to_le16 k) m) p = k"
proof -
  let ?m1 = "ram_write (ptr_add p (4 + 8 * s)) bs m"
  have a: "used_elem (ram_write (ptr_add p 2) (to_le16 k) ?m1) p j = used_elem ?m1 p j"
    unfolding used_elem_def by (rule ram_read_write_disjoint) (auto simp: ptr_bytes_def ptr_add_def)
  have "used_elem ?m1 p j = used_elem m p j" if "j \<noteq> s"
    unfolding used_elem_def using that assms(3)
    by (intro ram_read_write_disjoint) (auto simp: ptr_bytes_def ptr_add_def)
  moreover have "used_elem ?m1 p s = bs"
    unfolding used_elem_def using ram_read_write_same [of "ptr_add p (4 + 8 * s)" bs m] assms(3) by simp
  ultimately show "used_elem (ram_write (ptr_add p 2) (to_le16 k) ?m1) p j =
      (if j = s then bs else used_elem m p j)" using a by simp
  have "take 2 (drop 2 (ram_read (ram_write (ptr_add p 2) (to_le16 k) m) p 4)) =
      ram_read (ram_write (ptr_add p 2) (to_le16 k) m) (ptr_add p 2) 2"
    by (intro nth_equalityI) (simp_all add: ram_read_nth ptr_add_def)
  also have "\<dots> = to_le16 k" using ram_read_write_same [of "ptr_add p 2" "to_le16 k" m] by simp
  finally show "used_idx V (ram_write (ptr_add p 2) (to_le16 k) m) p = k"
    using assms(1) by (simp add: used_idx_def documented_vring_def)
qed

lemma push_used_elems:
  assumes "documented_vring V" "regions_aligned mem" "queue_aligned q"
    and "gpa_to_host mem (vq_used q) (4 + 8 * unat (vq_num q)) = Some p" and "vq_num q \<noteq> 0"
    and "push_used V mem q h l m = Inr m'"
  shows "used_idx V m' p = used_idx V m p + 1"
    and "used_elem m' p s = (if s = unat (used_idx V m p) mod unat (vq_num q)
      then to_le32 (ucast h) @ to_le32 l else used_elem m p s)"
proof -
  let ?s = "unat (used_idx V m p) mod unat (vq_num q)"
  have "?s < unat (vq_num q)" using assms(5) by (simp add: unat_gt_0)
  note w = used_ring_write [OF assms(1) this, of "to_le32 (ucast h) @ to_le32 l"]
  have m': "m' = ram_write (ptr_add p 2) (to_le16 (used_idx V m p + 1))
      (ram_write (ptr_add p (4 + 8 * ?s)) (to_le32 (ucast h) @ to_le32 l) m)"
    using assms(4-6) by (simp add: push_used_eq [OF assms(1-3)])
  show "used_idx V m' p = used_idx V m p + 1" unfolding m' by (rule w(2)) simp
  show "used_elem m' p s = (if s = ?s then to_le32 (ucast h) @ to_le32 l else used_elem m p s)"
    unfolding m' by (rule w(1)) simp
qed

text \<open>
  C18. Completing a chain publishes it: for a used ring in guest RAM and a queue size other than
  zero it succeeds, puts the head and the length in the slot of the ring's index (modulo the
  queue size), advances the index by one (wrapping at 65536), and leaves every other slot as
  it was.
\<close>

theorem push_used_publishes:
  assumes "documented_vring V" "regions_aligned mem" "queue_aligned q"
    and "gpa_to_host mem (vq_used q) (4 + 8 * unat (vq_num q)) = Some p" and "vq_num q \<noteq> 0"
  shows "\<exists>m'. push_used V mem q h l m = Inr m'
    \<and> used_idx V m' p = used_idx V m p + 1
    \<and> (\<forall>s. used_elem m' p s =
         (if s = unat (used_idx V m p) mod unat (vq_num q) then to_le32 (ucast h) @ to_le32 l
          else used_elem m p s))"
  using assms push_used_elems [OF assms] by (auto simp: push_used_eq [OF assms(1-3)])

section \<open>Descriptor chains\<close>

text \<open>
  What a chain is, without the loop: descriptors of the table that follow each other through
  \<open>next\<close>, and the bytes and buffers they stand for.
\<close>

fun chain_at ::
    "vring_abi \<Rightarrow> guest_memory \<Rightarrow> ram \<Rightarrow> vring_queue \<Rightarrow> u16 \<Rightarrow> vring_desc list \<Rightarrow> bool" where
  "chain_at V mem m q idx [] \<longleftrightarrow> True"
| "chain_at V mem m q idx (d # ds) \<longleftrightarrow> get_desc_head V mem m q idx = Inr d \<and>
     (ds \<noteq> [] \<longrightarrow> has_next V d \<and> chain_at V mem m q (vd_next d) ds)"

definition desc_buffer :: "guest_memory \<Rightarrow> vring_desc \<Rightarrow> host_ptr \<times> nat" where
  "desc_buffer mem d = (case gpa_to_host mem (vd_addr d) (unat (vd_len d)) of
     Some p \<Rightarrow> (p, unat (vd_len d)) | None \<Rightarrow> ((0, 0), 0))"

definition desc_in_ram :: "guest_memory \<Rightarrow> vring_desc \<Rightarrow> bool" where
  "desc_in_ram mem d \<longleftrightarrow> gpa_to_host mem (vd_addr d) (unat (vd_len d)) \<noteq> None"

definition chain_reads :: "vring_abi \<Rightarrow> guest_memory \<Rightarrow> ram \<Rightarrow> vring_desc list \<Rightarrow> u8 list" where
  "chain_reads V mem m ds =
     concat (map (\<lambda>d. case desc_buffer mem d of (p, n) \<Rightarrow> ram_read m p n)
       (filter (\<lambda>d. desc_type_of V d = READ) ds))"

definition chain_writes :: "vring_abi \<Rightarrow> guest_memory \<Rightarrow> vring_desc list \<Rightarrow> (host_ptr \<times> nat) list" where
  "chain_writes V mem ds = map (desc_buffer mem) (filter (\<lambda>d. desc_type_of V d = WRITE) ds)"

lemma add_desc_Inr_iff:
  "add_desc V mem m d ch = Inr ch' \<longleftrightarrow> desc_in_ram mem d \<and>
     ch' = ch\<lparr>ch_read := ch_read ch @ chain_reads V mem m [d],
              ch_write := ch_write ch @ chain_writes V mem [d]\<rparr>"
  using gpa_to_host_ptr_ok
  by (cases "desc_type_of V d")
    (auto simp: add_desc_def get_data_def res_simps desc_in_ram_def desc_buffer_def chain_reads_def
      chain_writes_def)

lemma chain_append_simps:
  "chain_reads V mem m (d # ds) = chain_reads V mem m [d] @ chain_reads V mem m ds"
  "chain_writes V mem (d # ds) = chain_writes V mem [d] @ chain_writes V mem ds"
  "chain_reads V mem m [] = []" "chain_writes V mem [] = []"
  by (simp_all add: chain_reads_def chain_writes_def)

lemma walk_chain_spec:
  assumes "walk_chain V mem m q n idx ch = Inr ch'"
  shows "\<exists>ds. chain_at V mem m q idx ds \<and> length ds \<le> n \<and> (n \<noteq> 0 \<longrightarrow> ds \<noteq> []) \<and>
    (length ds < n \<longrightarrow> \<not> has_next V (last ds)) \<and> list_all (desc_in_ram mem) ds \<and>
    ch' = ch\<lparr>ch_read := ch_read ch @ chain_reads V mem m ds,
             ch_write := ch_write ch @ chain_writes V mem ds\<rparr>"
  using assms
proof (induction n arbitrary: idx ch)
  case 0
  then show ?case by (intro exI [of _ "[]"]) (simp add: chain_append_simps)
next
  case (Suc n)
  then obtain d ch1 where d: "get_desc_head V mem m q idx = Inr d"
    and ch1: "add_desc V mem m d ch = Inr ch1"
    and rest: "(if has_next V d then walk_chain V mem m q n (vd_next d) ch1 else Inr ch1) = Inr ch'"
    by (auto simp: res_simps)
  show ?case
  proof (cases "has_next V d")
    case True
    from Suc.IH [of "vd_next d" ch1] rest True obtain ds where ds:
      "chain_at V mem m q (vd_next d) ds" "length ds \<le> n" "n \<noteq> 0 \<longrightarrow> ds \<noteq> []"
      "length ds < n \<longrightarrow> \<not> has_next V (last ds)" "list_all (desc_in_ram mem) ds"
      "ch' = ch1\<lparr>ch_read := ch_read ch1 @ chain_reads V mem m ds,
             ch_write := ch_write ch1 @ chain_writes V mem ds\<rparr>"
      by auto
    show ?thesis
      using d True ds ch1 [unfolded add_desc_Inr_iff]
      by (intro exI [of _ "d # ds"])
        (auto simp: chain_append_simps(1) [of V mem m d ds] chain_append_simps(2) [of V mem d ds])
  next
    case False
    then show ?thesis
      using d rest ch1 [unfolded add_desc_Inr_iff] by (intro exI [of _ "[d]"]) auto
  qed
qed

lemma walk_chain_faults:
  assumes "documented_vring V" "regions_aligned mem" "queue_aligned q"
    and "walk_chain V mem m q n idx ch = Inl e"
  shows "e \<in> {IoError Other, Panicked UnwrapNone, Panicked ArithOverflow}"
  using assms(4)
proof (induction n arbitrary: idx ch)
  case (Suc n)
  have "e' \<in> {Panicked UnwrapNone, Panicked ArithOverflow}"
    if "get_desc_head V mem m q idx = Inl e'" for e'
    using that get_desc_head_no_ub [OF assms(1-3), of m idx]
    by (auto simp: get_desc_head_def res_simps read_guest_ptr_def split: if_splits)
  moreover have "e' \<in> {IoError Other, Panicked UnwrapNone}" if "add_desc V mem m d ch = Inl e'" for d e'
    using that gpa_to_host_ptr_ok
    by (auto simp: add_desc_def get_data_def res_simps slice_from_ptr_def split: desc_type.splits if_splits)
  ultimately show ?case using Suc by (fastforce simp: res_simps split: if_splits)
qed simp

section \<open>The available ring as a queue\<close>

text \<open>The heads the driver has published and the device has not taken.\<close>

definition avail_pending :: "vring_abi \<Rightarrow> ram \<Rightarrow> host_ptr \<Rightarrow> vring_queue \<Rightarrow> u16 list" where
  "avail_pending V m p q =
     map (\<lambda>i. avail_head m p (unat (vq_last_avail q + word_of_nat i) mod unat (vq_num q)))
       [0..<unat (avail_idx V m p - vq_last_avail q)]"

lemma avail_pending_Nil_iff: "avail_pending V m p q = [] \<longleftrightarrow> vq_last_avail q = avail_idx V m p"
  by (auto simp: avail_pending_def unat_eq_0)

lemma avail_pending_Cons:
  assumes "vq_last_avail q \<noteq> avail_idx V m p"
  shows "avail_pending V m p q =
    avail_head m p (unat (vq_last_avail q) mod unat (vq_num q)) #
    avail_pending V m p (q\<lparr>vq_last_avail := vq_last_avail q + 1\<rparr>)"
proof -
  let ?d = "avail_idx V m p - vq_last_avail q"
  have "?d \<noteq> 0" using assms by auto
  then have d: "unat ?d = Suc (unat (avail_idx V m p - (vq_last_avail q + 1)))"
    using unat_minus_one [of ?d] by (simp add: unat_gt_0 diff_diff_eq [symmetric])
  have "[0..<unat ?d] = 0 # map Suc [0..<unat (avail_idx V m p - (vq_last_avail q + 1))]"
    unfolding d by (simp add: upt_conv_Cons map_Suc_upt del: upt_Suc)
  then show ?thesis
    by (simp add: avail_pending_def comp_def add.assoc)
qed

text \<open>
  C3. The device takes chains in the order the driver published them, once each, also across the
  wrap of the ring and of the 16-bit index. If heads are pending, taking one either fails on a
  descriptor that leaves guest RAM or whose address overflows, or yields the oldest pending
  head with the data of a chain of at most \<open>num\<close> descriptors starting there; exactly that head
  is no longer pending. With none pending it yields none.
\<close>

theorem pop_avail_fifo:
  assumes "documented_vring V" "regions_aligned mem" "queue_aligned q" "vq_num q \<noteq> 0"
    and "gpa_to_host mem (vq_avail q) (4 + 2 * unat (vq_num q)) = Some p"
  shows "case pop_avail V mem m q of
      Inr (None, q') \<Rightarrow> avail_pending V m p q = [] \<and> q' = q
    | Inr (Some ch, q') \<Rightarrow>
        avail_pending V m p q = ch_head ch # avail_pending V m p q' \<and>
        q' = q\<lparr>vq_last_avail := vq_last_avail q + 1\<rparr> \<and>
        (\<exists>ds. chain_at V mem m q (ch_head ch) ds \<and> ds \<noteq> [] \<and> length ds \<le> unat (vq_num q) \<and>
          (length ds < unat (vq_num q) \<longrightarrow> \<not> has_next V (last ds)) \<and>
          ch_read ch = chain_reads V mem m ds \<and> ch_write ch = chain_writes V mem ds)
    | Inl e \<Rightarrow> avail_pending V m p q \<noteq> [] \<and>
        e \<in> {IoError Other, Panicked UnwrapNone, Panicked ArithOverflow}"
proof (cases "vq_last_avail q = avail_idx V m p")
  case True
  then show ?thesis
    using assms(5) by (simp add: pop_avail_eq [OF assms(1-3)] avail_pending_Nil_iff)
next
  case False
  let ?h = "avail_head m p (unat (vq_last_avail q) mod unat (vq_num q))"
  let ?w = "walk_chain V mem m q (unat (vq_num q)) ?h \<lparr>ch_head = ?h, ch_read = [], ch_write = []\<rparr>"
  have pop: "pop_avail V mem m q =
      try_res ?w (\<lambda>ch. Inr (Some ch, q\<lparr>vq_last_avail := vq_last_avail q + 1\<rparr>))"
    using False assms(4,5) by (simp add: pop_avail_eq [OF assms(1-3)] Let_def)
  show ?thesis
  proof (cases ?w)
    case (Inl e)
    then have "e \<in> {IoError Other, Panicked UnwrapNone, Panicked ArithOverflow}"
      using walk_chain_faults [OF assms(1-3) Inl] by simp
    then show ?thesis using False Inl by (simp add: pop avail_pending_Nil_iff)
  next
    case (Inr ch)
    from walk_chain_spec [OF Inr] assms(4) obtain ds where
      "chain_at V mem m q ?h ds" "ds \<noteq> []" "length ds \<le> unat (vq_num q)"
      "length ds < unat (vq_num q) \<longrightarrow> \<not> has_next V (last ds)"
      "ch = \<lparr>ch_head = ?h, ch_read = chain_reads V mem m ds, ch_write = chain_writes V mem ds\<rparr>"
      by (auto simp: unat_eq_0)
    then show ?thesis using Inr avail_pending_Cons [OF False] by (auto simp: pop)
  qed
qed

section \<open>The driver's side\<close>

text \<open>
  What the virtio specification has a driver do to publish a head: write it to the slot of the
  ring's index, then advance the index.
\<close>

definition driver_publish :: "vring_abi \<Rightarrow> host_ptr \<Rightarrow> nat \<Rightarrow> u16 \<Rightarrow> ram \<Rightarrow> ram" where
  "driver_publish V p num h m =
     ram_write (ptr_add p 2) (to_le16 (avail_idx V m p + 1))
       (ram_write (ptr_add p (4 + 2 * (unat (avail_idx V m p) mod num))) (to_le16 h) m)"

lemma driver_publish_reads:
  assumes "documented_vring V"
  shows "avail_idx V (driver_publish V p n h m) p = avail_idx V m p + 1"
    and "avail_head (driver_publish V p n h m) p s =
      (if s = unat (avail_idx V m p) mod n then h else avail_head m p s)"
proof -
  let ?k = "unat (avail_idx V m p) mod n" and ?i = "to_le16 (avail_idx V m p + 1)"
  let ?m1 = "ram_write (ptr_add p (4 + 2 * ?k)) (to_le16 h) m"
  let ?m' = "driver_publish V p n h m"
  have "take 2 (drop 2 (ram_read ?m' p 4)) = ram_read ?m' (ptr_add p 2) 2"
    by (intro nth_equalityI) (simp_all add: ram_read_nth ptr_add_def)
  also have "\<dots> = ?i"
    unfolding driver_publish_def using ram_read_write_same [of "ptr_add p 2" ?i ?m1] by simp
  finally show "avail_idx V ?m' p = avail_idx V m p + 1"
    using assms by (simp add: avail_idx_def documented_vring_def)
  have a: "avail_head ?m' p s = avail_head ?m1 p s"
    unfolding avail_head_def driver_publish_def
    by (subst ram_read_write_disjoint) (auto simp: ptr_bytes_def ptr_add_def)
  have "avail_head ?m1 p s = avail_head m p s" if "s \<noteq> ?k"
    unfolding avail_head_def using that
    by (subst ram_read_write_disjoint) (auto simp: ptr_bytes_def ptr_add_def)
  moreover have "avail_head ?m1 p ?k = h"
    unfolding avail_head_def using ram_read_write_same [of "ptr_add p (4 + 2 * ?k)" "to_le16 h" m] by simp
  ultimately show "avail_head ?m' p s = (if s = ?k then h else avail_head m p s)" using a by simp
qed

lemma ring_window_distinct:
  fixes a :: u16
  assumes "n dvd 65536" and "i < j" and "j < n"
  shows "unat (a + word_of_nat i) mod n \<noteq> unat (a + word_of_nat j) mod n"
proof -
  have m: "unat (a + word_of_nat k) mod n = (unat a + k) mod n" for k
  proof -
    have "unat (a + word_of_nat k) = (unat a + k) mod 65536"
      by (simp add: unat_word_ariths unat_of_nat take_bit_eq_mod mod_add_right_eq)
    then show ?thesis using assms(1) by (simp add: mod_mod_cancel)
  qed
  have "(unat a + j) - (unat a + i) < n" "unat a + i < unat a + j" using assms by auto
  then show ?thesis unfolding m
    using mod_eq_dvd_iff_nat [of "unat a + i" "unat a + j" n] nat_dvd_not_less [of "j - i" n] assms
    by auto
qed

text \<open>
  The driver's publish and the device's take refine a queue: with a power-of-two queue size
  (one that divides 32768, the largest the specification allows) and a free slot, publishing a head appends it to the pending ones and
  disturbs none of them, across every wrap.
\<close>

theorem driver_publish_appends:
  assumes "documented_vring V" and "unat (vq_num q) dvd 32768"
    and "length (avail_pending V m p q) < unat (vq_num q)"
  shows "avail_pending V (driver_publish V p (unat (vq_num q)) h m) p q =
    avail_pending V m p q @ [h]"
proof -
  let ?n = "unat (vq_num q)" and ?d = "unat (avail_idx V m p - vq_last_avail q)"
  let ?a = "vq_last_avail q" and ?m' = "driver_publish V p ?n h m"
  have d: "?d < ?n" using assms(3) by (simp add: avail_pending_def)
  have n: "?n dvd 65536" using assms(2) dvd_trans [of ?n 32768 65536] by simp
  have "?n \<le> 32768" using assms(2) by (simp add: dvd_imp_le)
  then have "unat (avail_idx V m p + 1 - ?a) = ?d + 1"
    using d by (simp add: diff_add_eq [symmetric] unat_word_ariths(1))
  moreover have "?a + word_of_nat ?d = avail_idx V m p" by simp
  moreover have "avail_head ?m' p (unat (?a + word_of_nat i) mod ?n) =
      avail_head m p (unat (?a + word_of_nat i) mod ?n)" if "i < ?d" for i
    using ring_window_distinct [OF n that d, of ?a]
    by (simp add: driver_publish_reads(2) [OF assms(1)])
  ultimately show ?thesis
    by (simp add: avail_pending_def driver_publish_reads [OF assms(1)])
qed

lemma le_bytes_numeral:
  "le_bytes (numeral k) v = word_of_nat (v mod 256) # le_bytes (pred_numeral k) (v div 256)"
  by (simp only: numeral_eq_Suc le_bytes.simps)

lemma ram_read_Suc: "ram_read m (i, a) (Suc n) = m i a # ram_read m (i, a + 1) n"
  by (rule nth_equalityI) (auto simp: ram_read_nth nth_Cons split: nat.split)

lemma ram_read_step:
  "ram_read m (i, a) 0 = []" "ram_read m (i, a) (Suc 0) = [m i a]"
  "ram_read m (i, a) (numeral k) = m i a # ram_read m (i, a + 1) (pred_numeral k)"
  by (simp_all only: numeral_eq_Suc ram_read_Suc) (simp_all add: ram_read_def)

text \<open>The fields of the Linux layout.\<close>

lemma linux_vring_fields [simp]:
  "vring_desc_f_next linux_vring = 1" "vring_desc_f_write linux_vring = 2"
  "sz_desc linux_vring = 16" "al_desc linux_vring = 8" "sz_avail linux_vring = 4"
  "al_avail linux_vring = 2" "sz_used linux_vring = 4" "al_used linux_vring = 4"
  "sz_used_elem linux_vring = 8" "al_used_elem linux_vring = 4"
  "dec_desc linux_vring b = \<lparr>vd_addr = from_le64 (take 8 b), vd_len = from_le32 (take 4 (drop 8 b)),
     vd_flags = from_le16 (take 2 (drop 12 b)), vd_next = from_le16 (take 2 (drop 14 b))\<rparr>"
  "va_idx (dec_avail linux_vring b) = from_le16 (take 2 (drop 2 b))"
  "vu_idx (dec_used linux_vring b) = from_le16 (take 2 (drop 2 b))"
  "enc_used_elem linux_vring e = to_le32 (ue_id e) @ to_le32 (ue_len e)"
  by (simp_all add: linux_vring_def)

lemmas byte_eval = le_bytes_numeral ram_read_step byte_enc_defs ptr_add_def ram_write_def

section \<open>A concrete queue\<close>

definition demo_mem :: guest_memory where
  "demo_mem = [\<lparr>mem_ptr = 0x10000, mem_size = 0x1000, guest_phys_addr = 0, slot = Some 0\<rparr>]"

definition demo_queue :: vring_queue where
  "demo_queue = \<lparr>vq_ready = 1, vq_num = 2, vq_last_avail = 0, vq_desc = 0x10, vq_avail = 0x40, vq_used = 0x80\<rparr>"

text \<open>One head, 1, is pending: a writable buffer of three bytes at \<open>0x100\<close>.\<close>

definition demo_ram :: ram where
  "demo_ram = ram_write (0, 0x20) (to_le64 0x100 @ to_le32 3 @ to_le16 2 @ to_le16 0)
     (ram_write (0, 0x40) (to_le16 0 @ to_le16 1 @ to_le16 1) (\<lambda>_ _. 0))"

lemma demo_aligned: "regions_aligned demo_mem" "queue_aligned demo_queue"
  by (simp_all add: regions_aligned_def queue_aligned_def demo_mem_def demo_queue_def)

lemma demo_ptrs:
  "gpa_to_host demo_mem (vq_avail demo_queue) (4 + 2 * unat (vq_num demo_queue)) = Some (0, 0x40)"
  "gpa_to_host demo_mem (vq_used demo_queue) (4 + 8 * unat (vq_num demo_queue)) = Some (0, 0x80)"
  "vq_num demo_queue \<noteq> 0"
  by (simp_all add: demo_mem_def demo_queue_def gpa_to_host_def region_offset_def checked_sub_def)

lemma demo_reads:
  "ram_read demo_ram (0, 0x40) 4 = [0, 0, 1, 0]" "ram_read demo_ram (0, 0x44) 2 = [1, 0]"
  "ram_read demo_ram (0, 0x20) 16 = [0, 1, 0, 0, 0, 0, 0, 0, 3, 0, 0, 0, 2, 0, 0, 0]"
  by (simp_all add: demo_ram_def byte_eval)

lemma demo_pending: "avail_pending linux_vring demo_ram (0, 0x40) demo_queue = [1]"
  by (simp add: avail_pending_def demo_queue_def avail_idx_def avail_head_def 
      ptr_add_def demo_reads from_le16_def)

lemma demo_desc:
  "get_desc_head linux_vring demo_mem demo_ram demo_queue 1 =
     Inr \<lparr>vd_addr = 0x100, vd_len = 3, vd_flags = 2, vd_next = 0\<rparr>"
  by (simp add: get_desc_head_def checked_mul_def checked_add_def demo_queue_def 
      demo_mem_def gpa_to_host_def region_offset_def checked_sub_def read_guest_ptr_def ptr_ok_def
      ptr_aligned_def demo_reads byte_enc_defs)

lemma demo_pop:
  "pop_avail linux_vring demo_mem demo_ram demo_queue =
     Inr (Some \<lparr>ch_head = 1, ch_read = [], ch_write = [((0, 0x100), 3)]\<rparr>,
          demo_queue\<lparr>vq_last_avail := 1\<rparr>)"
proof -
  have "add_desc linux_vring demo_mem demo_ram \<lparr>vd_addr = 0x100, vd_len = 3, vd_flags = 2, vd_next = 0\<rparr>
      \<lparr>ch_head = 1, ch_read = [], ch_write = []\<rparr> =
      Inr \<lparr>ch_head = 1, ch_read = [], ch_write = [((0, 0x100), 3)]\<rparr>"
    by (simp add: add_desc_def desc_type_of_def  guest_ptr_def demo_mem_def
        gpa_to_host_def region_offset_def checked_sub_def slice_from_ptr_def ptr_ok_def)
  then have "walk_chain linux_vring demo_mem demo_ram demo_queue (Suc (Suc 0)) 1
      \<lparr>ch_head = 1, ch_read = [], ch_write = []\<rparr> =
      Inr \<lparr>ch_head = 1, ch_read = [], ch_write = [((0, 0x100), 3)]\<rparr>"
    by (simp add: demo_desc has_next_def )
  then have "walk_chain linux_vring demo_mem demo_ram demo_queue 2 1
      \<lparr>ch_head = 1, ch_read = [], ch_write = []\<rparr> =
      Inr \<lparr>ch_head = 1, ch_read = [], ch_write = [((0, 0x100), 3)]\<rparr>"
    by (simp only: numeral_2_eq_2)
  moreover have "avail_idx linux_vring demo_ram (0, 0x40) = 1" "avail_head demo_ram (0, 0x40) 0 = 1"
    by (simp_all add: avail_idx_def avail_head_def ptr_add_def demo_reads from_le16_def)
  moreover have "vq_last_avail demo_queue = 0" "vq_num demo_queue = 2" by (simp_all add: demo_queue_def)
  ultimately show ?thesis
    using demo_ptrs(1) by (simp add: pop_avail_eq [OF documented_linux_vring demo_aligned] Let_def)
qed

theorem vring_memory_safe_witness:
  "\<exists>ch q'. pop_avail linux_vring demo_mem demo_ram demo_queue = Inr (Some ch, q') \<and>
     ch_write ch \<noteq> [] \<and> (\<forall>s \<in> set (ch_write ch). ptr_ok demo_mem (fst s) (snd s))"
  using vring_memory_safe [OF documented_linux_vring demo_aligned, of demo_ram 1 3]
  by (simp add: demo_pop)

theorem push_used_publishes_witness:
  "\<exists>m'. push_used linux_vring demo_mem demo_queue 1 3 demo_ram = Inr m' \<and>
     used_idx linux_vring m' (0, 0x80) = 1 \<and> used_elem m' (0, 0x80) 0 = [1, 0, 0, 0, 3, 0, 0, 0]"
proof -
  have i: "used_idx linux_vring demo_ram (0, 0x80) = 0"
    by (simp add: used_idx_def demo_ram_def byte_eval)
  have e: "to_le32 (ucast (1::u16)) @ to_le32 3 = [1, 0, 0, 0, 3, 0, 0, 0]" by (simp add: byte_eval)
  from push_used_publishes [OF documented_linux_vring demo_aligned demo_ptrs(2,3), of 1 3 demo_ram]
  show ?thesis unfolding i e by auto
qed

theorem pop_avail_fifo_witness:
  "\<exists>ch q'. pop_avail linux_vring demo_mem demo_ram demo_queue = Inr (Some ch, q') \<and>
     ch_head ch = 1 \<and> avail_pending linux_vring demo_ram (0, 0x40) q' = []"
  using pop_avail_fifo [OF documented_linux_vring demo_aligned demo_ptrs(3,1), of demo_ram]
  by (simp add: demo_pop demo_pending) (simp add: demo_queue_def)

theorem driver_publish_appends_witness:
  "avail_pending linux_vring (driver_publish linux_vring (0, 0x40) 2 0 demo_ram) (0, 0x40) demo_queue = [1, 0]"
proof -
  have n: "unat (vq_num demo_queue) = 2" by (simp add: demo_queue_def)
  show ?thesis
    using driver_publish_appends [OF documented_linux_vring, of demo_queue demo_ram "(0, 0x40)" 0]
    by (simp add: n demo_pending)
qed

section \<open>What a faulty driver can do\<close>

text \<open>
  C30. Nothing checks what the guest writes to the queue registers and to the rings. An available
  ring at an odd address inside guest RAM makes the device read misaligned (undefined
  behaviour); a pending head whose descriptor lies outside guest RAM makes it panic, not fail.
\<close>

theorem pop_avail_trusts_driver:
  assumes "documented_vring V" "regions_aligned mem"
    and "gpa_to_host mem (vq_avail q) (4 + 2 * unat (vq_num q)) = Some p"
  shows "(odd (unat (vq_avail q)) \<longrightarrow> pop_avail V mem m q = Inl UndefinedBehaviour)
    \<and> (queue_aligned q \<and> vq_num q \<noteq> 0 \<and> avail_pending V m p q = h # hs \<and>
       unat (vq_desc q) + 16 * unat h < 2 ^ 64 \<and>
       gpa_to_host mem (vq_desc q + ucast h * 16) 16 = None \<longrightarrow>
         pop_avail V mem m q = Inl (Panicked UnwrapNone))"
proof (intro conjI impI)
  assume odd: "odd (unat (vq_avail q))"
  let ?r = "mem ! fst p"
  have "?r \<in> set mem" using gpa_to_host_SomeD(1) [OF assms(3)] by simp
  then have "4096 dvd unat (mem_ptr ?r)" "4096 dvd unat (guest_phys_addr ?r)"
    using assms(2) by (auto simp: regions_aligned_def)
  then have "even (unat (mem_ptr ?r))" "even (unat (guest_phys_addr ?r))"
    using dvd_trans [of 2 4096] by auto
  then have "\<not> ptr_aligned mem 2 p"
    using odd gpa_to_host_SomeD(3) [OF assms(3)] by (simp add: ptr_aligned_def even_iff_mod_2_eq_zero [symmetric])
  then show "pop_avail V mem m q = Inl UndefinedBehaviour"
    using assms(1,3) by (simp add: pop_avail_def documented_vring_def guest_ptr_def read_guest_ptr_def)
next
  assume h: "queue_aligned q \<and> vq_num q \<noteq> 0 \<and> avail_pending V m p q = h # hs \<and>
       unat (vq_desc q) + 16 * unat h < 2 ^ 64 \<and>
       gpa_to_host mem (vq_desc q + ucast h * 16) 16 = None"
  then have ne: "vq_last_avail q \<noteq> avail_idx V m p" using avail_pending_Nil_iff [of V m p q] by auto
  obtain n where n: "unat (vq_num q) = Suc n" using h by (cases "unat (vq_num q)") (auto simp: unat_eq_0)
  have u: "unat (ucast h :: u64) = unat h"
    using unat_less_two_power [of h] by (simp add: unsigned_ucast_eq take_bit_nat_eq_self)
  have "unat h < 65536" using unat_less_two_power [of h] by simp
  then have mul: "checked_mul (ucast h) (16 :: u64) = Some (ucast h * 16)" by (simp add: checked_mul_def u)
  have "unat (ucast h * 16 :: u64) = unat h * 16" using checked_mul_SomeD [OF mul] by (simp add: u)
  then have "checked_add (vq_desc q) (ucast h * 16) = Some (vq_desc q + ucast h * 16)"
    using h by (simp add: checked_add_def mult.commute)
  with mul h assms(1) have "get_desc_head V mem m q h = Inl (Panicked UnwrapNone)"
    by (simp add: get_desc_head_def documented_vring_def)
  moreover have "avail_head m p (unat (vq_last_avail q) mod unat (vq_num q)) = h"
    using avail_pending_Cons [OF ne] h by simp
  ultimately show "pop_avail V mem m q = Inl (Panicked UnwrapNone)"
    using h assms ne n by (simp add: pop_avail_eq Let_def)
qed

theorem pop_avail_trusts_driver_witness:
  "pop_avail linux_vring demo_mem demo_ram (demo_queue\<lparr>vq_avail := 0x41\<rparr>) = Inl UndefinedBehaviour"
proof -
  have p: "gpa_to_host demo_mem (vq_avail (demo_queue\<lparr>vq_avail := 0x41\<rparr>))
      (4 + 2 * unat (vq_num (demo_queue\<lparr>vq_avail := 0x41\<rparr>))) = Some (0, 0x41)"
    by (simp add: demo_mem_def demo_queue_def gpa_to_host_def region_offset_def checked_sub_def)
  show ?thesis
    using pop_avail_trusts_driver [OF documented_linux_vring demo_aligned(1) p, of demo_ram] by simp
qed

end
