(* ===== verification/Util_Binary.thy ===== *)
theory Util_Binary
  imports Hearth_Prelude
begin

text \<open>
  \<open>src/src/util/binary.rs\<close>: integers and plain structs read from, and written into, byte
  slices at an offset. Indexing or slicing out of range panics; \<open>new_from\<close> returns \<open>None\<close>.
\<close>

section \<open>The functions of \<open>binary.rs\<close>\<close>

text \<open>
  \<open>b[o..o + n]\<close>. Offsets and lengths are \<open>usize\<close>; a slice is at most \<open>isize::MAX\<close> bytes long
  and every offset of the program is a small constant, so \<open>o + n\<close> never wraps.
\<close>

definition slice_at :: "u8 list \<Rightarrow> nat \<Rightarrow> nat \<Rightarrow> u8 list res" where
  "slice_at b off n =
     (if off + n \<le> length b then Inr (take n (drop off b)) else Inl (Panicked IndexOutOfBounds))"

definition splice_at :: "u8 list \<Rightarrow> nat \<Rightarrow> u8 list \<Rightarrow> u8 list res" where
  "splice_at b off v =
     (if off + length v \<le> length b then Inr (take off b @ v @ drop (off + length v) b)
      else Inl (Panicked IndexOutOfBounds))"

text \<open>
  \<open>new_from::<T>\<close>: the size of \<open>T\<close> and the reading of its bytes are arguments, since the
  program instantiates it with structs of the generated bindings only.
\<close>

definition new_from :: "nat \<Rightarrow> (u8 list \<Rightarrow> 'a) \<Rightarrow> u8 list \<Rightarrow> nat \<Rightarrow> 'a option" where
  "new_from sz dec b off =
     (if off + sz \<le> length b then Some (dec (take sz (drop off b))) else None)"

definition read_le16 :: "u8 list \<Rightarrow> nat \<Rightarrow> u16 res" where
  "read_le16 b off = try_res (slice_at b off 2) (\<lambda>s. Inr (from_le16 s))"

definition read_le32 :: "u8 list \<Rightarrow> nat \<Rightarrow> u32 res" where
  "read_le32 b off = try_res (slice_at b off 4) (\<lambda>s. Inr (from_le32 s))"

definition read_le64 :: "u8 list \<Rightarrow> nat \<Rightarrow> u64 res" where
  "read_le64 b off = try_res (slice_at b off 8) (\<lambda>s. Inr (from_le64 s))"

definition write_le16 :: "u8 list \<Rightarrow> nat \<Rightarrow> u16 \<Rightarrow> u8 list res" where
  "write_le16 b off v = splice_at b off (to_le16 v)"

definition write_le32 :: "u8 list \<Rightarrow> nat \<Rightarrow> u32 \<Rightarrow> u8 list res" where
  "write_le32 b off v = splice_at b off (to_le32 v)"

definition write_le64 :: "u8 list \<Rightarrow> nat \<Rightarrow> u64 \<Rightarrow> u8 list res" where
  "write_le64 b off v = splice_at b off (to_le64 v)"

text \<open>
  \<open>std::str::from_utf8\<close> accepts well-formed UTF-8: one to four bytes a character, no overlong
  forms, no surrogates, nothing above U+10FFFF.
\<close>

definition utf8_cont :: "u8 \<Rightarrow> bool" where
  "utf8_cont c \<longleftrightarrow> 0x80 \<le> c \<and> c \<le> 0xbf"

fun utf8_valid :: "u8 list \<Rightarrow> bool" where
  "utf8_valid [] = True"
| "utf8_valid (a # bs) =
     (if a < 0x80 then utf8_valid bs
      else case bs of
        [] \<Rightarrow> False
      | b # cs \<Rightarrow>
          if 0xc2 \<le> a \<and> a \<le> 0xdf then utf8_cont b \<and> utf8_valid cs
          else case cs of
            [] \<Rightarrow> False
          | c # ds \<Rightarrow>
              if 0xe0 \<le> a \<and> a \<le> 0xef then
                (if a = 0xe0 then 0xa0 \<le> b \<and> b \<le> 0xbf
                 else if a = 0xed then 0x80 \<le> b \<and> b \<le> 0x9f
                 else utf8_cont b) \<and> utf8_cont c \<and> utf8_valid ds
              else case ds of
                [] \<Rightarrow> False
              | d # es \<Rightarrow>
                  0xf0 \<le> a \<and> a \<le> 0xf4 \<and>
                  (if a = 0xf0 then 0x90 \<le> b \<and> b \<le> 0xbf
                   else if a = 0xf4 then 0x80 \<le> b \<and> b \<le> 0x8f
                   else utf8_cont b) \<and> utf8_cont c \<and> utf8_cont d \<and> utf8_valid es)"

declare utf8_valid.simps(2) [simp del]

fun position :: "('a \<Rightarrow> bool) \<Rightarrow> 'a list \<Rightarrow> nat option" where
  "position p [] = None"
| "position p (x # xs) = (if p x then Some 0 else map_option Suc (position p xs))"

definition read_string :: "u8 list \<Rightarrow> nat \<Rightarrow> u8 list res" where
  "read_string b off =
     (if length b < off then Inl (Panicked IndexOutOfBounds)
      else try_res (ok_or Other (position (\<lambda>c. c = 0) (drop off b))) (\<lambda>n.
        let s = take n (drop off b)
        in if utf8_valid s then Inr s else Inl (IoError InvalidData)))"

section \<open>Slices and positions\<close>

lemma slice_at_Inr_iff [res_simps]:
  "slice_at b off n = Inr s \<longleftrightarrow> off + n \<le> length b \<and> s = take n (drop off b)"
  by (auto simp: slice_at_def)

lemma splice_at_Inr_iff [res_simps]:
  "splice_at b off v = Inr b' \<longleftrightarrow>
     off + length v \<le> length b \<and> b' = take off b @ v @ drop (off + length v) b"
  by (auto simp: splice_at_def)

lemma slice_at_ok: "off + n \<le> length b \<Longrightarrow> slice_at b off n = Inr (take n (drop off b))"
  by (simp add: slice_at_def)

lemma splice_at_ok:
  "off + length v \<le> length b \<Longrightarrow>
   splice_at b off v = Inr (take off b @ v @ drop (off + length v) b)"
  by (simp add: splice_at_def)

lemma splice_at_length: "splice_at b off v = Inr b' \<Longrightarrow> length b' = length b"
  by (auto simp: res_simps)

lemma slice_splice_same: "splice_at b off v = Inr b' \<Longrightarrow> slice_at b' off (length v) = Inr v"
  by (auto simp: res_simps)

lemma slice_splice_disjoint:
  assumes "splice_at b off v = Inr b'" and "o' + n \<le> off \<or> off + length v \<le> o'"
  shows "slice_at b' o' n = slice_at b o' n"
proof -
  from assms(1) have len: "length b' = length b" by (rule splice_at_length)
  from assms(1) have b': "b' = take off b @ v @ drop (off + length v) b"
    and fits: "off + length v \<le> length b" by (auto simp: res_simps)
  have "take n (drop o' b') = take n (drop o' b)" if "o' + n \<le> length b"
    using assms(2) that fits
    by (intro nth_equalityI) (auto simp: b' nth_append)
  with len show ?thesis by (auto simp: slice_at_def)
qed

lemma position_Some_iff:
  "position p xs = Some n \<longleftrightarrow> n < length xs \<and> p (xs ! n) \<and> (\<forall>i<n. \<not> p (xs ! i))"
proof (induction xs arbitrary: n)
  case (Cons x xs)
  then show ?case by (cases n) (auto simp: less_Suc_eq_0_disj)
qed simp

lemma position_None_iff: "position p xs = None \<longleftrightarrow> (\<forall>x \<in> set xs. \<not> p x)"
  by (induction xs) auto

section \<open>Properties\<close>

text \<open>
  A value written with \<open>write_le32\<close> is read back by \<open>read_le32\<close> at the same offset, the
  slice keeps its length, and every other 32-bit read that does not overlap it is unchanged
  (and likewise for the 64-bit pair); the write panics exactly when the value does not fit.
\<close>

theorem write_read_le:
  "(case write_le32 b off v of
      Inr b' \<Rightarrow> off + 4 \<le> length b \<and> length b' = length b \<and> read_le32 b' off = Inr v \<and>
        (\<forall>o'. read_le32 b' o' = read_le32 b o' \<or> (o' < off + 4 \<and> off < o' + 4))
    | Inl e \<Rightarrow> length b < off + 4 \<and> e = Panicked IndexOutOfBounds)
   \<and> (case write_le64 b off w of
      Inr b' \<Rightarrow> off + 8 \<le> length b \<and> length b' = length b \<and> read_le64 b' off = Inr w
    | Inl e \<Rightarrow> length b < off + 8 \<and> e = Panicked IndexOutOfBounds)"
proof (intro conjI)
  show "case write_le32 b off v of
      Inr b' \<Rightarrow> off + 4 \<le> length b \<and> length b' = length b \<and> read_le32 b' off = Inr v \<and>
        (\<forall>o'. read_le32 b' o' = read_le32 b o' \<or> (o' < off + 4 \<and> off < o' + 4))
    | Inl e \<Rightarrow> length b < off + 4 \<and> e = Panicked IndexOutOfBounds"
  proof (cases "write_le32 b off v")
    case (Inl e)
    then show ?thesis by (auto simp: write_le32_def splice_at_def split: if_splits)
  next
    case (Inr b')
    then have sp: "splice_at b off (to_le32 v) = Inr b'" by (simp add: write_le32_def)
    have "read_le32 b' o' = read_le32 b o' \<or> (o' < off + 4 \<and> off < o' + 4)" for o'
      using slice_splice_disjoint [OF sp, of o' 4]
      by (cases "o' + 4 \<le> off \<or> off + 4 \<le> o'") (auto simp: read_le32_def)
    with Inr sp slice_splice_same [OF sp] splice_at_length [OF sp] show ?thesis
      by (auto simp: read_le32_def splice_at_def split: if_splits)
  qed
  show "case write_le64 b off w of
      Inr b' \<Rightarrow> off + 8 \<le> length b \<and> length b' = length b \<and> read_le64 b' off = Inr w
    | Inl e \<Rightarrow> length b < off + 8 \<and> e = Panicked IndexOutOfBounds"
  proof (cases "write_le64 b off w")
    case (Inl e)
    then show ?thesis by (auto simp: write_le64_def splice_at_def split: if_splits)
  next
    case (Inr b')
    then have sp: "splice_at b off (to_le64 w) = Inr b'" by (simp add: write_le64_def)
    from Inr sp slice_splice_same [OF sp] splice_at_length [OF sp] show ?thesis
      by (auto simp: read_le64_def splice_at_def split: if_splits)
  qed
qed

end
