(* ===== verification/Irq_Line.thy ===== *)
theory Irq_Line
  imports Hearth_Prelude
begin

text \<open>
  Interrupt lines: \<open>arch_update_irq\<close> of \<open>src/src/arch/x86_64/io.rs\<close> and of
  \<open>src/src/arch/aarch64/io.rs\<close>, and the contract the level-caching devices (the 16550 UART and
  the i8042) share. The \<open>KVM_IRQ_LINE\<close> ioctl is the kernel's: whether a call succeeds is an
  argument, a function of the calls made before it, and the log of the calls is the state.
\<close>

section \<open>The ioctl and its two callers\<close>

datatype irq_event = IrqSet u32 u32 | IrqRefused u32 u32

type_synonym irq_log = "irq_event list"

text \<open>\<open>env log level num\<close>: after the calls of \<open>log\<close>, setting line \<open>num\<close> to \<open>level\<close> succeeds.\<close>

type_synonym irq_env = "irq_log \<Rightarrow> u32 \<Rightarrow> u32 \<Rightarrow> bool"

definition arch_update_irq :: "irq_env \<Rightarrow> u32 \<Rightarrow> u32 \<Rightarrow> (irq_log, unit) oper" where
  "arch_update_irq env level num log =
     (if env log level num then (Inr (), log @ [IrqSet level num])
      else (Inl (IoError OsError), log @ [IrqRefused level num]))"

text \<open>
  On aarch64 \<open>num\<close> is an SPI number: the interrupt type is put in the upper bits (its value
  and shift are constants of the generated bindings) and SPIs start at GIC interrupt 32.
\<close>

definition arm_gic_spi_base :: u32 where
  "arm_gic_spi_base = 32"

definition arm_update_irq ::
    "u32 \<Rightarrow> nat \<Rightarrow> irq_env \<Rightarrow> u32 \<Rightarrow> u32 \<Rightarrow> (irq_log, unit) oper" where
  "arm_update_irq spi shift env level num log =
     (case add_ov arm_gic_spi_base num of
        Inl e \<Rightarrow> (Inl e, log)
      | Inr gic \<Rightarrow> arch_update_irq env level (push_bit shift spi OR gic) log)"

section \<open>The level of a line\<close>

definition irq_effect :: "u32 \<Rightarrow> bool \<Rightarrow> irq_event \<Rightarrow> bool" where
  "irq_effect num lv e =
     (case e of IrqSet level n \<Rightarrow> if n = num then level \<noteq> 0 else lv | IrqRefused _ _ \<Rightarrow> lv)"

text \<open>A line is low until it is set.\<close>

definition line_level :: "u32 \<Rightarrow> irq_log \<Rightarrow> bool" where
  "line_level num log = foldl (irq_effect num) False log"

lemma line_level_Nil [simp]: "line_level num [] = False"
  by (simp add: line_level_def)

lemma line_level_snoc [simp]: "line_level num (log @ [e]) = irq_effect num (line_level num log) e"
  by (simp add: line_level_def)

lemma irq_effect_simps [simp]:
  "irq_effect num lv (IrqSet level n) = (if n = num then level \<noteq> 0 else lv)"
  "irq_effect num lv (IrqRefused level n) = lv"
  by (simp_all add: irq_effect_def)

lemma arch_update_irq_ok:
  "env log level num \<Longrightarrow> arch_update_irq env level num log = (Inr (), log @ [IrqSet level num])"
  by (simp add: arch_update_irq_def)

lemma arch_update_irq_Inr_iff [res_simps]:
  "arch_update_irq env level num log = (Inr x, log') \<longleftrightarrow>
     env log level num \<and> log' = log @ [IrqSet level num]"
  by (auto simp: arch_update_irq_def)

lemma arch_update_irq_Inl_iff [res_simps]:
  "arch_update_irq env level num log = (Inl e, log') \<longleftrightarrow>
     \<not> env log level num \<and> e = IoError OsError \<and> log' = log @ [IrqRefused level num]"
  by (auto simp: arch_update_irq_def)

section \<open>Devices that cache the level of their line\<close>

text \<open>
  \<open>update_irq\<close> of the UART and of the i8042: compute the wanted level, and when it differs
  from the cached one, store it and tell KVM. The laws say just that; what follows is shared.
\<close>

locale irq_source =
  fixes num :: u32
    and wanted :: "'s \<Rightarrow> bool"
    and cached :: "'s \<Rightarrow> bool"
    and store :: "bool \<Rightarrow> 's \<Rightarrow> 's"
    and update :: "irq_env \<Rightarrow> ('s \<times> irq_log, unit) oper"
  assumes wanted_store: "wanted (store b s) = wanted s"
    and cached_store: "cached (store b s) = b"
    and update_same: "wanted s = cached s \<Longrightarrow> update env (s, log) = (Inr (), s, log)"
    and update_diff: "wanted s \<noteq> cached s \<Longrightarrow> update env (s, log) =
      (case arch_update_irq env (if wanted s then 1 else 0) num log of
         (r, log') \<Rightarrow> (r, store (wanted s) s, log'))"
begin

lemma update_cases:
  obtains (same) "wanted s = cached s" "update env (s, log) = (Inr (), s, log)"
  | (set) "wanted s \<noteq> cached s"
      "update env (s, log) =
        (Inr (), store (wanted s) s, log @ [IrqSet (if wanted s then 1 else 0) num])"
  | (refused) "wanted s \<noteq> cached s"
      "update env (s, log) =
        (Inl (IoError OsError), store (wanted s) s,
         log @ [IrqRefused (if wanted s then 1 else 0) num])"
  by (cases "wanted s = cached s"; cases "env log (if wanted s then 1 else 0) num")
    (auto simp: update_same update_diff arch_update_irq_def)

lemma update_ok:
  assumes "update env (s, log) = (Inr (), s', log')"
  shows "cached s' = wanted s'" and "wanted s' = wanted s"
  using assms by (cases rule: update_cases [of s env log]; auto simp: wanted_store cached_store)+

lemma update_tracks:
  assumes "update env (s, log) = (Inr (), s', log')" and "line_level num log = cached s"
  shows "line_level num log' = cached s'"
  using assms by (cases rule: update_cases [of s env log]) (auto simp: cached_store)

lemma update_idem:
  assumes "update env (s, log) = (Inr (), s', log')"
  shows "update env' (s', log') = (Inr (), s', log')"
  using update_ok [OF assms] by (simp add: update_same)

lemma update_other_lines:
  assumes "update env (s, log) = (r, s', log')" and "m \<noteq> num"
  shows "line_level m log' = line_level m log"
  using assms by (cases rule: update_cases [of s env log]) auto

lemma update_state:
  assumes "update env (s, log) = (r, s', log')"
  shows "s' = s \<or> s' = store (wanted s) s"
  using assms by (cases rule: update_cases [of s env log]) auto

lemma update_fails_only_refused:
  assumes "update env (s, log) = (Inl e, s', log')"
  shows "e = IoError OsError \<and> line_level num log' = line_level num log \<and> cached s' = wanted s"
  using assms by (cases rule: update_cases [of s env log]) (auto simp: cached_store)

end

end
