(* ===== verification/Virtio_Mmio.thy ===== *)
theory Virtio_Mmio
  imports Vring_Queue Util_Binary Irq_Line
begin

text \<open>
  The virtio MMIO transport, \<open>src/src/virtio/mmio.rs\<close>: the registers, the notification of a
  queue, and the interrupt. The device behind it is the trait \<open>VirtioDevice\<close>, here a record of
  operations over any device state; what the transport relies on is the locale
  \<open>virtio_device\<close>, which \<open>Virtio_Blk\<close> and \<open>Virtio_Net\<close> interpret. Register offsets and flag
  constants are of the generated bindings and are the argument \<open>A\<close>; \<open>documented_mmio\<close> gives the
  offsets the virtio specification fixes.
\<close>

section \<open>Constants\<close>

abbreviation (input) VIRTIO_VERSION :: u32 where "VIRTIO_VERSION \<equiv> 0x2"
abbreviation (input) VIRTIO_VENDOR_NONE :: u32 where "VIRTIO_VENDOR_NONE \<equiv> 0x0"
abbreviation (input) VIRTIO_MMIO_CONFIG_MAX :: u32 where "VIRTIO_MMIO_CONFIG_MAX \<equiv> 0xfff"

record mmio_abi =
  r_magic_value :: u32
  r_version :: u32
  r_device_id :: u32
  r_vendor_id :: u32
  r_device_features :: u32
  r_device_features_sel :: u32
  r_driver_features :: u32
  r_driver_features_sel :: u32
  r_queue_sel :: u32
  r_queue_num_max :: u32
  r_queue_num :: u32
  r_queue_ready :: u32
  r_queue_notify :: u32
  r_interrupt_status :: u32
  r_interrupt_ack :: u32
  r_status :: u32
  r_queue_desc_low :: u32
  r_queue_desc_high :: u32
  r_queue_avail_low :: u32
  r_queue_avail_high :: u32
  r_queue_used_low :: u32
  r_queue_used_high :: u32
  r_config_generation :: u32
  r_config :: u32
  virtio_f_version_1 :: nat
  virtio_mmio_int_vring :: u32

definition linux_mmio :: mmio_abi where
  "linux_mmio =
     \<lparr>r_magic_value = 0x000, r_version = 0x004, r_device_id = 0x008, r_vendor_id = 0x00c,
      r_device_features = 0x010, r_device_features_sel = 0x014, r_driver_features = 0x020,
      r_driver_features_sel = 0x024, r_queue_sel = 0x030, r_queue_num_max = 0x034,
      r_queue_num = 0x038, r_queue_ready = 0x044, r_queue_notify = 0x050,
      r_interrupt_status = 0x060, r_interrupt_ack = 0x064, r_status = 0x070,
      r_queue_desc_low = 0x080, r_queue_desc_high = 0x084, r_queue_avail_low = 0x090,
      r_queue_avail_high = 0x094, r_queue_used_low = 0x0a0, r_queue_used_high = 0x0a4,
      r_config_generation = 0x0fc, r_config = 0x100, virtio_f_version_1 = 32,
      virtio_mmio_int_vring = 1\<rparr>"

text \<open>The virtio specification (4.2.2) fixes every one of these.\<close>

definition documented_mmio :: "mmio_abi \<Rightarrow> bool" where
  "documented_mmio A \<longleftrightarrow> A = linux_mmio"

section \<open>Devices\<close>

text \<open>
  The trait. \<open>read_config\<close> changes the access's data bytes, \<open>process\<close> guest RAM through the
  chain's writable buffers; \<open>can_process\<close> has a default in the trait, which a device gives here.
\<close>

record 'd virtio_ops =
  op_device_id :: "'d \<Rightarrow> u32"
  op_features :: "'d \<Rightarrow> u32 \<Rightarrow> u32"
  op_queue_num_max :: "'d \<Rightarrow> u32 \<Rightarrow> u32"
  op_read_config :: "u32 \<Rightarrow> ('d \<times> u8 list, unit) oper"
  op_process :: "u32 \<Rightarrow> desc_chain \<Rightarrow> ('d \<times> ram, u32) oper"
  op_can_process :: "'d \<Rightarrow> u32 \<Rightarrow> bool"

definition can_process_default :: "'d \<Rightarrow> u32 \<Rightarrow> bool" where
  "can_process_default d q = True"

text \<open>The transport, without the file descriptor its interrupt calls go to.\<close>

record 'd virtio_mmio =
  vio_dev_feat_sel :: u32
  vio_drv_feat_sel :: u32
  vio_status :: u32
  vio_curr_queue :: u32
  vio_queue :: "vring_queue list"
  vio_irq :: u32
  vio_irq_status :: u32
  vio_device :: 'd

definition virtio_mmio_new :: "'d \<Rightarrow> u32 \<Rightarrow> 'd virtio_mmio" where
  "virtio_mmio_new d irq =
     \<lparr>vio_dev_feat_sel = 0, vio_drv_feat_sel = 0, vio_status = 0, vio_curr_queue = 0,
      vio_queue = replicate VRING_QUEUES_MAX vring_queue_new, vio_irq = irq, vio_irq_status = 0,
      vio_device = d\<rparr>"

definition selected_queue :: "'d virtio_mmio \<Rightarrow> vring_queue option" where
  "selected_queue v =
     (if unat (vio_curr_queue v) < length (vio_queue v)
      then Some (vio_queue v ! unat (vio_curr_queue v)) else None)"

text \<open>\<open>if let Some(queue) = self.selected_queue() { ... }\<close> with a change to the queue.\<close>

definition update_selected :: "(vring_queue \<Rightarrow> vring_queue) \<Rightarrow> 'd virtio_mmio \<Rightarrow> 'd virtio_mmio" where
  "update_selected f v =
     (case selected_queue v of
        None \<Rightarrow> v
      | Some q \<Rightarrow> v\<lparr>vio_queue := (vio_queue v)[unat (vio_curr_queue v) := f q]\<rparr>)"

section \<open>Notifications\<close>

type_synonym 'd vio_world = "'d virtio_mmio \<times> ram \<times> irq_log"

text \<open>One round of the \<open>while\<close> loop; \<open>True\<close> when it goes on.\<close>

definition notify_step ::
    "mmio_abi \<Rightarrow> vring_abi \<Rightarrow> irq_env \<Rightarrow> guest_memory \<Rightarrow> 'd virtio_ops \<Rightarrow> u32 \<Rightarrow> ('d vio_world, bool) oper" where
  "notify_step A V env mem ops qi = (\<lambda>(v, m, log).
     if \<not> op_can_process ops (vio_device v) qi then (Inr False, v, m, log)
     else case pop_avail V mem m (vio_queue v ! unat qi) of
       Inl e \<Rightarrow> (Inl e, v, m, log)
     | Inr (None, q) \<Rightarrow> (Inr False, v, m, log)
     | Inr (Some ch, q) \<Rightarrow>
         (let v = v\<lparr>vio_queue := (vio_queue v)[unat qi := q]\<rparr>
          in case op_process ops qi ch (vio_device v, m) of
               (Inl e, d, m) \<Rightarrow> (Inl e, v\<lparr>vio_device := d\<rparr>, m, log)
             | (Inr len, d, m) \<Rightarrow>
                 (let v = v\<lparr>vio_device := d\<rparr>
                  in case push_used V mem q (ch_head ch) len m of
                       Inl e \<Rightarrow> (Inl e, v, m, log)
                     | Inr m \<Rightarrow>
                         (let v = v\<lparr>vio_irq_status := vio_irq_status v OR virtio_mmio_int_vring A\<rparr>
                          in case arch_update_irq env 1 (vio_irq v) log of
                               (Inl e, log) \<Rightarrow> (Inl e, v, m, log)
                             | (Inr _, log) \<Rightarrow> (Inr True, v, m, log)))))"

text \<open>The loop; \<open>None\<close> when it never ends.\<close>

partial_function (option) notify_loop ::
    "mmio_abi \<Rightarrow> vring_abi \<Rightarrow> irq_env \<Rightarrow> guest_memory \<Rightarrow> 'd virtio_ops \<Rightarrow> u32 \<Rightarrow>
      'd vio_world \<Rightarrow> (unit res \<times> 'd vio_world) option" where
  "notify_loop A V env mem ops qi w =
     (case notify_step A V env mem ops qi w of
        (Inl e, w') \<Rightarrow> Some (Inl e, w')
      | (Inr b, w') \<Rightarrow> if b then notify_loop A V env mem ops qi w' else Some (Inr (), w'))"

definition queue_notify ::
    "mmio_abi \<Rightarrow> vring_abi \<Rightarrow> irq_env \<Rightarrow> guest_memory \<Rightarrow> 'd virtio_ops \<Rightarrow> u32 \<Rightarrow>
      'd vio_world \<Rightarrow> (unit res \<times> 'd vio_world) option" where
  "queue_notify A V env mem ops qi w =
     (let qs = vio_queue (fst w)
      in if length qs \<le> unat qi then Some (Inr (), w)
         else if vq_ready (qs ! unat qi) = 0 \<or> vq_num (qs ! unat qi) = 0 then Some (Inr (), w)
         else notify_loop A V env mem ops qi w)"

text \<open>\<open>poll\<close>: every queue in turn, until one fails.\<close>

fun notify_all ::
    "mmio_abi \<Rightarrow> vring_abi \<Rightarrow> irq_env \<Rightarrow> guest_memory \<Rightarrow> 'd virtio_ops \<Rightarrow> u32 list \<Rightarrow>
      'd vio_world \<Rightarrow> (unit res \<times> 'd vio_world) option" where
  "notify_all A V env mem ops [] w = Some (Inr (), w)"
| "notify_all A V env mem ops (qi # qs) w =
     (case queue_notify A V env mem ops qi w of
        None \<Rightarrow> None
      | Some (Inl e, w') \<Rightarrow> Some (Inl e, w')
      | Some (Inr _, w') \<Rightarrow> notify_all A V env mem ops qs w')"

definition virtio_poll ::
    "mmio_abi \<Rightarrow> vring_abi \<Rightarrow> irq_env \<Rightarrow> guest_memory \<Rightarrow> 'd virtio_ops \<Rightarrow>
      'd vio_world \<Rightarrow> (unit res \<times> 'd vio_world) option" where
  "virtio_poll A V env mem ops w =
     notify_all A V env mem ops (map word_of_nat [0..<VRING_QUEUES_MAX]) w"

section \<open>Register accesses\<close>

text \<open>The \<open>mmio\<close> member of \<open>kvm_run\<close>; \<open>data\<close> has eight bytes.\<close>

record mmio_exit =
  mm_phys_addr :: u64
  mm_data :: "u8 list"
  mm_len :: u32
  mm_is_write :: u8

text \<open>The arms of the \<open>match\<close> for reads, each giving the new data bytes, in the source's order.\<close>

definition virtio_read_reg ::
    "mmio_abi \<Rightarrow> 'd virtio_ops \<Rightarrow> u32 \<Rightarrow> ('d virtio_mmio \<times> u8 list, unit) oper" where
  "virtio_read_reg A ops addr = (\<lambda>(v, data).
     let answer = (\<lambda>x. case write_le32 data 0 x of
           Inl e \<Rightarrow> (Inl e, v, data) | Inr data' \<Rightarrow> (Inr (), v, data'))
     in if addr = r_magic_value A then
          (case read_le32 [0x76, 0x69, 0x72, 0x74] 0 of Inl e \<Rightarrow> (Inl e, v, data) | Inr x \<Rightarrow> answer x)
        else if addr = r_version A then answer VIRTIO_VERSION
        else if addr = r_device_id A then answer (op_device_id ops (vio_device v))
        else if addr = r_vendor_id A then answer VIRTIO_VENDOR_NONE
        else if addr = r_device_features A then
          answer ((if vio_dev_feat_sel v = 1 then push_bit (virtio_f_version_1 A - 32) 1 else 0x0)
                  OR op_features ops (vio_device v) (vio_dev_feat_sel v))
        else if addr = r_driver_features A then answer 0
        else if addr = r_queue_num_max A then
          answer (if unat (vio_curr_queue v) < VRING_QUEUES_MAX
                  then op_queue_num_max ops (vio_device v) (vio_curr_queue v) else 0)
        else if addr = r_interrupt_status A then answer (vio_irq_status v)
        else if addr = r_queue_ready A then
          answer (case selected_queue v of None \<Rightarrow> 0 | Some q \<Rightarrow> vq_ready q)
        else if addr = r_status A then answer (vio_status v)
        else if addr = r_config_generation A then answer 0x0
        else if r_config A \<le> addr \<and> addr \<le> VIRTIO_MMIO_CONFIG_MAX then
          (case op_read_config ops (addr - r_config A) (vio_device v, data) of
             (r, d, data') \<Rightarrow> (r, v\<lparr>vio_device := d\<rparr>, data'))
        else (Inr (), v, data))"

text \<open>
  The arms for writes but the notification, applied to the value \<open>read_le32\<close> gives. The arm for
  \<open>INTERRUPT_ACK\<close> clears bits and lowers the line; the message for a failed configuration is
  not modelled.
\<close>

definition virtio_write_reg ::
    "mmio_abi \<Rightarrow> irq_env \<Rightarrow> u32 \<Rightarrow> u32 \<Rightarrow> ('d virtio_mmio \<times> irq_log, unit) oper" where
  "virtio_write_reg A env addr val = (\<lambda>(v, log).
     let ok = (\<lambda>v. (Inr (), v, log))
     in if addr = r_device_features A then ok v
        else if addr = r_device_features_sel A then ok (v\<lparr>vio_dev_feat_sel := val\<rparr>)
        else if addr = r_driver_features A then ok v
        else if addr = r_driver_features_sel A then ok (v\<lparr>vio_drv_feat_sel := val\<rparr>)
        else if addr = r_queue_sel A then ok (v\<lparr>vio_curr_queue := val\<rparr>)
        else if addr = r_queue_num A then ok (update_selected (\<lambda>q. q\<lparr>vq_num := val\<rparr>) v)
        else if addr = r_queue_ready A then ok (update_selected (\<lambda>q. q\<lparr>vq_ready := val\<rparr>) v)
        else if addr = r_interrupt_ack A then
          (let v = v\<lparr>vio_irq_status := vio_irq_status v AND NOT val\<rparr>
           in case arch_update_irq env 0 (vio_irq v) log of (r, log') \<Rightarrow> (r, v, log'))
        else if addr = r_status A then ok (v\<lparr>vio_status := val\<rparr>)
        else if addr = r_queue_desc_low A then
          ok (update_selected (\<lambda>q. q\<lparr>vq_desc := ucast val\<rparr>) v)
        else if addr = r_queue_desc_high A then
          ok (update_selected (\<lambda>q. q\<lparr>vq_desc := vq_desc q OR push_bit 32 (ucast val)\<rparr>) v)
        else if addr = r_queue_avail_low A then
          ok (update_selected (\<lambda>q. q\<lparr>vq_avail := ucast val\<rparr>) v)
        else if addr = r_queue_avail_high A then
          ok (update_selected (\<lambda>q. q\<lparr>vq_avail := vq_avail q OR push_bit 32 (ucast val)\<rparr>) v)
        else if addr = r_queue_used_low A then
          ok (update_selected (\<lambda>q. q\<lparr>vq_used := ucast val\<rparr>) v)
        else if addr = r_queue_used_high A then
          ok (update_selected (\<lambda>q. q\<lparr>vq_used := vq_used q OR push_bit 32 (ucast val)\<rparr>) v)
        else ok v)"

text \<open>
  \<open>handle\<close>. The low twelve bits of the address select the register. The data array always has
  eight bytes, so reading the value first, also in the arm that ignores it, changes nothing.
\<close>

type_synonym 'd vio_access = "mmio_exit \<times> 'd vio_world"

definition virtio_handle ::
    "mmio_abi \<Rightarrow> vring_abi \<Rightarrow> irq_env \<Rightarrow> guest_memory \<Rightarrow> 'd virtio_ops \<Rightarrow>
      'd vio_access \<Rightarrow> (unit res \<times> 'd vio_access) option" where
  "virtio_handle A V env mem ops = (\<lambda>(mmio, v, m, log).
     let addr = ucast (mm_phys_addr mmio AND 0xfff) :: u32
     in if mm_is_write mmio = 0 then
          (case virtio_read_reg A ops addr (v, mm_data mmio) of
             (r, v', data) \<Rightarrow> Some (r, mmio\<lparr>mm_data := data\<rparr>, v', m, log))
        else (case read_le32 (mm_data mmio) 0 of
            Inl e \<Rightarrow> Some (Inl e, mmio, v, m, log)
          | Inr val \<Rightarrow>
              if addr = r_queue_notify A then
                map_option (\<lambda>(r, w). (r, mmio, w)) (queue_notify A V env mem ops val (v, m, log))
              else (case virtio_write_reg A env addr val (v, log) of
                  (r, v', log') \<Rightarrow> Some (r, mmio, v', m, log'))))"

section \<open>What the transport relies on\<close>

text \<open>The bytes of a chain's writable buffers.\<close>

definition write_area :: "desc_chain \<Rightarrow> (nat \<times> nat) set" where
  "write_area ch = (\<Union>s \<in> set (ch_write ch). ptr_bytes (fst s) (snd s))"

locale virtio_device =
  fixes ops :: "'d virtio_ops"
    and invar :: "'d \<Rightarrow> bool"
  assumes process_writes: "op_process ops qi ch (d, m) = (r, d', m') \<Longrightarrow>
      same_outside (write_area ch) m m'"
    and process_len: "invar d \<Longrightarrow> op_process ops qi ch (d, m) = (Inr n, d', m') \<Longrightarrow>
      unat n \<le> sum_list (map snd (ch_write ch))"
    and process_invar: "invar d \<Longrightarrow> op_process ops qi ch (d, m) = (r, d', m') \<Longrightarrow> invar d'"
    and process_no_ub: "invar d \<Longrightarrow> op_process ops qi ch (d, m) \<noteq> (Inl UndefinedBehaviour, d', m')"
    and num_max_absent: "2 \<le> unat qi \<Longrightarrow> op_queue_num_max ops d qi = 0"
    and config_len: "op_read_config ops off (d, data) = (rc, d', data') \<Longrightarrow>
      length data' = length data"
    and config_invar: "invar d \<Longrightarrow> op_read_config ops off (d, data) = (rc, d', data') \<Longrightarrow> invar d'"

section \<open>A driver that keeps its areas apart\<close>

text \<open>The descriptor table: the bytes of its \<open>num\<close> entries.\<close>

definition desc_table :: "guest_memory \<Rightarrow> vring_queue \<Rightarrow> (nat \<times> nat) set" where
  "desc_table mem q = {b. \<exists>idx p. unat (idx :: u16) < unat (vq_num q) \<and>
     gpa_to_host mem (vq_desc q + ucast idx * 16) 16 = Some p \<and> b \<in> ptr_bytes p 16}"

text \<open>
  What the specification asks of a driver: rings and table apart from each other, writable
  buffers apart from table and rings, indices within the queue, at most \<open>num\<close> heads pending.
\<close>

definition driver_ok ::
    "vring_abi \<Rightarrow> guest_memory \<Rightarrow> ram \<Rightarrow> vring_queue \<Rightarrow> host_ptr \<Rightarrow> host_ptr \<Rightarrow> bool" where
  "driver_ok V mem m q p u \<longleftrightarrow>
     queue_aligned q \<and> vq_num q \<noteq> 0 \<and> unat (vq_num q) dvd 32768 \<and>
     gpa_to_host mem (vq_avail q) (4 + 2 * unat (vq_num q)) = Some p \<and>
     gpa_to_host mem (vq_used q) (4 + 8 * unat (vq_num q)) = Some u \<and>
     ptr_bytes u (4 + 8 * unat (vq_num q)) \<inter> ptr_bytes p (4 + 2 * unat (vq_num q)) = {} \<and>
     ptr_bytes u (4 + 8 * unat (vq_num q)) \<inter> desc_table mem q = {} \<and>
     (\<forall>idx d. unat idx < unat (vq_num q) \<longrightarrow> get_desc_head V mem m q idx = Inr d \<longrightarrow>
        (has_next V d \<longrightarrow> unat (vd_next d) < unat (vq_num q)) \<and>
        (desc_type_of V d = WRITE \<longrightarrow>
           ptr_bytes (fst (desc_buffer mem d)) (snd (desc_buffer mem d)) \<inter>
             (desc_table mem q \<union> ptr_bytes p (4 + 2 * unat (vq_num q)) \<union>
              ptr_bytes u (4 + 8 * unat (vq_num q))) = {})) \<and>
     (\<forall>h \<in> set (avail_pending V m p q). unat h < unat (vq_num q)) \<and>
     length (avail_pending V m p q) \<le> unat (vq_num q)"

lemma get_desc_head_same:
  assumes "documented_vring V" and "same_outside A m m'" and "A \<inter> desc_table mem q = {}"
    and "unat idx < unat (vq_num q)"
  shows "get_desc_head V mem m' q idx = get_desc_head V mem m q idx"
proof -
  have sz: "sz_desc V = 16" using assms(1) by (simp add: documented_vring_def)
  have u: "unat (ucast idx :: u64) = unat idx"
    using unat_less_two_power [of idx] by (simp add: unsigned_ucast_eq take_bit_nat_eq_self)
  have "ram_read m' p 16 = ram_read m p 16"
    if "gpa_to_host mem (vq_desc q + ucast idx * 16) 16 = Some p" for p
  proof (rule ram_read_same_outside [OF assms(2)])
    have "ptr_bytes p 16 \<subseteq> desc_table mem q" using that assms(4) unfolding desc_table_def by blast
    then show "A \<inter> ptr_bytes p 16 = {}" using assms(3) by blast
  qed
  then show ?thesis
    by (cases "checked_mul (ucast idx) (16 :: u64)"; cases "checked_add (vq_desc q) (ucast idx * 16)";
        cases "gpa_to_host mem (vq_desc q + ucast idx * 16) 16")
      (auto simp: get_desc_head_def sz read_guest_ptr_def checked_mul_def checked_add_def split: if_splits)
qed

lemma avail_same:
  assumes "same_outside A m m'" and "A \<inter> ptr_bytes p (4 + 2 * n) = {}"
  shows "avail_idx V m' p = avail_idx V m p" and "s < n \<Longrightarrow> avail_head m' p s = avail_head m p s"
proof -
  have "A \<inter> ptr_bytes p 4 = {}" using assms(2) by (auto simp: ptr_bytes_def)
  then show "avail_idx V m' p = avail_idx V m p"
    using ram_read_same_outside [OF assms(1)] by (simp add: avail_idx_def)
  assume "s < n"
  then have "A \<inter> ptr_bytes (ptr_add p (4 + 2 * s)) 2 = {}"
    using assms(2) ptr_bytes_add_subset [of "4 + 2 * s" 2 "4 + 2 * n" p] by auto
  then show "avail_head m' p s = avail_head m p s"
    using ram_read_same_outside [OF assms(1)] by (simp add: avail_head_def)
qed

lemma avail_pending_same:
  assumes "same_outside A m m'" and "A \<inter> ptr_bytes p (4 + 2 * unat (vq_num q)) = {}" and "vq_num q \<noteq> 0"
  shows "avail_pending V m' p q = avail_pending V m p q"
  using avail_same [OF assms(1,2)] assms(3) by (simp add: avail_pending_def unat_gt_0)

lemma chain_at_descs:
  assumes "driver_ok V mem m q p u" and "chain_at V mem m q h ds" and "unat h < unat (vq_num q)"
  shows "\<forall>d \<in> set ds. \<exists>idx. unat idx < unat (vq_num q) \<and> get_desc_head V mem m q idx = Inr d"
  using assms(2,3)
proof (induction ds arbitrary: h)
  case (Cons d ds)
  have "unat (vd_next d) < unat (vq_num q)" if "has_next V d"
    using that assms(1) Cons.prems unfolding driver_ok_def by auto
  with Cons show ?case by (cases ds) auto
qed simp

lemma chain_write_area:
  assumes "driver_ok V mem m q p u" and "chain_at V mem m q h ds" and "unat h < unat (vq_num q)"
    and "ch_write ch = chain_writes V mem ds"
  shows "write_area ch \<inter> (desc_table mem q \<union> ptr_bytes p (4 + 2 * unat (vq_num q)) \<union>
    ptr_bytes u (4 + 8 * unat (vq_num q))) = {}"
proof -
  let ?B = "desc_table mem q \<union> ptr_bytes p (4 + 2 * unat (vq_num q)) \<union>
    ptr_bytes u (4 + 8 * unat (vq_num q))"
  have "ptr_bytes (fst (desc_buffer mem d)) (snd (desc_buffer mem d)) \<inter> ?B = {}"
    if d: "d \<in> set ds" "desc_type_of V d = WRITE" for d
  proof -
    obtain idx where "unat idx < unat (vq_num q)" "get_desc_head V mem m q idx = Inr d"
      using chain_at_descs [OF assms(1-3)] d(1) by auto
    with assms(1) d(2) show ?thesis unfolding driver_ok_def by blast
  qed
  then show ?thesis by (auto simp: write_area_def assms(4) chain_writes_def)
qed

text \<open>A step that writes only to buffers and to the used ring, and takes one head, keeps it all.\<close>

lemma driver_ok_step:
  assumes ok: "driver_ok V mem m q p u" and V: "documented_vring V"
    and same: "same_outside A m m'"
    and A: "A \<inter> (desc_table mem q \<union> ptr_bytes p (4 + 2 * unat (vq_num q))) = {}"
    and pend: "avail_pending V m p q = h # hs"
  defines "q' \<equiv> q\<lparr>vq_last_avail := vq_last_avail q + 1\<rparr>"
  shows "driver_ok V mem m' q' p u" and "avail_pending V m' p q' = hs"
proof -
  have q': "vq_num q' = vq_num q" "vq_desc q' = vq_desc q" "vq_avail q' = vq_avail q"
      "vq_used q' = vq_used q" "queue_aligned q' = queue_aligned q" "desc_table mem q' = desc_table mem q"
    by (simp_all add: q'_def queue_aligned_def desc_table_def)
  have gd: "get_desc_head V mem m'' q' idx = get_desc_head V mem m'' q idx" for m'' idx
    by (simp add: get_desc_head_def q'_def)
  have "vq_last_avail q \<noteq> avail_idx V m p" using pend avail_pending_Nil_iff [of V m p q] by auto
  from avail_pending_Cons [OF this] pend have hs: "avail_pending V m p q' = hs" by (simp add: q'_def)
  show pend': "avail_pending V m' p q' = hs"
    using avail_pending_same [OF same, of p q' V] A ok hs by (auto simp: q' driver_ok_def)
  have "get_desc_head V mem m' q idx = get_desc_head V mem m q idx" if "unat idx < unat (vq_num q)" for idx
    using get_desc_head_same [OF V same _ that] A by auto
  then show "driver_ok V mem m' q' p u"
    using ok pend unfolding driver_ok_def q' gd pend' by auto
qed

lemma word_of_nat_0_add: "(a :: u16) + word_of_nat 0 = a" by simp

text \<open>The used ring holds the heads \<open>hs\<close>, in order, from index \<open>k\<close> on.\<close>

definition used_holds :: "ram \<Rightarrow> host_ptr \<Rightarrow> vring_queue \<Rightarrow> u16 \<Rightarrow> u16 list \<Rightarrow> bool" where
  "used_holds m u q k hs \<longleftrightarrow> (\<forall>i < length hs.
     take 4 (used_elem m u (unat (k + word_of_nat i) mod unat (vq_num q))) = to_le32 (ucast (hs ! i)))"

definition used_window :: "vring_queue \<Rightarrow> u16 \<Rightarrow> nat \<Rightarrow> nat set" where
  "used_window q k n = (\<lambda>i. unat (k + word_of_nat i) mod unat (vq_num q)) ` {..<n}"

lemma used_window_Suc:
  "used_window q k (Suc n) = insert (unat k mod unat (vq_num q)) (used_window q (k + 1) n)"
  by (auto simp: used_window_def lessThan_Suc_eq_insert_0 image_image add.assoc)

lemma used_window_fresh:
  assumes "unat (vq_num q) dvd 32768" and "n < unat (vq_num q)"
  shows "unat k mod unat (vq_num q) \<notin> used_window q (k + 1) n"
proof -
  have "unat (vq_num q) dvd 65536" by (rule dvd_trans [OF assms(1)]) simp
  from ring_window_distinct [OF this, of 0 _ k] assms(2) show ?thesis
    by (force simp: used_window_def add.assoc [symmetric] dest: ring_window_distinct [OF \<open>unat (vq_num q) dvd 65536\<close>, of 0 "Suc _" k])
qed

section \<open>Notifications complete what is pending\<close>

text \<open>What the completed loop leaves, \<open>n\<close> heads having been taken.\<close>

definition notify_done ::
    "mmio_abi \<Rightarrow> vring_abi \<Rightarrow> 'd virtio_ops \<Rightarrow> u32 \<Rightarrow> host_ptr \<Rightarrow> host_ptr \<Rightarrow> 'd vio_world \<Rightarrow> nat \<Rightarrow>
      'd vio_world \<Rightarrow> bool" where
  "notify_done A V ops qi p u = (\<lambda>(v, m, log) n (v', m', log').
     let q = vio_queue v ! unat qi; q' = vio_queue v' ! unat qi; hs = avail_pending V m p q
     in n \<le> length hs \<and> avail_pending V m' p q' = drop n hs \<and>
        (n < length hs \<longrightarrow> \<not> op_can_process ops (vio_device v') qi) \<and>
        used_idx V m' u = used_idx V m u + word_of_nat n \<and>
        used_holds m' u q (used_idx V m u) (take n hs) \<and>
        (\<forall>s < unat (vq_num q). s \<notin> used_window q (used_idx V m u) n \<longrightarrow>
           used_elem m' u s = used_elem m u s) \<and>
        log' = log @ replicate n (IrqSet 1 (vio_irq v)) \<and>
        vio_irq_status v' =
          (if n = 0 then vio_irq_status v else vio_irq_status v OR virtio_mmio_int_vring A))"

lemma used_holds_Cons:
  assumes "used_holds m u q (k + 1) hs"
    and "take 4 (used_elem m u (unat k mod unat (vq_num q))) = to_le32 (ucast h)"
  shows "used_holds m u q k (h # hs)"
  unfolding used_holds_def
proof (intro allI impI)
  fix i assume "i < length (h # hs)"
  then show "take 4 (used_elem m u (unat (k + word_of_nat i) mod unat (vq_num q))) =
      to_le32 (ucast ((h # hs) ! i))"
    using assms by (cases i) (auto simp: used_holds_def add.assoc)
qed

lemma notify_done_Suc:
  assumes dn: "notify_done A V ops qi p u (v1, m1, log1) n w2"
    and q1: "vio_queue v1 ! unat qi = q\<lparr>vq_last_avail := vq_last_avail q + 1\<rparr>"
    and q: "q = vio_queue v ! unat qi" and n: "unat (vq_num q) dvd 32768" "length hs < unat (vq_num q)"
    and pend: "avail_pending V m p q = h # hs"
      "avail_pending V m1 p (q\<lparr>vq_last_avail := vq_last_avail q + 1\<rparr>) = hs"
    and st: "vio_irq v1 = vio_irq v" "vio_irq_status v1 = vio_irq_status v OR virtio_mmio_int_vring A"
      "log1 = log @ [IrqSet 1 (vio_irq v)]"
    and us: "used_idx V m1 u = used_idx V m u + 1"
      "take 4 (used_elem m1 u (unat (used_idx V m u) mod unat (vq_num q))) = to_le32 (ucast h)"
      "\<forall>s < unat (vq_num q). s \<noteq> unat (used_idx V m u) mod unat (vq_num q) \<longrightarrow>
         used_elem m1 u s = used_elem m u s"
  shows "notify_done A V ops qi p u (v, m, log) (Suc n) w2"
proof -
  obtain v2 m2 log2 where w2: "w2 = (v2, m2, log2)" by (cases w2)
  let ?k = "used_idx V m u" and ?s = "unat (used_idx V m u) mod unat (vq_num q)"
  have qn: "used_holds m' u (q\<lparr>vq_last_avail := a\<rparr>) k xs = used_holds m' u q k xs"
    "used_window (q\<lparr>vq_last_avail := a\<rparr>) k j = used_window q k j" for a k xs j m'
    by (simp_all add: used_holds_def used_window_def)
  from dn have d: "n \<le> length hs" "avail_pending V m2 p (vio_queue v2 ! unat qi) = drop n hs"
    "n < length hs \<longrightarrow> \<not> op_can_process ops (vio_device v2) qi"
    "used_idx V m2 u = ?k + 1 + word_of_nat n" "used_holds m2 u q (?k + 1) (take n hs)"
    "\<forall>s < unat (vq_num q). s \<notin> used_window q (?k + 1) n \<longrightarrow> used_elem m2 u s = used_elem m1 u s"
    "log2 = log @ IrqSet 1 (vio_irq v) # replicate n (IrqSet 1 (vio_irq v))"
    "vio_irq_status v2 = vio_irq_status v OR virtio_mmio_int_vring A"
    by (auto simp: notify_done_def w2 Let_def q1 pend st us qn split: if_splits)
  have s: "?s < unat (vq_num q)" using n(2) by simp
  have "?s \<notin> used_window q (?k + 1) n" using used_window_fresh [OF n(1)] d(1) n(2) by simp
  then have "take 4 (used_elem m2 u ?s) = to_le32 (ucast h)" using d(6) s us(2) by simp
  then have h: "used_holds m2 u q ?k (h # take n hs)" by (rule used_holds_Cons [OF d(5)])
  have o: "used_elem m2 u s = used_elem m u s"
    if "s < unat (vq_num q)" "s \<notin> used_window q ?k (Suc n)" for s
    using that d(6) us(3) by (simp add: used_window_Suc)
  show ?thesis
    using d h o pend by (simp add: notify_done_def w2 Let_def q [symmetric] add.assoc)
qed

context virtio_device
begin

lemma notify_step_stop:
  assumes "notify_step A V env mem ops qi (v, m, log) = (Inr False, w')"
    and "documented_vring V" "regions_aligned mem" "driver_ok V mem m (vio_queue v ! unat qi) p u"
  shows "w' = (v, m, log) \<and> (avail_pending V m p (vio_queue v ! unat qi) = [] \<or>
    \<not> op_can_process ops (vio_device v) qi)"
proof -
  let ?q = "vio_queue v ! unat qi"
  have q: "queue_aligned ?q" "vq_num ?q \<noteq> 0"
    "gpa_to_host mem (vq_avail ?q) (4 + 2 * unat (vq_num ?q)) = Some p"
    using assms(4) by (simp_all add: driver_ok_def)
  from pop_avail_fifo [OF assms(2,3) q, of m] assms(1) show ?thesis
    by (auto simp: notify_step_def Let_def split: if_splits sum.splits option.splits prod.splits)
qed

lemma notify_step_go:
  assumes step: "notify_step A V env mem ops qi (v, m, log) = (Inr True, v', m', log')"
    and V: "documented_vring V" and mem: "regions_aligned mem"
    and ok: "driver_ok V mem m (vio_queue v ! unat qi) p u"
    and len: "unat qi < length (vio_queue v)" and inv: "invar (vio_device v)"
  defines "q \<equiv> vio_queue v ! unat qi"
  shows "\<exists>h hs. avail_pending V m p q = h # hs \<and>
    vio_queue v' = (vio_queue v)[unat qi := q\<lparr>vq_last_avail := vq_last_avail q + 1\<rparr>] \<and>
    driver_ok V mem m' (q\<lparr>vq_last_avail := vq_last_avail q + 1\<rparr>) p u \<and>
    avail_pending V m' p (q\<lparr>vq_last_avail := vq_last_avail q + 1\<rparr>) = hs \<and>
    invar (vio_device v') \<and> vio_irq v' = vio_irq v \<and>
    vio_irq_status v' = vio_irq_status v OR virtio_mmio_int_vring A \<and>
    log' = log @ [IrqSet 1 (vio_irq v)] \<and>
    used_idx V m' u = used_idx V m u + 1 \<and>
    take 4 (used_elem m' u (unat (used_idx V m u) mod unat (vq_num q))) = to_le32 (ucast h) \<and>
    (\<forall>s < unat (vq_num q). s \<noteq> unat (used_idx V m u) mod unat (vq_num q) \<longrightarrow>
       used_elem m' u s = used_elem m u s)"
proof -
  have q: "queue_aligned q" "vq_num q \<noteq> 0"
    "gpa_to_host mem (vq_avail q) (4 + 2 * unat (vq_num q)) = Some p"
    "gpa_to_host mem (vq_used q) (4 + 8 * unat (vq_num q)) = Some u"
    using ok by (simp_all add: driver_ok_def q_def)
  let ?A = "ptr_bytes p (4 + 2 * unat (vq_num q))" and ?U = "ptr_bytes u (4 + 8 * unat (vq_num q))"
  from step obtain ch q' len' d1 m1 where
    pop: "pop_avail V mem m q = Inr (Some ch, q')" and
    pr: "op_process ops qi ch (vio_device v, m) = (Inr len', d1, m1)" and
    pu: "push_used V mem q' (ch_head ch) len' m1 = Inr m'" and
    irq: "arch_update_irq env 1 (vio_irq v) log = (Inr (), log')" and
    v': "v' = v\<lparr>vio_queue := (vio_queue v)[unat qi := q'], vio_device := d1,
           vio_irq_status := vio_irq_status v OR virtio_mmio_int_vring A\<rparr>"
    by (auto simp: notify_step_def Let_def q_def split: if_splits sum.splits option.splits prod.splits)
  from pop_avail_fifo [OF V mem q(1-3), of m] pop obtain ds where
    pend: "avail_pending V m p q = ch_head ch # avail_pending V m p q'" and
    q': "q' = q\<lparr>vq_last_avail := vq_last_avail q + 1\<rparr>" and
    ds: "chain_at V mem m q (ch_head ch) ds" "ch_write ch = chain_writes V mem ds"
    by auto
  have "unat (ch_head ch) < unat (vq_num q)" using ok pend unfolding driver_ok_def q_def by auto
  from chain_write_area [OF ok [folded q_def] ds(1) this ds(2)]
  have wa: "write_area ch \<inter> (desc_table mem q \<union> ?A \<union> ?U) = {}" by simp
  have same1: "same_outside (write_area ch) m m1" by (rule process_writes [OF pr])
  have qa: "queue_aligned q'" and u': "gpa_to_host mem (vq_used q') (4 + 8 * unat (vq_num q')) = Some u"
    and n': "vq_num q' \<noteq> 0" using q by (simp_all add: q' queue_aligned_def)
  have "same_outside ?U m1 m'"
    using vring_memory_safe_used [OF V mem qa pu] u' q' by auto
  then have same: "same_outside (write_area ch \<union> ?U) m m'"
    using same_outside_trans [OF same_outside_mono [OF same1] same_outside_mono] by blast
  have dis: "(write_area ch \<union> ?U) \<inter> (desc_table mem q \<union> ?A) = {}"
    using wa ok unfolding driver_ok_def q_def [symmetric] by blast
  note st = driver_ok_step [OF ok [folded q_def] V same dis pend]
  have ue: "used_elem m1 u s = used_elem m u s" if "s < unat (vq_num q)" for s
    unfolding used_elem_def
    using that wa ptr_bytes_add_subset [of "4 + 8 * s" 8 "4 + 8 * unat (vq_num q)" u]
    by (intro ram_read_same_outside [OF same1]) auto
  have "write_area ch \<inter> ptr_bytes u 4 = {}"
    using wa ptr_bytes_add_subset [of 0 4 "4 + 8 * unat (vq_num q)" u] by (auto simp: ptr_add_def)
  then have ui: "used_idx V m1 u = used_idx V m u"
    using ram_read_same_outside [OF same1] by (simp add: used_idx_def)
  from push_used_elems [OF V mem qa u' n' pu] have
    pub: "used_idx V m' u = used_idx V m u + 1"
    "\<And>s. used_elem m' u s = (if s = unat (used_idx V m u) mod unat (vq_num q)
       then to_le32 (ucast (ch_head ch)) @ to_le32 len' else used_elem m1 u s)"
    by (auto simp: q' ui)
  have "take 4 (to_le32 (ucast (ch_head ch)) @ to_le32 len') = to_le32 (ucast (ch_head ch))" by simp
  with pend st pub ue irq process_invar [OF inv pr] show ?thesis
    by (auto simp: v' q' arch_update_irq_Inr_iff)
qed

lemma notify_step_no_ub:
  assumes "documented_vring V" "regions_aligned mem" "queue_aligned (vio_queue v ! unat qi)"
    and "invar (vio_device v)"
  shows "fst (notify_step A V env mem ops qi (v, m, log)) \<noteq> Inl UndefinedBehaviour"
proof -
  let ?q = "vio_queue v ! unat qi"
  have pop: "pop_avail V mem m ?q \<noteq> Inl UndefinedBehaviour" by (rule pop_avail_no_ub [OF assms(1-3)])
  have push: "push_used V mem q h l m' \<noteq> Inl UndefinedBehaviour"
    if "pop_avail V mem m ?q = Inr (c, q)" for c q h l m'
  proof -
    have "queue_aligned q"
      using that assms(3) by (auto simp: pop_avail_def res_simps queue_aligned_def split: if_splits)
    then show ?thesis by (rule push_used_no_ub [OF assms(1,2)])
  qed
  show ?thesis
    using pop push process_no_ub [OF assms(4)]
    by (auto simp: notify_step_def Let_def arch_update_irq_def
        split: if_splits sum.splits option.splits prod.splits)
qed

lemma notify_completes:
  assumes V: "documented_vring V" and mem: "regions_aligned mem"
    and "driver_ok V mem m (vio_queue v ! unat qi) p u"
    and "unat qi < length (vio_queue v)" and "invar (vio_device v)"
  shows "\<exists>r w'. notify_loop A V env mem ops qi (v, m, log) = Some (r, w') \<and>
    r \<noteq> Inl UndefinedBehaviour \<and>
    (r = Inr () \<longrightarrow> (\<exists>n. notify_done A V ops qi p u (v, m, log) n w'))"
  using assms(3-5)
proof (induction "length (avail_pending V m p (vio_queue v ! unat qi))" arbitrary: v m log rule: less_induct)
  case less
  let ?q = "vio_queue v ! unat qi"
  let ?q' = "?q\<lparr>vq_last_avail := vq_last_avail ?q + 1\<rparr>"
  note prems = less.prems
  have al: "queue_aligned ?q" using prems(1) by (simp add: driver_ok_def)
  note ub = notify_step_no_ub [OF V mem al prems(3), of A env m log]
  obtain r v1 m1 log1 where step: "notify_step A V env mem ops qi (v, m, log) = (r, v1, m1, log1)"
    by (cases "notify_step A V env mem ops qi (v, m, log)")
  consider (fault) e where "r = Inl e" | (stop) "r = Inr False" | (go) "r = Inr True"
    by (cases r) auto
  then show ?case
  proof cases
    case fault
    with step ub show ?thesis by (subst notify_loop.simps) auto
  next
    case stop
    from notify_step_stop [OF step [unfolded stop] V mem prems(1)] step stop
    have w: "v1 = v" "m1 = m" "log1 = log"
      "avail_pending V m p ?q = [] \<or> \<not> op_can_process ops (vio_device v) qi" by auto
    then have "notify_done A V ops qi p u (v, m, log) 0 (v, m, log)"
      by (auto simp: notify_done_def Let_def used_holds_def)
    with step stop w show ?thesis by (subst notify_loop.simps) auto
  next
    case go
    from notify_step_go [OF step [unfolded go] V mem prems] obtain h hs where
      pend: "avail_pending V m p ?q = h # hs" and
      v1: "vio_queue v1 = (vio_queue v)[unat qi := ?q']" and
      ok1: "driver_ok V mem m1 ?q' p u" and pend1: "avail_pending V m1 p ?q' = hs" and
      inv1: "invar (vio_device v1)" and irq1: "vio_irq v1 = vio_irq v" and
      st1: "vio_irq_status v1 = vio_irq_status v OR virtio_mmio_int_vring A" and
      log1: "log1 = log @ [IrqSet 1 (vio_irq v)]" and
      ui1: "used_idx V m1 u = used_idx V m u + 1" and
      ue1: "take 4 (used_elem m1 u (unat (used_idx V m u) mod unat (vq_num ?q))) = to_le32 (ucast h)" and
      oth1: "\<forall>s < unat (vq_num ?q). s \<noteq> unat (used_idx V m u) mod unat (vq_num ?q) \<longrightarrow>
         used_elem m1 u s = used_elem m u s" by blast
    have q1: "vio_queue v1 ! unat qi = ?q'" and len1: "unat qi < length (vio_queue v1)"
      using v1 prems(2) by simp_all
    have "length (avail_pending V m1 p (vio_queue v1 ! unat qi)) < length (avail_pending V m p ?q)"
      using pend pend1 q1 by simp
    from less.hyps [OF this, of log1] ok1 inv1 q1 len1 obtain r w2 where
      loop: "notify_loop A V env mem ops qi (v1, m1, log1) = Some (r, w2)" and
      r: "r \<noteq> Inl UndefinedBehaviour"
        "r = Inr () \<longrightarrow> (\<exists>n. notify_done A V ops qi p u (v1, m1, log1) n w2)"
      by metis
    have "\<exists>n. notify_done A V ops qi p u (v, m, log) n w2" if ok: "r = Inr ()"
    proof -
      obtain n where dn: "notify_done A V ops qi p u (v1, m1, log1) n w2" using r(2) ok by auto
      have "unat (vq_num ?q) dvd 32768" "length hs < unat (vq_num ?q)"
        using prems(1) pend by (simp_all add: driver_ok_def)
      from notify_done_Suc [OF dn q1 refl this pend pend1 irq1 st1 log1 ui1 ue1 oth1]
      show ?thesis by blast
    qed
    with loop r step go show ?thesis by (subst notify_loop.simps) auto
  qed
qed

end

section \<open>The queue address registers\<close>

lemma update_selected_Some:
  "unat (vio_curr_queue v) < length (vio_queue v) \<Longrightarrow>
   update_selected f v = v\<lparr>vio_queue := (vio_queue v)[unat (vio_curr_queue v) :=
     f (vio_queue v ! unat (vio_curr_queue v))]\<rparr>"
  by (simp add: update_selected_def selected_queue_def)

lemma update_selected_None:
  "length (vio_queue v) \<le> unat (vio_curr_queue v) \<Longrightarrow> update_selected f v = v"
  by (simp add: update_selected_def selected_queue_def)

text \<open>Register writes one after the other, none of them a notification.\<close>

fun write_regs ::
    "mmio_abi \<Rightarrow> irq_env \<Rightarrow> (u32 \<times> u32) list \<Rightarrow> ('d virtio_mmio \<times> irq_log, unit) oper" where
  "write_regs A env [] w = (Inr (), w)"
| "write_regs A env (av # avs) w =
     then_op (virtio_write_reg A env (fst av) (snd av)) (\<lambda>_. write_regs A env avs) w"

definition addr64 :: "u32 \<Rightarrow> u32 \<Rightarrow> u64" where
  "addr64 lo hi = ucast lo OR push_bit 32 (ucast hi)"

lemma unat_addr64: "unat (addr64 lo hi) = unat lo + 2 ^ 32 * unat hi"
proof -
  have "(ucast lo :: u64) AND push_bit 32 (ucast hi) = 0"
    by (rule bit_eqI) (auto simp: bit_simps dest: bit_imp_le_length)
  then have s: "addr64 lo hi = ucast lo + push_bit 32 (ucast hi)"
    by (simp add: addr64_def disjunctive_add_eq_or)
  have l: "unat (ucast lo :: u64) = unat lo" "unat (ucast hi :: u64) = unat hi"
    using unat_less_two_power [of lo] unat_less_two_power [of hi]
    by (simp_all add: unsigned_ucast_eq take_bit_nat_eq_self)
  have lo: "unat lo < 2 ^ 32" and hi: "unat hi < 2 ^ 32"
    using unat_less_two_power [of lo] unat_less_two_power [of hi] by simp_all
  have p: "push_bit 32 (ucast hi) = (2 ^ 32 :: u64) * ucast hi" by (simp add: push_bit_eq_mult mult.commute)
  have "unat ((2 ^ 32 :: u64) * ucast hi) = 2 ^ 32 * unat hi"
    using hi by (subst unat_mult_no_overflow) (simp_all add: l)
  moreover have "unat lo + 2 ^ 32 * unat hi < 2 ^ 64" using lo hi by simp
  ultimately show ?thesis unfolding s p by (subst unat_add_no_overflow) (simp_all add: l)
qed

text \<open>
  The driver's setup of a queue takes effect on the queue it selected, whatever was there
  before: the size and the three 64-bit addresses, each written low half first, are those
  written, the ready flag reads back, and the other queue, the device and the interrupt are
  untouched. A high half written before the low one is lost. With a selector that names no
  queue the same writes change nothing but the selector.
\<close>

theorem queue_setup_roundtrip:
  assumes "documented_mmio A" and "length (vio_queue v) = 2"
  shows "(unat i < 2 \<longrightarrow> (\<exists>v'. write_regs A env
        [(r_queue_sel A, i), (r_queue_num A, n), (r_queue_desc_low A, dl), (r_queue_desc_high A, dh),
         (r_queue_avail_low A, al), (r_queue_avail_high A, ah), (r_queue_used_low A, ul),
         (r_queue_used_high A, uh), (r_queue_ready A, 1)] (v, log) = (Inr (), v', log)
      \<and> v' = v\<lparr>vio_curr_queue := i, vio_queue := (vio_queue v)[unat i :=
          (vio_queue v ! unat i)\<lparr>vq_num := n, vq_desc := addr64 dl dh,
             vq_avail := addr64 al ah, vq_used := addr64 ul uh, vq_ready := 1\<rparr>]\<rparr>
      \<and> fst (virtio_read_reg A ops (r_queue_ready A) (v', replicate 8 0)) = Inr ()
      \<and> snd (snd (virtio_read_reg A ops (r_queue_ready A) (v', replicate 8 0))) = to_le32 1 @ replicate 4 0))
    \<and> (unat i < 2 \<longrightarrow> (\<exists>v'. write_regs A env
        [(r_queue_sel A, i), (r_queue_desc_high A, dh), (r_queue_desc_low A, dl)] (v, log) = (Inr (), v', log)
      \<and> vq_desc (vio_queue v' ! unat i) = ucast dl))
    \<and> (\<not> unat i < 2 \<longrightarrow> write_regs A env
        [(r_queue_sel A, i), (r_queue_num A, n), (r_queue_desc_low A, dl), (r_queue_ready A, 1)] (v, log) =
          (Inr (), v\<lparr>vio_curr_queue := i\<rparr>, log))"
  using assms
  by (auto simp: documented_mmio_def linux_mmio_def virtio_write_reg_def then_op_def
      update_selected_Some update_selected_None virtio_read_reg_def Let_def addr64_def
      selected_queue_def write_le32_def splice_at_def)

section \<open>The interrupt line\<close>

text \<open>The line is asserted only while the status register says why.\<close>

definition vio_irq_ok :: "mmio_abi \<Rightarrow> 'd virtio_mmio \<Rightarrow> irq_log \<Rightarrow> bool" where
  "vio_irq_ok A v log \<longleftrightarrow>
     (line_level (vio_irq v) log \<longrightarrow> vio_irq_status v AND virtio_mmio_int_vring A \<noteq> 0)"

lemma notify_step_irq:
  assumes "notify_step A V env mem ops qi (v, m, log) = (r, v', m', log')"
    and "vio_irq_ok A v log" and "virtio_mmio_int_vring A \<noteq> 0"
  shows "vio_irq_ok A v' log' \<and> vio_irq v' = vio_irq v"
proof -
  have "(vio_irq_status v OR virtio_mmio_int_vring A) AND virtio_mmio_int_vring A = virtio_mmio_int_vring A"
    by (rule bit_eqI) (auto simp: bit_simps)
  with assms show ?thesis
    by (auto simp: notify_step_def vio_irq_ok_def Let_def arch_update_irq_def
        split: if_splits sum.splits option.splits prod.splits)
qed

lemma notify_loop_irq_aux:
  "notify_loop A V env mem ops qi w = Some x \<Longrightarrow>
     virtio_mmio_int_vring A \<noteq> 0 \<longrightarrow> vio_irq_ok A (fst w) (snd (snd w)) \<longrightarrow>
       vio_irq_ok A (fst (snd x)) (snd (snd (snd x))) \<and> vio_irq (fst (snd x)) = vio_irq (fst w)"
proof (induction rule: notify_loop.raw_induct [rotated 1, consumes 1])
  case (1 f A V env mem ops qi w x)
  obtain v m log where w: "w = (v, m, log)" by (cases w)
  obtain r1 v1 m1 log1 where st: "notify_step A V env mem ops qi (v, m, log) = (r1, v1, m1, log1)"
    by (cases "notify_step A V env mem ops qi (v, m, log)")
  show ?case
  proof (intro impI)
    assume int: "virtio_mmio_int_vring A \<noteq> 0" and ok: "vio_irq_ok A (fst w) (snd (snd w))"
    have irq: "vio_irq_ok A v1 log1" "vio_irq v1 = vio_irq v"
      using notify_step_irq [OF st _ int] ok by (simp_all add: w)
    from 1(2) have x: "(case (r1, v1, m1, log1) of (Inl e, w') \<Rightarrow> Some (Inl e, w')
        | (Inr b, w') \<Rightarrow> if b then f A V env mem ops qi w' else Some (Inr (), w')) = Some x"
      unfolding w st .
    show "vio_irq_ok A (fst (snd x)) (snd (snd (snd x))) \<and> vio_irq (fst (snd x)) = vio_irq (fst w)"
    proof (cases "r1 = Inr True")
      case True
      with x have "f A V env mem ops qi (v1, m1, log1) = Some x" by simp
      from 1(1) [OF this] int irq show ?thesis by (simp add: w)
    next
      case False
      with x have "snd x = (v1, m1, log1)" by (auto split: sum.splits if_splits)
      with irq show ?thesis by (simp add: w)
    qed
  qed
qed

lemma queue_notify_irq:
  assumes "queue_notify A V env mem ops qi (v, m, log) = Some (r, v', m', log')"
    and "vio_irq_ok A v log" and "virtio_mmio_int_vring A \<noteq> 0"
  shows "vio_irq_ok A v' log' \<and> vio_irq v' = vio_irq v"
  using assms notify_loop_irq_aux [of A V env mem ops qi "(v, m, log)" "(r, v', m', log')"]
  by (auto simp: queue_notify_def Let_def split: if_splits)

lemma notify_all_irq:
  assumes "notify_all A V env mem ops qs (v, m, log) = Some (r, v', m', log')"
    and "vio_irq_ok A v log" and "virtio_mmio_int_vring A \<noteq> 0"
  shows "vio_irq_ok A v' log' \<and> vio_irq v' = vio_irq v"
  using assms(1,2)
proof (induction qs arbitrary: v m log)
  case (Cons qi qs)
  from Cons.prems obtain r1 v1 m1 log1 where
    n: "queue_notify A V env mem ops qi (v, m, log) = Some (r1, v1, m1, log1)"
    by (auto split: option.splits)
  note irq = queue_notify_irq [OF n Cons.prems(2) assms(3)]
  show ?case
  proof (cases r1)
    case (Inl e)
    with Cons.prems n irq show ?thesis by simp
  next
    case (Inr u)
    with Cons.prems n irq Cons.IH [of v1 m1 log1] show ?thesis by simp
  qed
qed simp

lemma virtio_read_reg_irq:
  assumes "virtio_read_reg A ops addr (v, data) = (r, v', data')"
  shows "vio_irq v' = vio_irq v \<and> vio_irq_status v' = vio_irq_status v \<and> vio_queue v' = vio_queue v"
  using assms by (auto simp: virtio_read_reg_def Let_def split: if_splits sum.splits prod.splits)

lemma update_selected_fields [simp]:
  "vio_irq (update_selected f v) = vio_irq v" "vio_irq_status (update_selected f v) = vio_irq_status v"
  "vio_device (update_selected f v) = vio_device v" "vio_curr_queue (update_selected f v) = vio_curr_queue v"
  "length (vio_queue (update_selected f v)) = length (vio_queue v)"
  by (simp_all add: update_selected_def split: option.split)

lemma update_selected_progress:
  "(\<And>q. vq_last_avail (f q) = vq_last_avail q) \<Longrightarrow>
     map vq_last_avail (vio_queue (update_selected f v)) = map vq_last_avail (vio_queue v)"
  by (auto simp: update_selected_def selected_queue_def map_update intro!: nth_equalityI
      split: option.split) (auto simp: nth_list_update)

lemma virtio_write_reg_irq:
  assumes "virtio_write_reg A env addr val (v, log) = (Inr (), v', log')" and "vio_irq_ok A v log"
  shows "vio_irq_ok A v' log' \<and> vio_irq v' = vio_irq v"
  using assms
  by (auto simp: virtio_write_reg_def vio_irq_ok_def Let_def arch_update_irq_def split: if_splits prod.splits)

lemma virtio_handle_irq:
  assumes "virtio_handle A V env mem ops (mmio, v, m, log) = Some (Inr (), mmio', v', m', log')"
    and "vio_irq_ok A v log" and "virtio_mmio_int_vring A \<noteq> 0"
  shows "vio_irq_ok A v' log' \<and> vio_irq v' = vio_irq v"
proof (cases "mm_is_write mmio = 0")
  case True
  with assms(1) obtain data where
    "virtio_read_reg A ops (ucast (mm_phys_addr mmio AND 0xfff)) (v, mm_data mmio) = (Inr (), v', data)" "log' = log"
    by (auto simp: virtio_handle_def Let_def split: prod.splits)
  with virtio_read_reg_irq [OF this(1)] assms(2) show ?thesis by (simp add: vio_irq_ok_def)
next
  case False
  from False assms(1) consider val where
      "queue_notify A V env mem ops val (v, m, log) = Some (Inr (), v', m', log')"
    | addr val where "virtio_write_reg A env addr val (v, log) = (Inr (), v', log')"
    by (auto simp: virtio_handle_def Let_def split: sum.splits if_splits prod.splits)
  then show ?thesis
    using queue_notify_irq [OF _ assms(2,3)] virtio_write_reg_irq [OF _ assms(2)] by cases blast+
qed

text \<open>
  The transport's runs: accesses and polls that succeed, the calls on other lines, and anything
  the guest and the device's own threads do to RAM and the device in between.
\<close>

inductive vio_reach ::
    "mmio_abi \<Rightarrow> vring_abi \<Rightarrow> irq_env \<Rightarrow> guest_memory \<Rightarrow> 'd virtio_ops \<Rightarrow> 'd virtio_mmio \<Rightarrow> irq_log \<Rightarrow> bool"
  for A V env mem ops where
  start: "\<not> line_level irq log \<Longrightarrow> vio_reach A V env mem ops (virtio_mmio_new d irq) log"
| access: "vio_reach A V env mem ops v log \<Longrightarrow>
    virtio_handle A V env mem ops (mmio, v, m, log) = Some (Inr (), mmio', v', m', log') \<Longrightarrow>
    vio_reach A V env mem ops v' log'"
| poll: "vio_reach A V env mem ops v log \<Longrightarrow>
    virtio_poll A V env mem ops (v, m, log) = Some (Inr (), v', m', log') \<Longrightarrow>
    vio_reach A V env mem ops v' log'"
| other_line: "vio_reach A V env mem ops v log \<Longrightarrow> n \<noteq> vio_irq v \<Longrightarrow>
    vio_reach A V env mem ops v (log @ [IrqSet level n])"
| device: "vio_reach A V env mem ops v log \<Longrightarrow> vio_reach A V env mem ops (v\<lparr>vio_device := d\<rparr>) log"

text \<open>
  A virtio device never interrupts the guest without a reason it can read: in every state
  the transport can reach, a high interrupt line means the used-ring bit of the interrupt status
  register is set. (The converse fails: any acknowledge lowers the line.)
\<close>

theorem virtio_irq_has_reason:
  assumes "documented_mmio A" and "vio_reach A V env mem ops v log"
  shows "line_level (vio_irq v) log \<longrightarrow> vio_irq_status v AND virtio_mmio_int_vring A \<noteq> 0"
proof -
  have int: "virtio_mmio_int_vring A \<noteq> 0" using assms(1) by (simp add: documented_mmio_def linux_mmio_def)
  from assms(2) have "vio_irq_ok A v log"
  proof (induction rule: vio_reach.induct)
    case (access v log mmio m mmio' v' m' log')
    then show ?case using virtio_handle_irq [OF _ _ int] by blast
  next
    case (poll v log m v' m' log')
    from poll.hyps(2) have "notify_all A V env mem ops (map word_of_nat [0..<2]) (v, m, log) =
        Some (Inr (), v', m', log')" by (simp add: virtio_poll_def)
    from notify_all_irq [OF this poll.IH int] show ?case by simp
  qed (simp_all add: vio_irq_ok_def virtio_mmio_new_def)
  then show ?thesis by (simp add: vio_irq_ok_def)
qed

section \<open>Every other access returns\<close>


text \<open>
  Nothing rewinds a queue. No sequence of register writes, a write of 0 to the status
  register (a driver's way to reset the device) included, changes how far the device has read
  an available ring, so a driver that starts over finds a device that expects the old position;
  the write of 0 itself changes the status register only.
\<close>

theorem register_writes_keep_progress:
  "map vq_last_avail (vio_queue (fst (snd (write_regs A env avs (v, log))))) =
     map vq_last_avail (vio_queue v)
   \<and> (documented_mmio A \<longrightarrow> virtio_write_reg A env (r_status A) 0 (v, log) = (Inr (), v\<lparr>vio_status := 0\<rparr>, log))"
proof
  show "map vq_last_avail (vio_queue (fst (snd (write_regs A env avs (v, log))))) =
     map vq_last_avail (vio_queue v)"
  proof (induction avs arbitrary: v log)
    case (Cons av avs)
    obtain r v1 log1 where w: "virtio_write_reg A env (fst av) (snd av) (v, log) = (r, v1, log1)"
      by (cases "virtio_write_reg A env (fst av) (snd av) (v, log)")
    have "map vq_last_avail (vio_queue v1) = map vq_last_avail (vio_queue v)"
      using w
      by (auto simp: virtio_write_reg_def Let_def update_selected_progress split: if_splits prod.splits)
    with Cons.IH [of v1 log1] w show ?case by (cases r) (auto simp: then_op_def)
  qed simp
  show "documented_mmio A \<longrightarrow>
      virtio_write_reg A env (r_status A) 0 (v, log) = (Inr (), v\<lparr>vio_status := 0\<rparr>, log)"
    by (auto simp: documented_mmio_def linux_mmio_def virtio_write_reg_def)
qed

section \<open>Witnesses\<close>

text \<open>A device that does nothing.\<close>

definition idle_ops :: "nat virtio_ops" where
  "idle_ops = \<lparr>op_device_id = (\<lambda>_. 0), op_features = (\<lambda>_ _. 0), op_queue_num_max = (\<lambda>_ q. if q = 0 then 2 else 0),
     op_read_config = (\<lambda>_ w. (Inr (), w)), op_process = (\<lambda>_ _ w. (Inr 0, w)),
     op_can_process = can_process_default\<rparr>"

lemma documented_linux_mmio: "documented_mmio linux_mmio"
  by (simp add: documented_mmio_def)

theorem queue_setup_roundtrip_witness:
  "\<exists>v'. write_regs linux_mmio (\<lambda>_ _ _. True)
      [(0x30, 1), (0x38, 8), (0x80, 0x1000), (0x84, 2), (0x90, 0x2000), (0x94, 0), (0xa0, 0x3000),
       (0xa4, 0), (0x44, 1)] (virtio_mmio_new (0::nat) 5, []) = (Inr (), v', []) \<and>
    vq_desc (vio_queue v' ! 1) = addr64 0x1000 2 \<and> vq_num (vio_queue v' ! 1) = 8"
proof -
  have r: "r_queue_sel linux_mmio = 0x30" "r_queue_num linux_mmio = 0x38" "r_queue_desc_low linux_mmio = 0x80"
    "r_queue_desc_high linux_mmio = 0x84" "r_queue_avail_low linux_mmio = 0x90" "r_queue_avail_high linux_mmio = 0x94"
    "r_queue_used_low linux_mmio = 0xa0" "r_queue_used_high linux_mmio = 0xa4" "r_queue_ready linux_mmio = 0x44"
    by (simp_all add: linux_mmio_def)
  have l: "length (vio_queue (virtio_mmio_new (0::nat) 5)) = 2" by (simp add: virtio_mmio_new_def)
  from queue_setup_roundtrip [OF documented_linux_mmio l, where i = 1 and env = "\<lambda>_ _ _. True" and n = 8 and
      dl = "0x1000" and dh = 2 and al = "0x2000" and ah = 0 and ul = "0x3000" and uh = 0 and log = "[]" and ops = idle_ops]
  show ?thesis by (auto simp: r l simp del: write_regs.simps)
qed


theorem register_writes_keep_progress_witness:
  "virtio_write_reg linux_mmio (\<lambda>_ _ _. True) 0x70 0 ((virtio_mmio_new (0::nat) 5)\<lparr>vio_status := 0xf\<rparr>, []) =
     (Inr (), virtio_mmio_new 0 5, [])"
proof -
  have "r_status linux_mmio = 0x70" by (simp add: linux_mmio_def)
  then show ?thesis
    using register_writes_keep_progress [of linux_mmio "\<lambda>_ _ _. True" "[]"
        "(virtio_mmio_new (0::nat) 5)\<lparr>vio_status := 0xf\<rparr>" "[]"] documented_linux_mmio
    by (simp add: virtio_mmio_new_def)
qed

end
