(* ===== verification/Guest_Buffers.thy ===== *)
theory Guest_Buffers
  imports Guest_Memory
begin

text \<open>
  Bytes spread over a chain's writable buffers, one buffer after the other: what the block
  device's read (\<open>virtio/blk.rs\<close>) and the network device's receive (\<open>virtio/net.rs\<close>) do to guest
  RAM, and what the guest then reads. Buffers the guest gave twice overlap, so that what is read
  back is what was written only for buffers that are apart.
\<close>

type_synonym buffers = "(host_ptr \<times> nat) list"

fun scatter :: "buffers \<Rightarrow> u8 list \<Rightarrow> ram \<Rightarrow> ram" where
  "scatter [] bs m = m"
| "scatter ((p, n) # bufs) bs m = scatter bufs (drop n bs) (ram_write p (take n bs) m)"

definition gather :: "ram \<Rightarrow> buffers \<Rightarrow> u8 list" where
  "gather m bufs = concat (map (\<lambda>(p, n). ram_read m p n) bufs)"

definition buf_total :: "buffers \<Rightarrow> nat" where
  "buf_total bufs = sum_list (map snd bufs)"

definition buf_area :: "buffers \<Rightarrow> (nat \<times> nat) set" where
  "buf_area bufs = (\<Union>s \<in> set bufs. ptr_bytes (fst s) (snd s))"

fun buf_disjoint :: "buffers \<Rightarrow> bool" where
  "buf_disjoint [] \<longleftrightarrow> True"
| "buf_disjoint (s # bufs) \<longleftrightarrow> ptr_bytes (fst s) (snd s) \<inter> buf_area bufs = {} \<and> buf_disjoint bufs"

lemma buf_simps [simp]:
  "buf_total [] = 0" "buf_total (s # bufs) = snd s + buf_total bufs"
  "buf_area [] = {}" "buf_area (s # bufs) = ptr_bytes (fst s) (snd s) \<union> buf_area bufs"
  "gather m [] = []" "gather m (s # bufs) = ram_read m (fst s) (snd s) @ gather m bufs"
  by (simp_all add: buf_total_def buf_area_def gather_def split: prod.split)

lemma buf_append [simp]:
  "buf_total (bufs @ bufs') = buf_total bufs + buf_total bufs'"
  "buf_area (bufs @ bufs') = buf_area bufs \<union> buf_area bufs'"
  by (simp_all add: buf_total_def buf_area_def)

lemma ptr_bytes_mono: "k \<le> n \<Longrightarrow> ptr_bytes p k \<subseteq> ptr_bytes p n"
  by (auto simp: ptr_bytes_def)

lemma ram_write_Nil [simp]: "ram_write p [] m = m"
  by (auto simp: ram_write_def intro!: ext)

lemma scatter_Nil [simp]: "scatter bufs [] m = m"
  by (induction bufs arbitrary: m) auto

lemma scatter_outside: "same_outside (buf_area bufs) m (scatter bufs bs m)"
proof (induction bufs arbitrary: bs m)
  case (Cons s bufs)
  obtain p n where s: "s = (p, n)" by (cases s)
  let ?m1 = "ram_write p (take n bs) m"
  have "ptr_bytes p (length (take n bs)) \<subseteq> ptr_bytes p n" by (rule ptr_bytes_mono) simp
  then have "same_outside (buf_area (s # bufs)) m ?m1"
    by (intro same_outside_mono [OF ram_write_outside]) (auto simp: s)
  moreover have "same_outside (buf_area (s # bufs)) ?m1 (scatter bufs (drop n bs) ?m1)"
    by (rule same_outside_mono [OF Cons.IH]) auto
  ultimately show ?case by (auto simp: s intro: same_outside_trans)
qed simp

lemma gather_same_outside:
  assumes "same_outside A m m'" and "A \<inter> buf_area bufs = {}"
  shows "gather m' bufs = gather m bufs"
  using assms(2)
proof (induction bufs)
  case (Cons s bufs)
  have "A \<inter> ptr_bytes (fst s) (snd s) = {}" "A \<inter> buf_area bufs = {}" using Cons.prems by auto
  with Cons.IH ram_read_same_outside [OF assms(1)] show ?case by simp
qed simp

lemma length_gather [simp]: "length (gather m bufs) = buf_total bufs"
  by (induction bufs) auto

lemma ram_read_take: "k \<le> n \<Longrightarrow> take k (ram_read m p n) = ram_read m p k"
  by (simp add: ram_read_def take_map)

text \<open>The guest reads back the bytes that were spread, in order.\<close>

lemma gather_scatter:
  assumes "buf_disjoint bufs" and "length bs \<le> buf_total bufs"
  shows "take (length bs) (gather (scatter bufs bs m) bufs) = bs"
  using assms
proof (induction bufs arbitrary: bs m)
  case (Cons s bufs)
  obtain p n where s: "s = (p, n)" by (cases s)
  let ?m1 = "ram_write p (take n bs) m"
  let ?m2 = "scatter bufs (drop n bs) ?m1"
  have "ram_read ?m2 p n = ram_read ?m1 p n"
    using Cons.prems(1) by (intro ram_read_same_outside [OF scatter_outside]) (auto simp: s)
  moreover have "take (length (take n bs)) (ram_read ?m1 p n) = take n bs"
    using ram_read_write_same [of p "take n bs" m] by (simp add: ram_read_take)
  moreover have "take (length (drop n bs)) (gather ?m2 bufs) = drop n bs"
    using Cons.prems by (intro Cons.IH) (auto simp: s)
  ultimately show ?case
    by (cases "length bs \<le> n") (simp_all add: s)
qed simp

lemma scatter_append:
  "scatter (bufs @ bufs') bs m = scatter bufs' (drop (buf_total bufs) bs) (scatter bufs bs m)"
  by (induction bufs arbitrary: bs m) (auto simp: add.commute)

lemma buf_disjoint_append:
  "buf_disjoint (bufs @ [s]) \<longleftrightarrow> buf_disjoint bufs \<and> ptr_bytes (fst s) (snd s) \<inter> buf_area bufs = {}"
  by (induction bufs) auto

lemma buf_disjoint_butlast:
  assumes "buf_disjoint bufs" and "bufs \<noteq> []"
  shows "buf_disjoint (butlast bufs)"
    and "ptr_bytes (fst (last bufs)) (snd (last bufs)) \<inter> buf_area (butlast bufs) = {}"
  using assms buf_disjoint_append [of "butlast bufs" "last bufs"] by simp_all

end
