(* ===== verification/Virtio_Blk.thy ===== *)
theory Virtio_Blk
  imports Virtio_Mmio Guest_Buffers
begin

text \<open>
  The virtio block device, \<open>src/src/virtio/blk.rs\<close>: requests against a disk image file, as the
  device of a \<open>Virtio_Mmio\<close> transport. The file is its bytes and the log of the calls on it;
  whether a call succeeds, or fails after how many bytes, is an argument that sees the log.
  The header's layout and the constants are of generated bindings, the argument \<open>B\<close>.
\<close>

section \<open>Bindings and the file\<close>

abbreviation (input) SECTOR_SIZE :: u64 where "SECTOR_SIZE \<equiv> 512"

record blk_outhdr =
  oh_type :: u32
  oh_sector :: u64

record blk_abi =
  virtio_id_block :: u32
  virtio_blk_f_flush :: nat
  virtio_blk_t_in :: u32
  virtio_blk_t_out :: u32
  virtio_blk_t_flush :: u32
  virtio_blk_s_ok :: u32
  virtio_blk_s_ioerr :: u32
  virtio_blk_s_unsupp :: u32
  sz_outhdr :: nat
  dec_outhdr :: "u8 list \<Rightarrow> blk_outhdr"

definition linux_blk :: blk_abi where
  "linux_blk = \<lparr>virtio_id_block = 2, virtio_blk_f_flush = 9, virtio_blk_t_in = 0,
     virtio_blk_t_out = 1, virtio_blk_t_flush = 4, virtio_blk_s_ok = 0, virtio_blk_s_ioerr = 1,
     virtio_blk_s_unsupp = 2, sz_outhdr = 16,
     dec_outhdr = (\<lambda>b. \<lparr>oh_type = from_le32 (take 4 b), oh_sector = from_le64 (drop 8 b)\<rparr>)\<rparr>"

text \<open>The request types differ, and so do the status values as bytes.\<close>

definition documented_blk :: "blk_abi \<Rightarrow> bool" where
  "documented_blk B \<longleftrightarrow>
     virtio_blk_t_in B \<noteq> virtio_blk_t_out B \<and> virtio_blk_t_in B \<noteq> virtio_blk_t_flush B \<and>
     virtio_blk_t_out B \<noteq> virtio_blk_t_flush B \<and>
     (ucast (virtio_blk_s_ok B) :: u8) \<noteq> ucast (virtio_blk_s_ioerr B)"

lemma documented_linux_blk: "documented_blk linux_blk"
  by (simp add: documented_blk_def linux_blk_def)

datatype disk_op = ReadAt nat nat | WriteAt nat "u8 list" | SyncData
datatype disk_outcome = DiskOk | DiskFails nat

type_synonym disk_env = "disk_op list \<Rightarrow> disk_op \<Rightarrow> disk_outcome"

record virtio_blk =
  blk_disk :: "u8 list"
  blk_log :: "disk_op list"
  blk_capacity :: u64

text \<open>The outcome of opening the file and reading its metadata is an argument.\<close>

definition virtio_blk_new :: "u8 list res \<Rightarrow> virtio_blk res" where
  "virtio_blk_new file =
     try_res file (\<lambda>disk. Inr \<lparr>blk_disk = disk, blk_log = [],
        blk_capacity = word_of_nat (length disk) div SECTOR_SIZE\<rparr>)"

text \<open>
  \<open>read_exact_at\<close>: the bytes it put into the buffer and its outcome. A file that ends too early
  is an error; so is a failing \<open>pread\<close>, which may have filled a part of the buffer. Nothing is
  called for an empty buffer, here and in \<open>write_all_at\<close>.
\<close>

definition read_exact_at :: "disk_env \<Rightarrow> nat \<Rightarrow> nat \<Rightarrow> virtio_blk \<Rightarrow> unit res \<times> u8 list \<times> virtio_blk" where
  "read_exact_at env off n d =
     (let d' = d\<lparr>blk_log := blk_log d @ [ReadAt off n]\<rparr>; bs = take n (drop off (blk_disk d))
      in if n = 0 then (Inr (), [], d)
         else case env (blk_log d) (ReadAt off n) of
           DiskFails k \<Rightarrow> (Inl (IoError OsError), take k bs, d')
         | DiskOk \<Rightarrow> (if length bs < n then Inl (IoError UnexpectedEof) else Inr (), bs, d'))"

text \<open>\<open>write_all_at\<close>: a failing call may have written a part.\<close>

definition put_bytes :: "nat \<Rightarrow> u8 list \<Rightarrow> u8 list \<Rightarrow> u8 list" where
  "put_bytes off bs disk =
     (if bs = [] then disk
      else take off (disk @ replicate (off - length disk) 0) @ bs @ drop (off + length bs) disk)"

definition write_all_at :: "disk_env \<Rightarrow> nat \<Rightarrow> u8 list \<Rightarrow> (virtio_blk, unit) oper" where
  "write_all_at env off bs d =
     (let d' = d\<lparr>blk_log := blk_log d @ [WriteAt off bs]\<rparr>
      in if bs = [] then (Inr (), d)
         else case env (blk_log d) (WriteAt off bs) of
           DiskFails k \<Rightarrow> (Inl (IoError OsError), d'\<lparr>blk_disk := put_bytes off (take k bs) (blk_disk d)\<rparr>)
         | DiskOk \<Rightarrow> (Inr (), d'\<lparr>blk_disk := put_bytes off bs (blk_disk d)\<rparr>))"

definition sync_data :: "disk_env \<Rightarrow> (virtio_blk, unit) oper" where
  "sync_data env d =
     ((case env (blk_log d) SyncData of DiskFails _ \<Rightarrow> Inl (IoError OsError) | DiskOk \<Rightarrow> Inr ()),
      d\<lparr>blk_log := blk_log d @ [SyncData]\<rparr>)"

section \<open>Requests\<close>

text \<open>
  \<open>len\<close> is a \<open>usize\<close>, so \<open>checked_add\<close> is written out on naturals. The guard's product is
  computed only when there is an end to compare with.
\<close>

definition disk_offset :: "virtio_blk \<Rightarrow> u64 \<Rightarrow> nat \<Rightarrow> u64 res" where
  "disk_offset d sector len =
     (case checked_mul sector SECTOR_SIZE of
        None \<Rightarrow> Inl (IoError Other)
      | Some offset \<Rightarrow>
          if unat offset + len < 2 ^ 64 then
            try_res (mul_ov (blk_capacity d) SECTOR_SIZE) (\<lambda>lim.
              if unat offset + len \<le> unat lim then Inr offset else Inl (IoError Other))
          else Inl (IoError Other))"

fun blk_read_bufs ::
    "disk_env \<Rightarrow> buffers \<Rightarrow> u64 \<Rightarrow> (virtio_blk \<times> ram, unit) oper" where
  "blk_read_bufs env [] offset w = (Inr (), w)"
| "blk_read_bufs env ((p, n) # bufs) offset (d, m) =
     (case read_exact_at env (unat offset) n d of
        (Inl e, bs, d') \<Rightarrow> (Inl e, d', ram_write p bs m)
      | (Inr _, bs, d') \<Rightarrow>
          (case add_ov offset (word_of_nat n) of
             Inl e \<Rightarrow> (Inl e, d', ram_write p bs m)
           | Inr offset' \<Rightarrow> blk_read_bufs env bufs offset' (d', ram_write p bs m)))"

text \<open>The sum of the lengths is a checked \<open>usize\<close>; the result is truncated to 32 bits.\<close>

definition blk_read ::
    "disk_env \<Rightarrow> u64 \<Rightarrow> buffers \<Rightarrow> (virtio_blk \<times> ram, u32) oper" where
  "blk_read env sector bufs w =
     (let total = buf_total bufs
      in if 2 ^ 64 \<le> total then (Inl (Panicked ArithOverflow), w)
         else case disk_offset (fst w) sector total of
                Inl e \<Rightarrow> (Inl e, w)
              | Inr offset \<Rightarrow>
                  then_op (blk_read_bufs env bufs offset) (\<lambda>_ w'. (Inr (word_of_nat total), w')) w)"

definition blk_write :: "disk_env \<Rightarrow> u64 \<Rightarrow> u8 list \<Rightarrow> (virtio_blk, unit) oper" where
  "blk_write env sector data d =
     (case disk_offset d sector (length data) of
        Inl e \<Rightarrow> (Inl e, d)
      | Inr offset \<Rightarrow> write_all_at env (unat offset) data d)"

text \<open>\<open>status[0] = b\<close> on the last writable buffer.\<close>

definition put_status :: "host_ptr \<times> nat \<Rightarrow> u8 \<Rightarrow> ram \<Rightarrow> ram res" where
  "put_status s b m =
     (if snd s = 0 then Inl (Panicked IndexOutOfBounds) else Inr (ram_write (fst s) [b] m))"

text \<open>
  An \<open>io::Error\<close> of the request becomes a status; a panic does not. The outcome of the request
  is its \<open>Result\<close> with the number of bytes written to the guest.
\<close>

definition blk_request ::
    "blk_abi \<Rightarrow> disk_env \<Rightarrow> blk_outhdr \<Rightarrow> u8 list \<Rightarrow> buffers \<Rightarrow> (virtio_blk \<times> ram, u32) oper option" where
  "blk_request B env hdr out_data bufs =
     (if oh_type hdr = virtio_blk_t_in B then Some (blk_read env (oh_sector hdr) bufs)
      else if oh_type hdr = virtio_blk_t_out B then
        Some (\<lambda>(d, m). case blk_write env (oh_sector hdr) out_data d of
                (r, d') \<Rightarrow> (try_res r (\<lambda>_. Inr 0), d', m))
      else if oh_type hdr = virtio_blk_t_flush B then
        Some (\<lambda>(d, m). case sync_data env d of (r, d') \<Rightarrow> (try_res r (\<lambda>_. Inr 0), d', m))
      else None)"

definition blk_finish :: "host_ptr \<times> nat \<Rightarrow> u8 \<Rightarrow> u32 res \<Rightarrow> virtio_blk \<times> ram \<Rightarrow> u32 res \<times> virtio_blk \<times> ram" where
  "blk_finish status b written w =
     (case put_status status b (snd w) of
        Inl e \<Rightarrow> (Inl e, w)
      | Inr m \<Rightarrow> (written, fst w, m))"

definition blk_process ::
    "blk_abi \<Rightarrow> disk_env \<Rightarrow> u32 \<Rightarrow> desc_chain \<Rightarrow> (virtio_blk \<times> ram, u32) oper" where
  "blk_process B env qi ch w =
     (case new_from (sz_outhdr B) (dec_outhdr B) (ch_read ch) 0 of
        None \<Rightarrow> (Inl (IoError Other), w)
      | Some hdr \<Rightarrow>
          if ch_write ch = [] then (Inl (IoError Other), w)
          else let status = last (ch_write ch); bufs = butlast (ch_write ch);
                   out_data = drop (sz_outhdr B) (ch_read ch)
               in case blk_request B env hdr out_data bufs of
                    None \<Rightarrow> blk_finish status (ucast (virtio_blk_s_unsupp B)) (Inr 1) w
                  | Some req \<Rightarrow>
                      (case req w of
                         (Inr n, w') \<Rightarrow> blk_finish status (ucast (virtio_blk_s_ok B)) (add_ov n 1) w'
                       | (Inl (IoError k), w') \<Rightarrow>
                           blk_finish status (ucast (virtio_blk_s_ioerr B)) (Inr 1) w'
                       | (Inl e, w') \<Rightarrow> (Inl e, w')))"

section \<open>The device\<close>

definition blk_read_config :: "u32 \<Rightarrow> (virtio_blk \<times> u8 list, unit) oper" where
  "blk_read_config off = (\<lambda>(d, data).
     let put = (\<lambda>x. case write_le32 data 0 x of Inl e \<Rightarrow> (Inl e, d, data) | Inr data' \<Rightarrow> (Inr (), d, data'))
     in if off = 0x0 then put (ucast (blk_capacity d))
        else if off = 0x4 then put (ucast (drop_bit 32 (blk_capacity d)))
        else (Inr (), d, data))"

definition blk_features :: "blk_abi \<Rightarrow> u32 \<Rightarrow> u32" where
  "blk_features B sel = (if sel = 0 then push_bit (virtio_blk_f_flush B) 1 else 0x0)"

definition blk_queue_num_max :: "u32 \<Rightarrow> u32" where
  "blk_queue_num_max q = (if q = 0 then 128 else 0)"

definition blk_ops :: "blk_abi \<Rightarrow> disk_env \<Rightarrow> virtio_blk virtio_ops" where
  "blk_ops B env =
     \<lparr>op_device_id = (\<lambda>d. virtio_id_block B), op_features = (\<lambda>d. blk_features B),
      op_queue_num_max = (\<lambda>d. blk_queue_num_max), op_read_config = blk_read_config,
      op_process = blk_process B env, op_can_process = can_process_default\<rparr>"

section \<open>The disk stays within bounds\<close>

definition blk_invar :: "virtio_blk \<Rightarrow> bool" where
  "blk_invar d \<longleftrightarrow> unat (blk_capacity d) * 512 \<le> length (blk_disk d)"

definition sector_ok :: "virtio_blk \<Rightarrow> u64 \<Rightarrow> nat \<Rightarrow> bool" where
  "sector_ok d sector len \<longleftrightarrow>
     unat sector * 512 + len \<le> unat (blk_capacity d) * 512 \<and> unat (blk_capacity d) * 512 < 2 ^ 64"

lemma disk_offset_Inr_iff:
  "disk_offset d sector len = Inr off \<longleftrightarrow> sector_ok d sector len \<and> off = sector * 512"
  by (cases "checked_mul sector (512 :: u64)"; cases "checked_mul (blk_capacity d) (512 :: u64)")
    (auto simp: disk_offset_def sector_ok_def checked_mul_def unat_mult_no_overflow split: if_splits)

lemma disk_offset_Inl:
  "disk_offset d sector len = Inl e \<Longrightarrow> unat (blk_capacity d) * 512 < 2 ^ 64 \<Longrightarrow> e = IoError Other"
  by (cases "checked_mul sector (512 :: u64)")
    (auto simp: disk_offset_def checked_mul_def split: if_splits)

lemma sector_ok_offset: "sector_ok d sector len \<Longrightarrow> unat (sector * 512) = unat sector * 512"
  by (simp add: sector_ok_def unat_mult_no_overflow)

lemma put_bytes_in_range:
  assumes "off + length bs \<le> length disk"
  shows "length (put_bytes off bs disk) = length disk"
    and "take n (drop off (put_bytes off bs disk)) = take n (bs @ drop (off + length bs) disk)"
    and "j < off \<or> off + length bs \<le> j \<Longrightarrow> put_bytes off bs disk ! j = disk ! j"
proof -
  have p: "put_bytes off bs disk = take off disk @ bs @ drop (off + length bs) disk"
    using assms by (auto simp: put_bytes_def)
  show "length (put_bytes off bs disk) = length disk" unfolding p using assms by simp
  show "take n (drop off (put_bytes off bs disk)) = take n (bs @ drop (off + length bs) disk)"
    unfolding p using assms by simp
  show "put_bytes off bs disk ! j = disk ! j" if "j < off \<or> off + length bs \<le> j"
    unfolding p using assms that by (auto simp: nth_append)
qed

text \<open>A read leaves the disk alone and writes into the buffers only.\<close>

lemma read_exact_at_disk:
  "read_exact_at env off n d = (r, bs, d') \<Longrightarrow>
     blk_disk d' = blk_disk d \<and> blk_capacity d' = blk_capacity d \<and> length bs \<le> n"
  by (auto simp: read_exact_at_def Let_def split: if_splits disk_outcome.splits)

lemma blk_read_bufs_frame:
  assumes "blk_read_bufs env bufs off (d, m) = (r, d', m')"
  shows "blk_disk d' = blk_disk d \<and> blk_capacity d' = blk_capacity d \<and>
    same_outside (buf_area bufs) m m'"
  using assms
proof (induction bufs arbitrary: off d m)
  case (Cons s bufs)
  obtain p n where s: "s = (p, n)" by (cases s)
  obtain rr bs d1 where rd: "read_exact_at env (unat off) n d = (rr, bs, d1)"
    by (cases "read_exact_at env (unat off) n d")
  note rd' = read_exact_at_disk [OF rd]
  have w: "same_outside (buf_area (s # bufs)) m (ram_write p bs m)"
    using rd' ptr_bytes_mono [of "length bs" n p]
    by (intro same_outside_mono [OF ram_write_outside]) (auto simp: s)
  from Cons.prems rd consider "(d', m') = (d1, ram_write p bs m)"
    | off' where "blk_read_bufs env bufs off' (d1, ram_write p bs m) = (r, d', m')"
    by (auto simp: s split: sum.splits)
  then show ?case
  proof cases
    case 1
    with rd' w show ?thesis by simp
  next
    case 2
    from Cons.IH [OF 2] have "same_outside (buf_area (s # bufs)) (ram_write p bs m) m'"
      by (auto intro: same_outside_mono)
    with Cons.IH [OF 2] rd' same_outside_trans [OF w] show ?thesis by auto
  qed
qed simp

lemma blk_read_frame:
  assumes "blk_read env sector bufs (d, m) = (r, d', m')"
  shows "blk_disk d' = blk_disk d \<and> blk_capacity d' = blk_capacity d \<and>
    same_outside (buf_area bufs) m m'"
proof (cases "blk_disk d' = blk_disk d \<and> blk_capacity d' = blk_capacity d \<and> m' = m")
  case False
  with assms obtain off r1 where "blk_read_bufs env bufs off (d, m) = (r1, d', m')"
    by (auto simp: blk_read_def Let_def then_op_def split: if_splits sum.splits prod.splits)
  then show ?thesis by (rule blk_read_bufs_frame)
qed simp

text \<open>A write changes the bytes of its own sectors only, whether it succeeds or fails.\<close>

lemma blk_write_frame:
  assumes "blk_write env sector data d = (r, d')" and "blk_invar d"
  shows "blk_capacity d' = blk_capacity d \<and> length (blk_disk d') = length (blk_disk d) \<and>
    (\<forall>j. j < unat sector * 512 \<or> unat sector * 512 + length data \<le> j \<longrightarrow>
       blk_disk d' ! j = blk_disk d ! j) \<and>
    (\<not> sector_ok d sector (length data) \<longrightarrow> d' = d \<and> (\<exists>e. r = Inl e))"
proof (cases "disk_offset d sector (length data)")
  case (Inl e)
  then have "\<not> sector_ok d sector (length data)" using disk_offset_Inr_iff [of d sector "length data" "sector * 512"] by simp
  with Inl assms(1) show ?thesis by (auto simp: blk_write_def)
next
  case (Inr off)
  then have ok: "sector_ok d sector (length data)" and off: "unat off = unat sector * 512"
    by (auto simp: disk_offset_Inr_iff sector_ok_offset)
  have "unat sector * 512 + length data \<le> length (blk_disk d)"
    using ok assms(2) by (simp add: sector_ok_def blk_invar_def)
  then have le: "unat sector * 512 + length (take k data) \<le> length (blk_disk d)" for k by simp
  have "blk_disk d' = blk_disk d \<or> (\<exists>k. blk_disk d' = put_bytes (unat sector * 512) (take k data) (blk_disk d))"
    and c: "blk_capacity d' = blk_capacity d"
    using assms(1) Inr off
    by (auto simp: blk_write_def write_all_at_def Let_def split: if_splits disk_outcome.splits)
      (metis order_refl take_all)
  then obtain k where
    "blk_disk d' = blk_disk d \<or> blk_disk d' = put_bytes (unat sector * 512) (take k data) (blk_disk d)"
    by blast
  with ok c put_bytes_in_range(1) [OF le [of k]] put_bytes_in_range(3) [OF le [of k]] show ?thesis by auto
qed

lemma write_area_buf: "write_area ch = buf_area (ch_write ch)"
  by (simp add: write_area_def buf_area_def)

lemma buf_area_split:
  "bufs \<noteq> [] \<Longrightarrow> buf_area bufs = buf_area (butlast bufs) \<union> ptr_bytes (fst (last bufs)) (snd (last bufs))"
  by (subst append_butlast_last_id [symmetric]) (simp_all del: append_butlast_last_id)

lemma put_status_outside:
  "put_status s b m = Inr m' \<Longrightarrow> same_outside (ptr_bytes (fst s) (snd s)) m m'"
  using ptr_bytes_mono [of 1 "snd s" "fst s"]
  by (auto simp: put_status_def split: if_splits intro!: same_outside_mono [OF ram_write_outside])

lemma blk_finish_frame:
  assumes "blk_finish s b n (d, m) = (r, d', m')"
  shows "d' = d \<and> same_outside (ptr_bytes (fst s) (snd s)) m m'"
  using assms put_status_outside [of s b m]
  by (auto simp: blk_finish_def split: sum.splits)

lemma blk_request_frame:
  assumes "blk_request B env hdr data bufs = Some req" and "req (d, m) = (r, d', m')" and "blk_invar d"
  shows "blk_invar d' \<and> same_outside (buf_area bufs) m m'"
  using assms blk_read_frame [of env "oh_sector hdr" bufs d m r d' m']
    blk_write_frame [of env "oh_sector hdr" data d _ d']
  by (auto simp: blk_request_def blk_invar_def sync_data_def split: if_splits prod.splits)

lemma blk_request_outside:
  assumes "blk_request B env hdr data bufs = Some req" and "req (d, m) = (r, d', m')"
  shows "same_outside (buf_area bufs) m m'"
  using assms blk_read_frame [of env "oh_sector hdr" bufs d m r d' m']
  by (auto simp: blk_request_def sync_data_def split: if_splits prod.splits)

lemma blk_process_cases:
  assumes "blk_process B env qi ch (d, m) = (r, d', m')"
  obtains (malformed) "r = Inl (IoError Other)" "d' = d" "m' = m"
    | (unsupported) "ch_write ch \<noteq> []"
        "blk_finish (last (ch_write ch)) (ucast (virtio_blk_s_unsupp B)) (Inr 1) (d, m) = (r, d', m')"
    | (request) hdr req r1 d1 m1 where "ch_write ch \<noteq> []"
        "new_from (sz_outhdr B) (dec_outhdr B) (ch_read ch) 0 = Some hdr"
        "blk_request B env hdr (drop (sz_outhdr B) (ch_read ch)) (butlast (ch_write ch)) = Some req"
        "req (d, m) = (r1, d1, m1)"
        "(\<exists>n. r1 = Inr n \<and> blk_finish (last (ch_write ch)) (ucast (virtio_blk_s_ok B))
            (add_ov n 1) (d1, m1) = (r, d', m')) \<or>
         (\<exists>k. r1 = Inl (IoError k) \<and> blk_finish (last (ch_write ch)) (ucast (virtio_blk_s_ioerr B))
            (Inr 1) (d1, m1) = (r, d', m')) \<or>
         (\<exists>e. r1 = Inl e \<and> (\<forall>k. e \<noteq> IoError k) \<and> r = Inl e \<and> d' = d1 \<and> m' = m1)"
proof (cases "new_from (sz_outhdr B) (dec_outhdr B) (ch_read ch) 0")
  case None
  then show ?thesis using assms malformed by (auto simp: blk_process_def)
next
  case (Some hdr)
  show ?thesis
  proof (cases "ch_write ch = []")
    case True
    then show ?thesis using Some assms malformed by (auto simp: blk_process_def)
  next
    case False
    show ?thesis
    proof (cases "blk_request B env hdr (drop (sz_outhdr B) (ch_read ch)) (butlast (ch_write ch))")
      case None
      then show ?thesis using Some False assms unsupported by (auto simp: blk_process_def Let_def)
    next
      case (Some req)
      obtain r1 d1 m1 where rq: "req (d, m) = (r1, d1, m1)" by (cases "req (d, m)")
      show ?thesis
        using assms \<open>new_from _ _ _ _ = Some hdr\<close> False Some rq
        by (intro request [OF False \<open>new_from _ _ _ _ = Some hdr\<close> Some rq])
          (auto simp: blk_process_def Let_def split: sum.splits fault.splits)
    qed
  qed
qed

lemma blk_process_frame:
  assumes "blk_process B env qi ch (d, m) = (r, d', m')"
  shows "same_outside (write_area ch) m m'"
  using assms
proof (cases rule: blk_process_cases)
  case unsupported
  then show ?thesis
    using blk_finish_frame [OF unsupported(2)] buf_area_split [OF unsupported(1)]
    by (auto simp: write_area_buf intro: same_outside_mono)
next
  case (request hdr req r1 d1 m1)
  have 1: "same_outside (write_area ch) m m1"
    using blk_request_outside [OF request(3,4)] buf_area_split [OF request(1)]
    by (auto simp: write_area_buf intro: same_outside_mono)
  have "same_outside (write_area ch) m1 m'"
    using request(5) blk_finish_frame [of "last (ch_write ch)" _ _ d1 m1 r d' m'] buf_area_split [OF request(1)]
    by (auto simp: write_area_buf intro: same_outside_mono)
  with 1 show ?thesis by (rule same_outside_trans)
qed simp

lemma blk_process_invar:
  assumes "blk_process B env qi ch (d, m) = (r, d', m')" and "blk_invar d"
  shows "blk_invar d'"
  using assms(1)
proof (cases rule: blk_process_cases)
  case (request hdr req r1 d1 m1)
  then show ?thesis using blk_request_frame [OF request(3,4) assms(2)] by (auto dest: blk_finish_frame)
qed (use assms(2) in \<open>auto dest: blk_finish_frame\<close>)

lemma buf_total_last: "bufs \<noteq> [] \<Longrightarrow> buf_total bufs = buf_total (butlast bufs) + snd (last bufs)"
  by (subst append_butlast_last_id [symmetric]) (simp_all del: append_butlast_last_id)

lemma unat_word_of_nat_le: "unat (word_of_nat n :: 'a::len word) \<le> n"
  by (simp add: unat_of_nat take_bit_eq_mod)

lemma blk_finish_len:
  "blk_finish s b n w = (Inr x, w') \<Longrightarrow> n = Inr x \<and> 1 \<le> snd s"
  by (auto simp: blk_finish_def put_status_def split: if_splits)

lemma blk_request_len:
  assumes "blk_request B env hdr data bufs = Some req" and "req (d, m) = (Inr n, d', m')"
  shows "unat n \<le> buf_total bufs"
  using assms unat_word_of_nat_le [of "buf_total bufs", where 'a = 32]
  by (auto simp: blk_request_def blk_read_def Let_def res_simps
      split: if_splits prod.splits sum.splits)

lemma blk_process_len:
  assumes "blk_process B env qi ch (d, m) = (Inr n, d', m')"
  shows "unat n \<le> buf_total (ch_write ch)"
  using assms
proof (cases rule: blk_process_cases)
  case (request hdr req r1 d1 m1)
  from request(5) consider n1 where "r1 = Inr n1" "add_ov n1 1 = Inr n" "1 \<le> snd (last (ch_write ch))"
    | "n = 1" "1 \<le> snd (last (ch_write ch))"
    by (auto dest: blk_finish_len)
  then show ?thesis
  proof cases
    case 1
    then have "unat n = unat n1 + 1" by (auto simp: res_simps dest: checked_add_SomeD)
    with 1 blk_request_len [OF request(3), of d m n1 d1 m1] request(4) buf_total_last [OF request(1)] show ?thesis by auto
  next
    case 2
    with buf_total_last [OF request(1)] show ?thesis by simp
  qed
next
  case unsupported
  with buf_total_last [OF unsupported(1)] show ?thesis by (auto dest: blk_finish_len)
qed simp

lemma disk_offset_no_ub: "disk_offset d s n \<noteq> Inl UndefinedBehaviour"
  by (auto simp: disk_offset_def res_simps split: option.splits if_splits)

lemma blk_read_bufs_no_ub: "blk_read_bufs env bufs off w \<noteq> (Inl UndefinedBehaviour, w')"
  by (induction env bufs off w rule: blk_read_bufs.induct)
    (auto simp: read_exact_at_def Let_def res_simps split: prod.splits sum.splits if_splits disk_outcome.splits)

lemma blk_process_no_ub: "blk_process B env qi ch (d, m) \<noteq> (Inl UndefinedBehaviour, d', m')"
proof
  assume "blk_process B env qi ch (d, m) = (Inl UndefinedBehaviour, d', m')"
  then show False
  proof (cases rule: blk_process_cases)
    case (request hdr req r1 d1 m1)
    have "r1 \<noteq> Inl UndefinedBehaviour"
      using request(3,4) disk_offset_no_ub blk_read_bufs_no_ub
      by (fastforce simp: blk_request_def blk_read_def blk_write_def write_all_at_def sync_data_def
          Let_def then_op_def split: if_splits prod.splits sum.splits disk_outcome.splits)
    with request(5) show False
      by (auto simp: blk_finish_def put_status_def res_simps split: sum.splits if_splits)
  qed (auto simp: blk_finish_def put_status_def split: sum.splits if_splits)
qed

interpretation blk: virtio_device "blk_ops B env" blk_invar for B env
proof
  fix qi ch d m r d' m' n
  show "op_process (blk_ops B env) qi ch (d, m) = (r, d', m') \<Longrightarrow> same_outside (write_area ch) m m'"
    by (simp add: blk_ops_def blk_process_frame)
  show "op_process (blk_ops B env) qi ch (d, m) = (Inr n, d', m') \<Longrightarrow>
      unat n \<le> sum_list (map snd (ch_write ch))"
    using blk_process_len [of B env qi ch d m n d' m'] by (simp add: blk_ops_def buf_total_def)
  show "blk_invar d \<Longrightarrow> op_process (blk_ops B env) qi ch (d, m) = (r, d', m') \<Longrightarrow> blk_invar d'"
    by (simp add: blk_ops_def blk_process_invar)
  show "op_process (blk_ops B env) qi ch (d, m) \<noteq> (Inl UndefinedBehaviour, d', m')"
    by (simp add: blk_ops_def blk_process_no_ub)
  fix off data rc data'
  assume "op_read_config (blk_ops B env) off (d, data) = (rc, d', data')"
  then show "length data' = length data" and "blk_invar d \<Longrightarrow> blk_invar d'"
    by (auto simp: blk_ops_def blk_read_config_def write_le32_def splice_at_def Let_def
        split: if_splits sum.splits)
qed (auto simp: blk_ops_def blk_queue_num_max_def)

section \<open>Requests that succeed\<close>

abbreviation (input) disk_ok :: disk_env where "disk_ok \<equiv> \<lambda>_ _. DiskOk"

lemma read_exact_at_ok:
  assumes "off + n \<le> length (blk_disk d)"
  shows "\<exists>d'. read_exact_at disk_ok off n d = (Inr (), take n (drop off (blk_disk d)), d') \<and>
    blk_disk d' = blk_disk d \<and> blk_capacity d' = blk_capacity d"
  using assms by (auto simp: read_exact_at_def Let_def)

lemma blk_read_bufs_ok:
  assumes "unat off + buf_total bufs \<le> length (blk_disk d)" and "unat off + buf_total bufs < 2 ^ 64"
  shows "\<exists>d'. blk_read_bufs disk_ok bufs off (d, m) =
      (Inr (), d', scatter bufs (take (buf_total bufs) (drop (unat off) (blk_disk d))) m) \<and>
    blk_disk d' = blk_disk d \<and> blk_capacity d' = blk_capacity d"
  using assms
proof (induction bufs arbitrary: off d m)
  case (Cons s bufs)
  obtain p n where s: "s = (p, n)" by (cases s)
  let ?bs = "take n (drop (unat off) (blk_disk d))"
  obtain d1 where rd: "read_exact_at disk_ok (unat off) n d = (Inr (), ?bs, d1)"
    and d1: "blk_disk d1 = blk_disk d" "blk_capacity d1 = blk_capacity d"
    using read_exact_at_ok [of "unat off" n d] Cons.prems by (auto simp: s)
  have n: "unat (word_of_nat n :: u64) = n"
    using Cons.prems(2) by (simp add: s unat_of_nat take_bit_nat_eq_self)
  have add: "add_ov off (word_of_nat n) = Inr (off + word_of_nat n)"
    and off: "unat (off + word_of_nat n) = unat off + n"
    using Cons.prems(2) by (simp_all add: s n checked_add_def unat_add_no_overflow)
  obtain d2 where "blk_read_bufs disk_ok bufs (off + word_of_nat n) (d1, ram_write p ?bs m) =
      (Inr (), d2, scatter bufs (take (buf_total bufs) (drop (unat off + n) (blk_disk d))) (ram_write p ?bs m))"
    "blk_disk d2 = blk_disk d" "blk_capacity d2 = blk_capacity d"
    using Cons.IH [of "off + word_of_nat n" d1 "ram_write p ?bs m"] Cons.prems d1 by (auto simp: s off)
  moreover have "drop n (take (n + buf_total bufs) (drop (unat off) (blk_disk d))) =
      take (buf_total bufs) (drop (unat off + n) (blk_disk d))"
    by (simp add: drop_take add.commute)
  moreover have "take n (take (n + buf_total bufs) (drop (unat off) (blk_disk d))) = ?bs" by simp
  ultimately show ?case using rd add by (simp add: s)
qed simp

definition blk_header :: "blk_abi \<Rightarrow> desc_chain \<Rightarrow> blk_outhdr option" where
  "blk_header B ch = new_from (sz_outhdr B) (dec_outhdr B) (ch_read ch) 0"

definition blk_data :: "blk_abi \<Rightarrow> desc_chain \<Rightarrow> u8 list" where
  "blk_data B ch = drop (sz_outhdr B) (ch_read ch)"

definition status_byte :: "ram \<Rightarrow> desc_chain \<Rightarrow> u8" where
  "status_byte m ch = (case last (ch_write ch) of ((i, off), n) \<Rightarrow> m i off)"

definition has_status :: "desc_chain \<Rightarrow> bool" where
  "has_status ch \<longleftrightarrow> ch_write ch \<noteq> [] \<and> 1 \<le> snd (last (ch_write ch))"

lemma blk_finish_ok:
  assumes "has_status ch" and "blk_finish (last (ch_write ch)) b n (d, m) = w"
  shows "w = (n, d, ram_write (fst (last (ch_write ch))) [b] m)"
    "status_byte (ram_write (fst (last (ch_write ch))) [b] m) ch = b"
  using assms
  by (auto simp: has_status_def blk_finish_def put_status_def status_byte_def ram_write_def split: prod.splits)

lemma blk_read_ok:
  assumes "sector_ok d s (buf_total bufs)" and "blk_invar d"
  shows "\<exists>d'. blk_read disk_ok s bufs (d, m) = (Inr (word_of_nat (buf_total bufs)), d',
      scatter bufs (take (buf_total bufs) (drop (unat s * 512) (blk_disk d))) m) \<and>
    blk_disk d' = blk_disk d \<and> blk_capacity d' = blk_capacity d"
proof -
  have b: "unat s * 512 + buf_total bufs \<le> length (blk_disk d)" "unat s * 512 + buf_total bufs < 2 ^ 64"
    using assms by (auto simp: sector_ok_def blk_invar_def)
  have "disk_offset d s (buf_total bufs) = Inr (s * 512)" using assms(1) by (simp add: disk_offset_Inr_iff)
  then show ?thesis
    using blk_read_bufs_ok [of "s * 512" bufs d m] b sector_ok_offset [OF assms(1)]
    by (auto simp: blk_read_def Let_def then_op_def)
qed

lemma blk_write_ok:
  assumes "sector_ok d s (length data)" and "blk_invar d"
  shows "\<exists>d'. blk_write disk_ok s data d = (Inr (), d') \<and>
    blk_disk d' = put_bytes (unat s * 512) data (blk_disk d) \<and> blk_capacity d' = blk_capacity d"
proof -
  have "disk_offset d s (length data) = Inr (s * 512)" using assms(1) by (simp add: disk_offset_Inr_iff)
  then show ?thesis
    using sector_ok_offset [OF assms(1)]
    by (auto simp: blk_write_def write_all_at_def Let_def put_bytes_def)
qed

text \<open>What is read back over sectors just written is the data.\<close>

lemma take_put_bytes:
  assumes "off + length bs \<le> length disk"
  shows "take (length bs) (drop off (put_bytes off bs disk)) = bs"
  using put_bytes_in_range(2) [OF assms, of "length bs"] by simp

text \<open>
  C12. The disk keeps what is written to it. When the image's calls succeed, a write request
  whose data lies within the capacity, followed later by a read request of the same sectors into
  buffers that do not overlap, gives the guest exactly the data written, both with status OK;
  the used length counts the data and the status byte.
\<close>

theorem blk_write_then_read:
  assumes "documented_blk B" and "blk_invar d"
    and "blk_header B chw = Some \<lparr>oh_type = virtio_blk_t_out B, oh_sector = s\<rparr>"
    and "blk_header B chr = Some \<lparr>oh_type = virtio_blk_t_in B, oh_sector = s\<rparr>"
    and "sector_ok d s (length (blk_data B chw))" and "has_status chw" and "has_status chr"
    and "buf_total (butlast (ch_write chr)) = length (blk_data B chw)"
    and "buf_disjoint (ch_write chr)" and "length (blk_data B chw) + 1 < 2 ^ 32"
  shows "\<exists>d1 m1 d2 m2'. blk_process B disk_ok qi chw (d, m) = (Inr 1, d1, m1)
    \<and> status_byte m1 chw = ucast (virtio_blk_s_ok B)
    \<and> blk_process B disk_ok qi chr (d1, m2) =
        (Inr (word_of_nat (length (blk_data B chw)) + 1), d2, m2')
    \<and> gather m2' (butlast (ch_write chr)) = blk_data B chw
    \<and> status_byte m2' chr = ucast (virtio_blk_s_ok B)"
proof -
  let ?data = "blk_data B chw" and ?bufs = "butlast (ch_write chr)" and ?st = "last (ch_write chr)"
  have ne: "ch_write chw \<noteq> []" "ch_write chr \<noteq> []" using assms(6,7) by (simp_all add: has_status_def)
  have ty: "virtio_blk_t_out B \<noteq> virtio_blk_t_in B" using assms(1) by (auto simp: documented_blk_def)
  obtain d1 where w: "blk_write disk_ok s ?data d = (Inr (), d1)"
    and d1: "blk_disk d1 = put_bytes (unat s * 512) ?data (blk_disk d)" "blk_capacity d1 = blk_capacity d"
    using blk_write_ok [OF assms(5,2)] by auto
  have le: "unat s * 512 + length ?data \<le> length (blk_disk d)"
    using assms(2,5) by (simp add: sector_ok_def blk_invar_def)
  have inv1: "blk_invar d1" and so1: "sector_ok d1 s (buf_total ?bufs)"
    using assms(2,5,8) put_bytes_in_range(1) [OF le] by (simp_all add: blk_invar_def sector_ok_def d1)
  obtain d2 where r: "blk_read disk_ok s ?bufs (d1, m2) =
      (Inr (word_of_nat (length ?data)), d2, scatter ?bufs ?data m2)"
    using blk_read_ok [OF so1 inv1, of m2] take_put_bytes [OF le] by (auto simp: d1 assms(8))
  let ?m1 = "ram_write (fst (last (ch_write chw))) [ucast (virtio_blk_s_ok B)] m"
  let ?m2 = "ram_write (fst ?st) [ucast (virtio_blk_s_ok B)] (scatter ?bufs ?data m2)"
  have p1: "blk_process B disk_ok qi chw (d, m) = (Inr 1, d1, ?m1)"
    using assms(3) ne(1) ty w blk_finish_ok(1) [OF assms(6) refl]
    by (simp add: blk_process_def blk_header_def blk_request_def blk_data_def [symmetric] Let_def checked_add_def)
  have "unat (word_of_nat (length ?data) :: u32) = length ?data"
    using assms(10) by (simp add: unat_of_nat take_bit_nat_eq_self)
  then have add: "add_ov (word_of_nat (length ?data)) (1 :: u32) = Inr (word_of_nat (length ?data) + 1)"
    using assms(10) by (simp add: checked_add_def)
  have p2: "blk_process B disk_ok qi chr (d1, m2) = (Inr (word_of_nat (length ?data) + 1), d2, ?m2)"
    using assms(4) ne(2) r add blk_finish_ok(1) [OF assms(7) refl]
    by (simp add: blk_process_def blk_header_def blk_request_def Let_def)
  have bd: "buf_disjoint ?bufs" and st: "ptr_bytes (fst ?st) (snd ?st) \<inter> buf_area ?bufs = {}"
    using buf_disjoint_butlast [OF assms(9) ne(2)] by auto
  have "ptr_bytes (fst ?st) 1 \<inter> buf_area ?bufs = {}"
    using st ptr_bytes_mono [of 1 "snd ?st" "fst ?st"] assms(7) by (auto simp: has_status_def)
  then have "gather ?m2 ?bufs = gather (scatter ?bufs ?data m2) ?bufs"
    using gather_same_outside [OF ram_write_outside, of "fst ?st" "[ucast (virtio_blk_s_ok B)]" ?bufs] by simp
  also have "\<dots> = ?data"
    using gather_scatter [OF bd, of ?data m2] assms(8) by simp
  finally show ?thesis
    using p1 p2 blk_finish_ok(2) [OF assms(6) refl] blk_finish_ok(2) [OF assms(7) refl]
    by (intro exI [of _ d1] exI [of _ ?m1] exI [of _ d2] exI [of _ ?m2]) auto
qed

text \<open>Concrete requests for the witnesses: one sector of a two-sector image.\<close>

definition demo_disk :: virtio_blk where
  "demo_disk = \<lparr>blk_disk = replicate 1024 0, blk_log = [], blk_capacity = 2\<rparr>"

definition demo_header :: "u32 \<Rightarrow> u64 \<Rightarrow> u8 list" where
  "demo_header t s = to_le32 t @ to_le32 0 @ to_le64 s"

definition demo_write :: desc_chain where
  "demo_write = \<lparr>ch_head = 0, ch_read = demo_header 1 1 @ [7, 8, 9], ch_write = [((0, 0x100), 1)]\<rparr>"

definition demo_read :: desc_chain where
  "demo_read = \<lparr>ch_head = 0, ch_read = demo_header 0 1,
     ch_write = [((0, 0x200), 2), ((0, 0x300), 1), ((0, 0x100), 1)]\<rparr>"

lemma demo_blk_headers:
  "blk_header linux_blk demo_write = Some \<lparr>oh_type = 1, oh_sector = 1\<rparr>"
  "blk_header linux_blk demo_read = Some \<lparr>oh_type = 0, oh_sector = 1\<rparr>"
  "blk_data linux_blk demo_write = [7, 8, 9]"
  "has_status demo_write" "has_status demo_read" "blk_invar demo_disk"
  by (simp_all add: blk_header_def blk_data_def demo_write_def demo_read_def demo_header_def
      new_from_def linux_blk_def has_status_def blk_invar_def demo_disk_def to_le32_def to_le64_def
      from_le32_def from_le64_def le_bytes_numeral)

theorem blk_write_then_read_witness:
  "\<exists>d1 m1 d2 m2'. blk_process linux_blk disk_ok 0 demo_write (demo_disk, demo_ram) = (Inr 1, d1, m1) \<and>
     blk_process linux_blk disk_ok 0 demo_read (d1, m1) = (Inr 4, d2, m2') \<and>
     gather m2' (butlast (ch_write demo_read)) = [7, 8, 9]"
proof -
  have B: "virtio_blk_t_out linux_blk = 1" "virtio_blk_t_in linux_blk = 0" by (simp_all add: linux_blk_def)
  have so: "sector_ok demo_disk 1 (length (blk_data linux_blk demo_write))"
    by (simp add: demo_blk_headers(3)) (simp add: sector_ok_def demo_disk_def)
  have bt: "buf_total (butlast (ch_write demo_read)) = length (blk_data linux_blk demo_write)"
    by (simp add: demo_blk_headers(3)) (simp add: demo_read_def)
  have bd: "buf_disjoint (ch_write demo_read)" by (auto simp: demo_read_def ptr_bytes_def)
  obtain d1 m1 where 1: "blk_process linux_blk disk_ok 0 demo_write (demo_disk, demo_ram) = (Inr 1, d1, m1)"
    using blk_write_then_read [OF documented_linux_blk demo_blk_headers(6) demo_blk_headers(1) [folded B]
        demo_blk_headers(2) [folded B] so demo_blk_headers(4,5) bt bd, of 0 demo_ram demo_ram]
    by (auto simp: demo_blk_headers(3))
  from blk_write_then_read [OF documented_linux_blk demo_blk_headers(6) demo_blk_headers(1) [folded B]
        demo_blk_headers(2) [folded B] so demo_blk_headers(4,5) bt bd, of 0 demo_ram m1] 1
  show ?thesis by (auto simp: demo_blk_headers(3))
qed

section \<open>Requests that are refused\<close>

lemma blk_read_refused:
  assumes "\<not> sector_ok d s (buf_total bufs)" and "unat (blk_capacity d) * 512 < 2 ^ 64"
    and "buf_total bufs < 2 ^ 64"
  shows "blk_read env s bufs (d, m) = (Inl (IoError Other), d, m)"
proof -
  have "\<And>off. disk_offset d s (buf_total bufs) \<noteq> Inr off" using assms(1) by (simp add: disk_offset_Inr_iff)
  then obtain e where e: "disk_offset d s (buf_total bufs) = Inl e"
    by (cases "disk_offset d s (buf_total bufs)") auto
  with disk_offset_Inl [OF e assms(2)] assms(3) show ?thesis by (simp add: blk_read_def)
qed

lemma blk_write_refused:
  assumes "\<not> sector_ok d s (length data)" and "unat (blk_capacity d) * 512 < 2 ^ 64"
  shows "blk_write env s data d = (Inl (IoError Other), d)"
proof -
  have "\<And>off. disk_offset d s (length data) \<noteq> Inr off" using assms(1) by (simp add: disk_offset_Inr_iff)
  then obtain e where e: "disk_offset d s (length data) = Inl e"
    by (cases "disk_offset d s (length data)") auto
  with disk_offset_Inl [OF e assms(2)] show ?thesis by (simp add: blk_write_def)
qed

text \<open>
  C32. A read or a write that reaches past the end of the disk is refused and harmless: whatever
  the sector number (also one whose byte offset overflows), the guest gets the status IOERR and
  a used length of 1, the file is not even called, and guest RAM changes in the status byte only.
\<close>

theorem blk_rejects_out_of_range:
  assumes "documented_blk B" and "blk_header B ch = Some hdr" and "has_status ch"
    and "unat (blk_capacity d) * 512 < 2 ^ 64" and "buf_total (ch_write ch) < 2 ^ 64"
    and "oh_type hdr = virtio_blk_t_in B \<and> \<not> sector_ok d (oh_sector hdr) (buf_total (butlast (ch_write ch)))
       \<or> oh_type hdr = virtio_blk_t_out B \<and> \<not> sector_ok d (oh_sector hdr) (length (blk_data B ch))"
  shows "\<exists>m'. blk_process B env qi ch (d, m) = (Inr 1, d, m')
    \<and> status_byte m' ch = ucast (virtio_blk_s_ioerr B)
    \<and> same_outside (ptr_bytes (fst (last (ch_write ch))) 1) m m'"
proof -
  let ?m' = "ram_write (fst (last (ch_write ch))) [ucast (virtio_blk_s_ioerr B)] m"
  have ne: "ch_write ch \<noteq> []" using assms(3) by (simp add: has_status_def)
  have ty: "virtio_blk_t_out B \<noteq> virtio_blk_t_in B" using assms(1) by (auto simp: documented_blk_def)
  have bt: "buf_total (butlast (ch_write ch)) < 2 ^ 64" using assms(5) buf_total_last [OF ne] by simp
  note fin = blk_finish_ok [OF assms(3) refl, of "ucast (virtio_blk_s_ioerr B)"]
  have "blk_process B env qi ch (d, m) = (Inr 1, d, ?m')"
    using assms(6)
  proof
    assume "oh_type hdr = virtio_blk_t_in B \<and>
      \<not> sector_ok d (oh_sector hdr) (buf_total (butlast (ch_write ch)))"
    then show ?thesis
      using assms(2) ne fin(1) blk_read_refused [OF _ assms(4) bt]
      by (simp add: blk_process_def blk_header_def blk_request_def Let_def)
  next
    assume "oh_type hdr = virtio_blk_t_out B \<and> \<not> sector_ok d (oh_sector hdr) (length (blk_data B ch))"
    then show ?thesis
      using assms(2) ne ty fin(1) blk_write_refused [OF _ assms(4), of "oh_sector hdr" "blk_data B ch" env]
      by (simp add: blk_process_def blk_header_def blk_request_def blk_data_def [symmetric] Let_def)
  qed
  then show ?thesis
    using fin(2) ram_write_outside [of "fst (last (ch_write ch))" "[ucast (virtio_blk_s_ioerr B)]" m]
    by auto
qed

theorem blk_rejects_out_of_range_witness:
  "\<exists>m'. blk_process linux_blk disk_ok 0 (demo_write\<lparr>ch_read := demo_header 1 0x7fffffffffffff @ [7]\<rparr>)
       (demo_disk, demo_ram) = (Inr 1, demo_disk, m') \<and> m' 0 0x100 = 1"
proof -
  let ?ch = "demo_write\<lparr>ch_read := demo_header 1 0x7fffffffffffff @ [7]\<rparr>"
  have h: "blk_header linux_blk ?ch = Some \<lparr>oh_type = 1, oh_sector = 0x7fffffffffffff\<rparr>"
    and st: "has_status ?ch" and bt: "buf_total (ch_write ?ch) < 2 ^ 64"
    by (simp_all add: blk_header_def demo_write_def demo_header_def new_from_def linux_blk_def has_status_def
        to_le32_def to_le64_def from_le32_def from_le64_def le_bytes_numeral)
  have cap: "unat (blk_capacity demo_disk) * 512 < 2 ^ 64" by (simp add: demo_disk_def)
  have "\<not> sector_ok demo_disk 0x7fffffffffffff n" for n by (simp add: sector_ok_def demo_disk_def)
  moreover have "virtio_blk_t_out linux_blk = 1" "virtio_blk_s_ioerr linux_blk = 1" by (simp_all add: linux_blk_def)
  ultimately show ?thesis
    using blk_rejects_out_of_range [OF documented_linux_blk h st cap bt, of disk_ok 0 demo_ram]
    by (auto simp: status_byte_def demo_write_def)
qed

text \<open>
  C13. Isolation. Whatever a request is, and however the calls on the image fail, the image keeps
  its size; the bytes it changes are those a write request names, within the capacity; and guest
  RAM changes in the chain's writable buffers only.
\<close>

theorem blk_isolation:
  assumes "blk_invar d" and "blk_process B env qi ch (d, m) = (r, d', m')"
  shows "length (blk_disk d') = length (blk_disk d) \<and> blk_capacity d' = blk_capacity d
    \<and> same_outside (write_area ch) m m'
    \<and> (\<forall>j. blk_disk d' ! j \<noteq> blk_disk d ! j \<longrightarrow>
         (\<exists>hdr. blk_header B ch = Some hdr \<and> oh_type hdr = virtio_blk_t_out B \<and>
            unat (oh_sector hdr) * 512 \<le> j \<and> j < unat (oh_sector hdr) * 512 + length (blk_data B ch) \<and>
            j < unat (blk_capacity d) * 512))"
proof -
  have "same_outside (write_area ch) m m'" by (rule blk_process_frame [OF assms(2)])
  moreover have "length (blk_disk d') = length (blk_disk d) \<and> blk_capacity d' = blk_capacity d \<and>
      (\<forall>j. blk_disk d' ! j \<noteq> blk_disk d ! j \<longrightarrow>
         (\<exists>hdr. blk_header B ch = Some hdr \<and> oh_type hdr = virtio_blk_t_out B \<and>
            unat (oh_sector hdr) * 512 \<le> j \<and> j < unat (oh_sector hdr) * 512 + length (blk_data B ch) \<and>
            j < unat (blk_capacity d) * 512))"
    using assms(2)
  proof (cases rule: blk_process_cases)
    case unsupported
    then show ?thesis by (auto dest: blk_finish_frame)
  next
    case (request hdr req r1 d1 m1)
    have d': "d' = d1" using request(5) by (auto dest: blk_finish_frame)
    consider (rd) "blk_disk d1 = blk_disk d" "blk_capacity d1 = blk_capacity d"
      | (wr) r2 where "oh_type hdr = virtio_blk_t_out B"
          "blk_write env (oh_sector hdr) (blk_data B ch) d = (r2, d1)"
      using request(3,4) blk_read_frame [of env "oh_sector hdr" "butlast (ch_write ch)" d m r1 d1 m1]
      by (auto simp: blk_request_def blk_data_def sync_data_def split: if_splits prod.splits)
    then show ?thesis
    proof cases
      case wr
      note fr = blk_write_frame [OF wr(2) assms(1)]
      have "unat (oh_sector hdr) * 512 \<le> j \<and> j < unat (oh_sector hdr) * 512 + length (blk_data B ch) \<and>
          j < unat (blk_capacity d) * 512" if ne: "blk_disk d1 ! j \<noteq> blk_disk d ! j" for j
      proof -
        have "sector_ok d (oh_sector hdr) (length (blk_data B ch))" using fr ne by auto
        moreover have "\<not> (j < unat (oh_sector hdr) * 512 \<or> unat (oh_sector hdr) * 512 + length (blk_data B ch) \<le> j)"
          using fr ne by blast
        ultimately show ?thesis by (simp add: sector_ok_def)
      qed
      with fr wr(1) request(2) show ?thesis by (simp add: d' blk_header_def)
    qed (simp add: d')
  qed simp
  ultimately show ?thesis by blast
qed

theorem blk_isolation_witness:
  "\<exists>r d' m'. blk_process linux_blk (\<lambda>_ _. DiskFails 2) 0 demo_write (demo_disk, demo_ram) = (r, d', m') \<and>
     length (blk_disk d') = 1024 \<and> blk_disk d' ! 0 = blk_disk demo_disk ! 0"
proof -
  obtain r d' m' where p:
    "blk_process linux_blk (\<lambda>_ _. DiskFails 2) 0 demo_write (demo_disk, demo_ram) = (r, d', m')"
    by (cases "blk_process linux_blk (\<lambda>_ _. DiskFails 2) 0 demo_write (demo_disk, demo_ram)")
  from blk_isolation [OF demo_blk_headers(6) this]
  have l: "length (blk_disk d') = length (blk_disk demo_disk)"
    and z: "blk_disk d' ! 0 \<noteq> blk_disk demo_disk ! 0 \<longrightarrow> (\<exists>hdr. blk_header linux_blk demo_write = Some hdr \<and>
      unat (oh_sector hdr) * 512 \<le> 0)" by blast+
  have "length (blk_disk demo_disk) = 1024" by (simp add: demo_disk_def)
  with l z p show ?thesis by (simp add: demo_blk_headers(1))
qed

end
