(* ===== verification/Byte_Fifo.thy ===== *)
theory Byte_Fifo
  imports Hearth_Prelude
begin

text \<open>
  The contract of a first-in first-out buffer, which the program relies on in three places:
  the i8042's output buffer with its queue, the 16550's receive queue and the virtio-net
  device's queue of frames. A provider gives its contents as a list.
\<close>

locale fifo =
  fixes contents :: "'s \<Rightarrow> 'a list"
    and enq :: "'a \<Rightarrow> 's \<Rightarrow> 's"
    and deq :: "'s \<Rightarrow> 'a option \<times> 's"
    and invar :: "'s \<Rightarrow> bool"
  assumes contents_enq: "invar s \<Longrightarrow> contents (enq a s) = contents s @ [a]"
    and invar_enq: "invar s \<Longrightarrow> invar (enq a s)"
    and deq_empty: "invar s \<Longrightarrow> contents s = [] \<Longrightarrow> fst (deq s) = None \<and> contents (snd (deq s)) = []"
    and deq_Cons: "invar s \<Longrightarrow> contents s = x # xs \<Longrightarrow>
      fst (deq s) = Some x \<and> contents (snd (deq s)) = xs"
    and invar_deq: "invar s \<Longrightarrow> invar (snd (deq s))"
begin

definition enq_all :: "'a list \<Rightarrow> 's \<Rightarrow> 's" where
  "enq_all xs s = foldl (\<lambda>t x. enq x t) s xs"

primrec deq_n :: "nat \<Rightarrow> 's \<Rightarrow> 'a option list \<times> 's" where
  "deq_n 0 s = ([], s)"
| "deq_n (Suc n) s = (let (x, t) = deq s; (xs, u) = deq_n n t in (x # xs, u))"

lemma enq_all_contents: "invar s \<Longrightarrow> contents (enq_all xs s) = contents s @ xs \<and> invar (enq_all xs s)"
  by (induction xs arbitrary: s) (auto simp: enq_all_def contents_enq invar_enq)

lemma deq_n_contents:
  assumes "invar s"
  shows "fst (deq_n n s) =
      map Some (take n (contents s)) @ replicate (n - length (contents s)) None \<and>
    contents (snd (deq_n n s)) = drop n (contents s) \<and> invar (snd (deq_n n s))"
  using assms
proof (induction n arbitrary: s)
  case (Suc n)
  obtain x t where d: "deq s = (x, t)" by fastforce
  have t: "invar t" using invar_deq [OF Suc.prems] d by simp
  obtain ys u where e: "deq_n n t = (ys, u)" by fastforce
  show ?case
  proof (cases "contents s")
    case Nil
    then have "x = None" "contents t = []" using deq_empty [OF Suc.prems] d by auto
    then show ?thesis using Suc.IH [OF t] Nil by (simp add: d e)
  next
    case (Cons y zs)
    then have "x = Some y" "contents t = zs" using deq_Cons [OF Suc.prems Cons] d by auto
    then show ?thesis using Suc.IH [OF t] Cons by (simp add: d e)
  qed
qed simp

lemma fifo_order:
  assumes "invar s" "contents s = []"
  shows "fst (deq_n (length xs) (enq_all xs s)) = map Some xs"
  using assms enq_all_contents [OF assms(1), of xs] deq_n_contents [of "enq_all xs s" "length xs"]
  by simp

end

end
