(* ===== verification/Vm_Control.thy ===== *)
theory Vm_Control
  imports Hearth_Prelude
begin

text \<open>
  \<open>VmControl\<close> of \<open>src/src/main.rs\<close>: the flags device threads and vcpu threads share, and the
  registry of vcpu threads that \<open>pthread_kill\<close> may be sent to. The signals sent are the log
  \<open>killed\<close>; each method holds the registry's lock, so it is one step. The \<open>port I/O\<close> exit
  record the x86 devices handle is here too.
\<close>

section \<open>The control block\<close>

type_synonym thread_id = nat

record vm_control =
  should_stop :: bool
  devices_pending :: bool
  vcpu_threads :: "thread_id list"
  killed :: "thread_id list"

definition vm_control_new :: vm_control where
  "vm_control_new =
     \<lparr>should_stop = False, devices_pending = False, vcpu_threads = [], killed = []\<rparr>"

definition ctl_stop :: "vm_control \<Rightarrow> vm_control" where
  "ctl_stop c = c\<lparr>should_stop := True, killed := killed c @ vcpu_threads c\<rparr>"

definition ctl_kick :: "vm_control \<Rightarrow> vm_control" where
  "ctl_kick c = c\<lparr>devices_pending := True,
     killed := killed c @ (case vcpu_threads c of [] \<Rightarrow> [] | t # _ \<Rightarrow> [t])\<rparr>"

definition take_devices_pending :: "vm_control \<Rightarrow> bool \<times> vm_control" where
  "take_devices_pending c = (devices_pending c, c\<lparr>devices_pending := False\<rparr>)"

definition register_vcpu_thread :: "thread_id \<Rightarrow> vm_control \<Rightarrow> vm_control" where
  "register_vcpu_thread t c = c\<lparr>vcpu_threads := vcpu_threads c @ [t]\<rparr>"

definition unregister_vcpu_thread :: "thread_id \<Rightarrow> vm_control \<Rightarrow> vm_control" where
  "unregister_vcpu_thread t c = c\<lparr>vcpu_threads := filter (\<lambda>u. u \<noteq> t) (vcpu_threads c)\<rparr>"

lemmas vm_control_defs =
  ctl_stop_def ctl_kick_def take_devices_pending_def register_vcpu_thread_def
  unregister_vcpu_thread_def

lemma ctl_stop_simps [simp]:
  "should_stop (ctl_stop c)" "devices_pending (ctl_stop c) = devices_pending c"
  "vcpu_threads (ctl_stop c) = vcpu_threads c"
  by (simp_all add: ctl_stop_def)

lemma ctl_kick_simps [simp]:
  "devices_pending (ctl_kick c)" "should_stop (ctl_kick c) = should_stop c"
  "vcpu_threads (ctl_kick c) = vcpu_threads c"
  by (simp_all add: ctl_kick_def)

section \<open>Port I/O exits\<close>

text \<open>
  The \<open>io\<close> member of \<open>kvm_run\<close>. Its direction is compared with two constants of the generated
  bindings only; they are the first two constructors. The bytes at \<open>data_offset\<close> are passed
  beside it, \<open>size * count\<close> of them.
\<close>

datatype io_direction = KVM_EXIT_IO_IN | KVM_EXIT_IO_OUT | KVM_EXIT_IO_other u8

record io_exit =
  io_direction :: io_direction
  io_size :: nat
  io_port :: u16
  io_count :: nat

text \<open>What KVM guarantees of a port I/O exit.\<close>

definition io_wf :: "io_exit \<Rightarrow> u8 list \<Rightarrow> bool" where
  "io_wf io data \<longleftrightarrow> io_size io \<in> {1, 2, 4} \<and> 1 \<le> io_count io \<and> length data = io_size io * io_count io"

lemma io_wf_nonempty: "io_wf io data \<Longrightarrow> data \<noteq> [] \<and> take (io_size io) data \<noteq> []"
  by (auto simp: io_wf_def)

text \<open>\<open>data[0]\<close> read and assigned.\<close>

definition data_get0 :: "u8 list \<Rightarrow> u8 res" where
  "data_get0 d = (case d of [] \<Rightarrow> Inl (Panicked IndexOutOfBounds) | b # _ \<Rightarrow> Inr b)"

definition data_set0 :: "u8 \<Rightarrow> u8 list \<Rightarrow> u8 list res" where
  "data_set0 b d = (case d of [] \<Rightarrow> Inl (Panicked IndexOutOfBounds) | _ # r \<Rightarrow> Inr (b # r))"

lemma data0_simps [simp]:
  "data_get0 (b # r) = Inr b" "data_set0 a (b # r) = Inr (a # r)"
  "data_get0 [] = Inl (Panicked IndexOutOfBounds)"
  "data_set0 a [] = Inl (Panicked IndexOutOfBounds)"
  by (simp_all add: data_get0_def data_set0_def)

end
