(* ===== verification/Virtio_Net.thy ===== *)
theory Virtio_Net
  imports Virtio_Mmio Guest_Buffers Byte_Fifo Vm_Control
begin

text \<open>
  The virtio network device, \<open>src/src/virtio/net.rs\<close>: frames from the tap wait in a bounded queue
  until the guest posts receive buffers; frames of the guest go to the tap. The thread that
  reads the tap and the vcpu thread share the queue under its lock, so each locked section is a
  step of its own. The layout of the header and the device id are of generated bindings, the
  argument \<open>N\<close>; whether a write to the tap succeeds is an argument that sees the frames sent.
\<close>

section \<open>Constants and state\<close>

abbreviation (input) VIRTIO_NET_QUEUE_RX :: u32 where "VIRTIO_NET_QUEUE_RX \<equiv> 0"
abbreviation (input) VIRTIO_NET_QUEUE_TX :: u32 where "VIRTIO_NET_QUEUE_TX \<equiv> 1"
abbreviation (input) VIRTIO_NET_HDR_SIZE :: nat where "VIRTIO_NET_HDR_SIZE \<equiv> 12"
abbreviation (input) TAP_FRAME_MAX :: nat where "TAP_FRAME_MAX \<equiv> 65536 + VIRTIO_NET_HDR_SIZE"
abbreviation (input) RX_PENDING_MAX :: nat where "RX_PENDING_MAX \<equiv> 256"

record net_abi =
  virtio_id_net :: u32
  sz_net_hdr :: nat

definition linux_net :: net_abi where
  "linux_net = \<lparr>virtio_id_net = 1, sz_net_hdr = 12\<rparr>"

type_synonym frame = "u8 list"

record virtio_net =
  net_rx_pending :: "frame list"
  net_sent :: "frame list"

text \<open>\<open>env sent frame\<close>: after the frames of \<open>sent\<close>, the tap takes all of \<open>frame\<close>.\<close>

type_synonym tap_env = "frame list \<Rightarrow> frame \<Rightarrow> bool"

definition virtio_net_new :: virtio_net where
  "virtio_net_new = \<lparr>net_rx_pending = [], net_sent = []\<rparr>"

text \<open>
  \<open>open_tap\<close>: the outcomes of opening the device and of the two ioctls are arguments; the name
  must fit in \<open>ifr_name\<close> with its terminating zero, whose size is the generated \<open>name_max\<close>.
\<close>

definition open_tap :: "nat \<Rightarrow> bool \<Rightarrow> bool \<Rightarrow> bool \<Rightarrow> u8 list \<Rightarrow> u8 list res" where
  "open_tap name_max opened set_iff set_hdr name =
     (if \<not> opened then Inl (IoError OsError)
      else if name_max \<le> length name then Inl (IoError Other)
      else if \<not> set_iff then Inl (IoError OsError)
      else if \<not> set_hdr then Inl (IoError OsError)
      else Inr (name @ replicate (name_max - length name) 0))"

section \<open>The receive thread\<close>

definition net_push :: "frame \<Rightarrow> virtio_net \<Rightarrow> virtio_net" where
  "net_push f d = d\<lparr>net_rx_pending := net_rx_pending d @ [f]\<rparr>"

definition net_pop :: "virtio_net \<Rightarrow> frame option \<times> virtio_net" where
  "net_pop d = (case net_rx_pending d of [] \<Rightarrow> (None, d) | f # fs \<Rightarrow> (Some f, d\<lparr>net_rx_pending := fs\<rparr>))"

text \<open>What \<open>tap.read\<close> returns.\<close>

datatype tap_read = TapFrame frame | TapInterrupted | TapError

text \<open>
  Where the thread is: before the read, before the kick (it has released the lock and found the
  queue newly non-empty), or gone.
\<close>

datatype rx_thread = RxReading | RxKicking | RxGone

definition rx_read_step :: "tap_read \<Rightarrow> virtio_net \<Rightarrow> rx_thread \<times> virtio_net" where
  "rx_read_step r d =
     (case r of
        TapInterrupted \<Rightarrow> (RxReading, d)
      | TapError \<Rightarrow> (RxGone, d)
      | TapFrame f \<Rightarrow>
          if RX_PENDING_MAX \<le> length (net_rx_pending d) then (RxReading, d)
          else (let d' = net_push f d
                in (if length (net_rx_pending d') = 1 then RxKicking else RxReading, d')))"

definition rx_kick_step :: "vm_control \<Rightarrow> rx_thread \<times> vm_control" where
  "rx_kick_step c = (RxReading, ctl_kick c)"

section \<open>Requests\<close>

text \<open>The loop over the writable buffers: how much was copied, and guest RAM.\<close>

fun rx_copy :: "buffers \<Rightarrow> frame \<Rightarrow> nat \<Rightarrow> ram \<Rightarrow> nat \<times> ram" where
  "rx_copy [] f copied m = (copied, m)"
| "rx_copy ((p, n) # bufs) f copied m =
     (if copied = length f then (copied, m)
      else let len = min n (length f - copied)
           in rx_copy bufs f (copied + len) (ram_write p (take len (drop copied f)) m))"

definition net_process ::
    "net_abi \<Rightarrow> tap_env \<Rightarrow> u32 \<Rightarrow> desc_chain \<Rightarrow> (virtio_net \<times> ram, u32) oper" where
  "net_process N env qi ch = (\<lambda>(d, m).
     if qi = VIRTIO_NET_QUEUE_RX then
       (case net_pop d of
          (None, d') \<Rightarrow> (Inr 0, d', m)
        | (Some f, d') \<Rightarrow>
            (case rx_copy (ch_write ch) f 0 m of (copied, m') \<Rightarrow> (Inr (word_of_nat copied), d', m')))
     else if qi = VIRTIO_NET_QUEUE_TX then
       (case new_from (sz_net_hdr N) (\<lambda>_. ()) (ch_read ch) 0 of
          None \<Rightarrow> (Inl (IoError Other), d, m)
        | Some _ \<Rightarrow>
            (Inr 0, (if env (net_sent d) (ch_read ch) then d\<lparr>net_sent := net_sent d @ [ch_read ch]\<rparr> else d), m))
     else (Inr 0, d, m))"

definition net_can_process :: "virtio_net \<Rightarrow> u32 \<Rightarrow> bool" where
  "net_can_process d q \<longleftrightarrow> q \<noteq> VIRTIO_NET_QUEUE_RX \<or> net_rx_pending d \<noteq> []"

definition net_features :: "u32 \<Rightarrow> u32" where
  "net_features sel = (if sel = 0 then 0x0 else 0x0)"

definition net_queue_num_max :: "u32 \<Rightarrow> u32" where
  "net_queue_num_max q = (if 0 \<le> q \<and> q \<le> 1 then 256 else 0)"

definition net_read_config :: "u32 \<Rightarrow> (virtio_net \<times> u8 list, unit) oper" where
  "net_read_config off = (\<lambda>(d, data). (Inr (), d, data))"

definition net_ops :: "net_abi \<Rightarrow> tap_env \<Rightarrow> virtio_net virtio_ops" where
  "net_ops N env =
     \<lparr>op_device_id = (\<lambda>d. virtio_id_net N), op_features = (\<lambda>d. net_features),
      op_queue_num_max = (\<lambda>d. net_queue_num_max), op_read_config = net_read_config,
      op_process = net_process N env, op_can_process = net_can_process\<rparr>"

section \<open>Contracts\<close>

interpretation net_fifo: fifo net_rx_pending net_push net_pop "\<lambda>_. True"
  by unfold_locales (auto simp: net_push_def net_pop_def split: list.splits)

lemma rx_copy_scatter:
  assumes "copied \<le> length f"
  shows "rx_copy bufs f copied m =
    (copied + min (buf_total bufs) (length f - copied),
     scatter bufs (take (buf_total bufs) (drop copied f)) m)"
  using assms
proof (induction bufs arbitrary: copied m)
  case (Cons s bufs)
  obtain p n where s: "s = (p, n)" by (cases s)
  show ?case
  proof (cases "copied = length f")
    case False
    let ?len = "min n (length f - copied)"
    have t: "take n (take (n + buf_total bufs) (drop copied f)) = take ?len (drop copied f)"
      "drop n (take (n + buf_total bufs) (drop copied f)) =
       take (buf_total bufs) (drop (copied + ?len) f)"
      using Cons.prems by (simp_all add: drop_take min_def add.commute)
    have "copied + ?len \<le> length f" using Cons.prems by simp
    note IH = Cons.IH [OF this, of "ram_write p (take ?len (drop copied f)) m"]
    have a: "copied + ?len + min (buf_total bufs) (length f - (copied + ?len)) =
        copied + min (n + buf_total bufs) (length f - copied)"
      by (auto simp: min_def)
    from False have "rx_copy (s # bufs) f copied m =
        rx_copy bufs f (copied + ?len) (ram_write p (take ?len (drop copied f)) m)"
      by (simp only: s rx_copy.simps if_False Let_def)
    then show ?thesis by (simp only: IH a) (simp only: s scatter.simps t buf_simps snd_conv)
  qed (simp add: s)
qed simp

lemma net_process_frame:
  assumes "net_process N env qi ch (d, m) = (r, d', m')"
  shows "same_outside (write_area ch) m m'"
  using assms scatter_outside [of "ch_write ch"]
  by (auto simp: net_process_def net_pop_def rx_copy_scatter write_area_def buf_area_def
      split: if_splits option.splits list.splits)

lemma net_process_len:
  assumes "net_process N env qi ch (d, m) = (Inr n, d', m')"
  shows "unat n \<le> buf_total (ch_write ch)"
proof -
  have "unat (word_of_nat k :: u32) \<le> k" for k by (simp add: unat_of_nat take_bit_eq_mod)
  then have "unat (word_of_nat (min b k) :: u32) \<le> b" for b k
    using le_trans min.cobounded1 by blast
  with assms show ?thesis
    by (auto simp: net_process_def net_pop_def rx_copy_scatter split: if_splits option.splits list.splits)
qed

interpretation net: virtio_device "net_ops N env" "\<lambda>_. True" for N env
proof
  fix qi ch d m r d' m' n
  show "op_process (net_ops N env) qi ch (d, m) = (r, d', m') \<Longrightarrow> same_outside (write_area ch) m m'"
    by (simp add: net_ops_def net_process_frame)
  show "op_process (net_ops N env) qi ch (d, m) = (Inr n, d', m') \<Longrightarrow>
      unat n \<le> sum_list (map snd (ch_write ch))"
    using net_process_len [of N env qi ch d m n d' m'] by (simp add: net_ops_def buf_total_def)
  show "op_process (net_ops N env) qi ch (d, m) \<noteq> (Inl UndefinedBehaviour, d', m')"
    by (auto simp: net_ops_def net_process_def split: prod.splits option.splits)
qed (auto simp: net_ops_def net_queue_num_max_def net_read_config_def word_le_nat_alt)

section \<open>Delivery\<close>

text \<open>
  C33. Receiving delivers the oldest waiting frame: the receive buffers (apart from each other)
  then hold its first bytes, in order, as many as fit; the used length says how many; the frame
  leaves the queue and the others stay in order.
\<close>

theorem net_receives_oldest:
  assumes "net_rx_pending d = f # fs" and "buf_disjoint (ch_write ch)" and "length f < 2 ^ 32"
  shows "\<exists>m'. net_process N env VIRTIO_NET_QUEUE_RX ch (d, m) =
      (Inr (word_of_nat (min (buf_total (ch_write ch)) (length f))), d\<lparr>net_rx_pending := fs\<rparr>, m')
    \<and> take (min (buf_total (ch_write ch)) (length f)) (gather m' (ch_write ch)) =
        take (buf_total (ch_write ch)) f
    \<and> same_outside (write_area ch) m m'
    \<and> unat (word_of_nat (min (buf_total (ch_write ch)) (length f)) :: u32) =
        min (buf_total (ch_write ch)) (length f)"
proof -
  let ?t = "take (buf_total (ch_write ch)) f"
  let ?m' = "scatter (ch_write ch) ?t m"
  have p: "net_process N env VIRTIO_NET_QUEUE_RX ch (d, m) =
      (Inr (word_of_nat (min (buf_total (ch_write ch)) (length f))), d\<lparr>net_rx_pending := fs\<rparr>, ?m')"
    using assms(1) by (simp add: net_process_def net_pop_def rx_copy_scatter)
  have "take (length ?t) (gather ?m' (ch_write ch)) = ?t"
    by (rule gather_scatter [OF assms(2)]) simp
  moreover have "length ?t = min (buf_total (ch_write ch)) (length f)" by (simp add: min.commute)
  moreover have "unat (word_of_nat (min (buf_total (ch_write ch)) (length f)) :: u32) =
      min (buf_total (ch_write ch)) (length f)"
    using assms(3) by (simp add: unat_of_nat take_bit_nat_eq_self)
  ultimately show ?thesis using p net_process_frame [OF p] by auto
qed

theorem net_receives_oldest_witness:
  "\<exists>m'. net_process linux_net (\<lambda>_ _. True) 0
      \<lparr>ch_head = 0, ch_read = [], ch_write = [((0, 0x10), 2), ((0, 0x20), 2)]\<rparr>
      (\<lparr>net_rx_pending = [[1, 2, 3], [4]], net_sent = []\<rparr>, \<lambda>_ _. 0) =
      (Inr 3, \<lparr>net_rx_pending = [[4]], net_sent = []\<rparr>, m') \<and> m' 0 0x20 = 3"
proof -
  let ?ch = "\<lparr>ch_head = 0, ch_read = [], ch_write = [((0, 0x10), 2), ((0, 0x20), 2)]\<rparr>"
  let ?d = "\<lparr>net_rx_pending = [[1, 2, 3], [4]], net_sent = []\<rparr>"
  have "buf_disjoint (ch_write ?ch)" by (auto simp: ptr_bytes_def)
  from net_receives_oldest [of ?d "[1, 2, 3]" "[[4]]" ?ch linux_net "\<lambda>_ _. True" "\<lambda>_ _. 0", OF _ this]
  obtain m' where p: "net_process linux_net (\<lambda>_ _. True) 0 ?ch (?d, \<lambda>_ _. 0) =
      (Inr 3, \<lparr>net_rx_pending = [[4]], net_sent = []\<rparr>, m')"
    and g: "take 3 (gather m' (ch_write ?ch)) = [1, 2, 3]" by auto
  have "ram_read m' (0, 0x10) 2 = [m' 0 0x10, m' 0 0x11]" "ram_read m' (0, 0x20) 2 = [m' 0 0x20, m' 0 0x21]"
    by (simp_all add: ram_read_step)
  with g have "m' 0 0x20 = 3" by simp
  with p show ?thesis by blast
qed

end
