(* ===== verification/Virtio_Notify.thy ===== *)
theory Virtio_Notify
  imports Virtio_Blk Virtio_Net
begin

text \<open>
  Transport, queue and devices together: what a notification does with the block and the network
  device behind it. The theorems about \<open>queue_notify\<close> of \<open>src/src/virtio/mmio.rs\<close> are obtained
  from the locale \<open>virtio_device\<close> through its interpretations \<open>blk\<close> and \<open>net\<close>.
\<close>

section \<open>Virtio: queue notifications\<close>

lemma queue_notify_ready:
  assumes "length (vio_queue v) = 2" and "unat qi < 2" and "vq_ready (vio_queue v ! unat qi) \<noteq> 0"
    and "driver_ok V mem m (vio_queue v ! unat qi) p u"
  shows "queue_notify A V env mem ops qi (v, m, log) = notify_loop A V env mem ops qi (v, m, log)"
  using assms by (simp add: queue_notify_def driver_ok_def)

text \<open>
  C1. A notification of the block device's queue always ends, and serves everything: with a
  driver that keeps its areas apart, the loop terminates without undefined behaviour, and unless
  a fault stops the VM every pending chain has been completed, once each and in the order of the
  available ring: their heads are in the used ring one after the other, its index has advanced
  by their number, no chain is pending, and the guest got an interrupt for each.
\<close>

theorem blk_notify_completes:
  assumes "documented_vring V" and "regions_aligned mem" and "driver_ok V mem m (vio_queue v ! 0) p u"
    and "length (vio_queue v) = 2" and "vq_ready (vio_queue v ! 0) \<noteq> 0" and "blk_invar (vio_device v)"
    and "hs = avail_pending V m p (vio_queue v ! 0)"
  shows "\<exists>r v' m' log'. queue_notify A V env mem (blk_ops B denv) 0 (v, m, log) = Some (r, v', m', log')
    \<and> r \<noteq> Inl UndefinedBehaviour
    \<and> (r = Inr () \<longrightarrow> avail_pending V m' p (vio_queue v' ! 0) = []
        \<and> used_idx V m' u = used_idx V m u + word_of_nat (length hs)
        \<and> used_holds m' u (vio_queue v ! 0) (used_idx V m u) hs
        \<and> log' = log @ replicate (length hs) (IrqSet 1 (vio_irq v)))"
proof -
  have q: "unat (0 :: u32) < 2" "unat (0 :: u32) < length (vio_queue v)" using assms(4) by simp_all
  have ok: "driver_ok V mem m (vio_queue v ! unat (0 :: u32)) p u" using assms(3) by simp
  obtain r w' where l: "notify_loop A V env mem (blk_ops B denv) 0 (v, m, log) = Some (r, w')"
    and ub: "r \<noteq> Inl UndefinedBehaviour"
    and d: "r = Inr () \<longrightarrow> (\<exists>n. notify_done A V (blk_ops B denv) 0 p u (v, m, log) n w')"
    using blk.notify_completes [OF assms(1,2) ok q(2) assms(6)] by blast
  obtain v' m' log' where w': "w' = (v', m', log')" by (cases w')
  have can: "op_can_process (blk_ops B denv) dd qq" for dd qq
    by (simp add: blk_ops_def can_process_default_def)
  have "queue_notify A V env mem (blk_ops B denv) 0 (v, m, log) = Some (r, v', m', log')"
    using l assms(5) queue_notify_ready [OF assms(4) q(1) _ ok] by (simp add: w')
  moreover have "avail_pending V m' p (vio_queue v' ! 0) = []
      \<and> used_idx V m' u = used_idx V m u + word_of_nat (length hs)
      \<and> used_holds m' u (vio_queue v ! 0) (used_idx V m u) hs
      \<and> log' = log @ replicate (length hs) (IrqSet 1 (vio_irq v))" if "r = Inr ()"
  proof -
    from d that obtain n where dn: "notify_done A V (blk_ops B denv) 0 p u (v, m, log) n w'" by blast
    then have "n = length hs" using can by (auto simp: notify_done_def w' Let_def assms(7))
    with dn show ?thesis by (auto simp: notify_done_def w' Let_def assms(7))
  qed
  ultimately show ?thesis using ub by blast
qed

text \<open>
  C14. The same for the network device, whose receive queue also waits for frames: the loop ends,
  and what it leaves pending it leaves for want of a frame only; the chains it took are completed
  in order.
\<close>

theorem net_notify_completes:
  assumes "documented_vring V" and "regions_aligned mem" and "unat qi < 2"
    and "driver_ok V mem m (vio_queue v ! unat qi) p u"
    and "length (vio_queue v) = 2" and "vq_ready (vio_queue v ! unat qi) \<noteq> 0"
    and "hs = avail_pending V m p (vio_queue v ! unat qi)"
  shows "\<exists>r v' m' log'. queue_notify A V env mem (net_ops N tenv) qi (v, m, log) = Some (r, v', m', log')
    \<and> r \<noteq> Inl UndefinedBehaviour
    \<and> (r = Inr () \<longrightarrow> (\<exists>n \<le> length hs. avail_pending V m' p (vio_queue v' ! unat qi) = drop n hs
        \<and> used_idx V m' u = used_idx V m u + word_of_nat n
        \<and> used_holds m' u (vio_queue v ! unat qi) (used_idx V m u) (take n hs)
        \<and> log' = log @ replicate n (IrqSet 1 (vio_irq v))
        \<and> (n < length hs \<longrightarrow> qi = VIRTIO_NET_QUEUE_RX \<and> net_rx_pending (vio_device v') = [])))"
proof -
  have q: "unat qi < length (vio_queue v)" using assms(3,5) by simp
  obtain r w' where l: "notify_loop A V env mem (net_ops N tenv) qi (v, m, log) = Some (r, w')"
    and ub: "r \<noteq> Inl UndefinedBehaviour"
    and d: "r = Inr () \<longrightarrow> (\<exists>n. notify_done A V (net_ops N tenv) qi p u (v, m, log) n w')"
    using net.notify_completes [OF assms(1,2,4) q] by blast
  obtain v' m' log' where w': "w' = (v', m', log')" by (cases w')
  have "queue_notify A V env mem (net_ops N tenv) qi (v, m, log) = Some (r, v', m', log')"
    using l queue_notify_ready [OF assms(5,3,6,4)] by (simp add: w')
  moreover have "op_can_process (net_ops N tenv) dd qi \<longleftrightarrow> \<not> (qi = 0 \<and> net_rx_pending dd = [])" for dd
    by (auto simp: net_ops_def net_can_process_def)
  ultimately show ?thesis
    using ub d by (fastforce simp: notify_done_def w' Let_def assms(7))
qed

section \<open>A driver that aliases its rings\<close>

definition alias_state ::
    "vring_abi \<Rightarrow> guest_memory \<Rightarrow> u16 \<Rightarrow> vring_desc \<Rightarrow> host_ptr \<Rightarrow> virtio_net vio_world \<Rightarrow> bool" where
  "alias_state V mem h d p = (\<lambda>(v, m, log). \<exists>q. vio_queue v = [vio_queue v ! 0, q] \<and>
     vq_num q = 1 \<and> vq_ready q \<noteq> 0 \<and> vq_used q = vq_avail q \<and> queue_aligned q \<and>
     gpa_to_host mem (vq_avail q) 6 = Some p \<and> gpa_to_host mem (vq_avail q) 12 = Some p \<and>
     avail_idx V m p = vq_last_avail q + 1 \<and> avail_head m p 0 = h \<and>
     (\<forall>m'. same_outside (ptr_bytes p 12) m m' \<longrightarrow> get_desc_head V mem m' q h = Inr d) \<and>
     desc_type_of V d = READ \<and> desc_in_ram mem d \<and> 12 \<le> unat (vd_len d) \<and> \<not> has_next V d)"

lemma notify_loop_diverges:
  assumes "\<And>w. P w \<Longrightarrow> \<exists>w'. notify_step A V env mem ops qi w = (Inr True, w') \<and> P w'" and "P w"
  shows "notify_loop A V env mem ops qi w = None"
proof (rule ccontr)
  assume "notify_loop A V env mem ops qi w \<noteq> None"
  then obtain x where x: "notify_loop A V env mem ops qi w = Some x" by auto
  then have "(\<forall>w. P w \<longrightarrow> (\<exists>w'. notify_step A V env mem ops qi w = (Inr True, w') \<and> P w')) \<longrightarrow> \<not> P w"
  proof (induction rule: notify_loop.raw_induct [rotated 1, consumes 1])
    case (1 f A V env mem ops qi w x)
    show ?case
    proof (intro impI notI)
      assume step: "\<forall>w. P w \<longrightarrow> (\<exists>w'. notify_step A V env mem ops qi w = (Inr True, w') \<and> P w')" and "P w"
      then obtain w' where w': "notify_step A V env mem ops qi w = (Inr True, w')" "P w'" by blast
      have "f A V env mem ops qi w' = Some x" using 1(2) unfolding w'(1) by simp
      from 1(1) [OF this] step w'(2) show False by blast
    qed
  qed
  with assms show False by blast
qed

text \<open>What completing a chain leaves where the available ring is: one more chain, the same head.\<close>

lemma alias_overwrite:
  assumes V: "documented_vring V" and VV: "\<And>b. vu_idx (dec_used V b) = va_idx (dec_avail V b)"
  defines "write \<equiv> \<lambda>h m p. ram_write (ptr_add p 2) (to_le16 (avail_idx V m p + 1))
    (ram_write (ptr_add p 4) (to_le32 (ucast h) @ to_le32 0) m)"
  shows "avail_idx V (write h m p) p = avail_idx V m p + 1" and "avail_head (write h m p) p 0 = h"
    and "same_outside (ptr_bytes p 12) m (write h m p)"
proof -
  let ?k = "avail_idx V m p + 1" and ?m1 = "ram_write (ptr_add p 4) (to_le32 (ucast h) @ to_le32 0) m"
  let ?m' = "ram_write (ptr_add p 2) (to_le16 ?k) ?m1"
  have ai: "avail_idx V ?m' p = ?k"
  proof -
    have "avail_idx V ?m' p = used_idx V ?m' p" by (simp add: used_idx_def avail_idx_def VV)
    also have "\<dots> = ?k" using used_ring_write(2) [OF V, of 0 1 "replicate 8 0"] by simp
    finally show ?thesis .
  qed
  have ah: "avail_head ?m' p 0 = h"
  proof -
    have "ram_read ?m' (ptr_add p 4) 2 = ram_read ?m1 (ptr_add p 4) 2"
      by (rule ram_read_write_disjoint) (auto simp: ptr_bytes_def ptr_add_def)
    also have "\<dots> = take 2 (ram_read ?m1 (ptr_add p 4) 8)" by (simp add: ram_read_take)
    also have "\<dots> = take 2 (to_le32 (ucast h))"
      using ram_read_write_same [of "ptr_add p 4" "to_le32 (ucast h) @ to_le32 0" m] by simp
    also have "\<dots> = to_le16 h"
    proof -
      have "unat (ucast h :: u32) = unat h"
        using unat_less_two_power [of h] by (simp add: unsigned_ucast_eq take_bit_nat_eq_self)
      then show ?thesis by (simp add: byte_enc_defs le_bytes_numeral)
    qed
    finally show ?thesis by (simp add: avail_head_def)
  qed
  have so: "same_outside (ptr_bytes p 12) m ?m'"
  proof (rule same_outside_trans)
    show "same_outside (ptr_bytes p 12) m ?m1"
      by (rule same_outside_mono [OF ram_write_outside]) (auto simp: ptr_bytes_def ptr_add_def)
    show "same_outside (ptr_bytes p 12) ?m1 ?m'"
      by (rule same_outside_mono [OF ram_write_outside]) (auto simp: ptr_bytes_def ptr_add_def)
  qed
  show "avail_idx V (write h m p) p = avail_idx V m p + 1" "avail_head (write h m p) p 0 = h"
    "same_outside (ptr_bytes p 12) m (write h m p)"
    using ai ah so by (simp_all add: write_def)
qed

lemma alias_step:
  assumes V: "documented_vring V" and mem: "regions_aligned mem" and N: "sz_net_hdr N \<le> 12"
    and st: "alias_state V mem h d p w"
    and VV: "\<And>b. vu_idx (dec_used V b) = va_idx (dec_avail V b)"
  shows "\<exists>w'. notify_step A V (\<lambda>_ _ _. True) mem (net_ops N tenv) 1 w = (Inr True, w') \<and>
    alias_state V mem h d p w'"
proof -
  obtain v m log where w: "w = (v, m, log)" by (cases w)
  from st obtain q where q: "vio_queue v = [vio_queue v ! 0, q]"
     "vq_num q = 1" "vq_ready q \<noteq> 0" "vq_used q = vq_avail q" "queue_aligned q"
     "gpa_to_host mem (vq_avail q) 6 = Some p" "gpa_to_host mem (vq_avail q) 12 = Some p"
     "avail_idx V m p = vq_last_avail q + 1" "avail_head m p 0 = h"
     "\<And>m'. same_outside (ptr_bytes p 12) m m' \<Longrightarrow> get_desc_head V mem m' q h = Inr d"
     "desc_type_of V d = READ" "desc_in_ram mem d" "12 \<le> unat (vd_len d)" "\<not> has_next V d"
    by (auto simp: alias_state_def w)
  have q1: "vio_queue v ! Suc 0 = q" using q(1) by (metis nth_Cons_0 nth_Cons_Suc)
  have num: "unat (vq_num q) = Suc 0" using q(2) by simp
  define ch where "ch = \<lparr>ch_head = h, ch_read = chain_reads V mem m [d], ch_write = []\<rparr>"
  let ?q' = "q\<lparr>vq_last_avail := vq_last_avail q + 1\<rparr>"
  have "add_desc V mem m d \<lparr>ch_head = h, ch_read = [], ch_write = []\<rparr> = Inr ch"
    using q(11,12) by (simp add: add_desc_Inr_iff ch_def chain_writes_def)
  then have wk: "walk_chain V mem m q (Suc 0) h \<lparr>ch_head = h, ch_read = [], ch_write = []\<rparr> = Inr ch"
    using q(10) [OF same_outside_refl] q(14) by simp
  have pop: "pop_avail V mem m q = Inr (Some ch, ?q')"
    using pop_avail_eq [OF V mem q(5), of m] q(2,6,8,9) wk num by (simp add: Let_def)
  have rl: "length (ch_read ch) = unat (vd_len d)"
    using q(11,12) by (auto simp: ch_def chain_reads_def desc_buffer_def desc_in_ram_def split: option.splits)
  obtain dv where pr: "op_process (net_ops N tenv) 1 ch (vio_device v, m) = (Inr 0, dv, m)"
    using rl q(13) N by (auto simp: net_ops_def net_process_def new_from_def)
  let ?m1 = "ram_write (ptr_add p 4) (to_le32 (ucast h) @ to_le32 0) m"
  let ?k = "avail_idx V m p + 1"
  let ?m' = "ram_write (ptr_add p 2) (to_le16 ?k) ?m1"
  have uk: "used_idx V m p = avail_idx V m p" by (simp add: used_idx_def avail_idx_def VV)
  have push: "push_used V mem ?q' h 0 m = Inr ?m'"
    using push_used_eq [OF V mem, of ?q' h 0 m] q(2,4,5,7) uk by (simp add: queue_aligned_def)
  note over = alias_overwrite [OF V VV, where h = h and m = m and p = p]
  note ai = over(1) and ah = over(2) and so = over(3)
  let ?v' = "v\<lparr>vio_queue := (vio_queue v)[1 := ?q'], vio_device := dv,
      vio_irq_status := vio_irq_status v OR virtio_mmio_int_vring A\<rparr>"
  have can: "op_can_process (net_ops N tenv) (vio_device v) 1" by (simp add: net_ops_def net_can_process_def)
  have step: "notify_step A V (\<lambda>_ _ _. True) mem (net_ops N tenv) 1 w =
      (Inr True, ?v', ?m', log @ [IrqSet 1 (vio_irq v)])"
    using can pop pr push by (simp add: notify_step_def w q1 Let_def arch_update_irq_def ch_def)
  have gd: "get_desc_head V mem m' ?q' h = get_desc_head V mem m' q h" for m'
    by (simp add: get_desc_head_def)
  have "vio_queue ?v' = [vio_queue ?v' ! 0, ?q']"
    using q(1) by (cases "vio_queue v") auto
  then have "alias_state V mem h d p (?v', ?m', log @ [IrqSet 1 (vio_irq v)])"
    using q ai ah same_outside_trans [OF so]
    unfolding alias_state_def prod.case by (intro exI [of _ ?q']) (auto simp: gd queue_aligned_def)
  with step show ?thesis by blast
qed

text \<open>
  C31. A guest can hang the VMM: with a transmit queue of one entry whose used ring lies over its
  available ring, each completed chain also publishes the next one, and the notification of one
  valid descriptor never returns; the vcpu thread that handles it never checks again whether the
  VM should stop.
\<close>

theorem net_notify_can_hang:
  assumes "documented_vring V" and "\<And>b. vu_idx (dec_used V b) = va_idx (dec_avail V b)"
    and "regions_aligned mem" and "sz_net_hdr N \<le> 12" and "alias_state V mem h d p (v, m, log)"
  shows "queue_notify A V (\<lambda>_ _ _. True) mem (net_ops N tenv) 1 (v, m, log) = None"
proof -
  have "notify_loop A V (\<lambda>_ _ _. True) mem (net_ops N tenv) 1 (v, m, log) = None"
    by (rule notify_loop_diverges [where P = "alias_state V mem h d p",
          OF alias_step [OF assms(1,3,4) _ assms(2)] assms(5)])
  moreover obtain q where "vio_queue v = [vio_queue v ! 0, q]" "vq_num q = 1" "vq_ready q \<noteq> 0"
    using assms(5) by (auto simp: alias_state_def)
  then have "length (vio_queue v) = 2" "vio_queue v ! Suc 0 = q"
    by (metis length_Cons list.size(3) One_nat_def Suc_1, metis nth_Cons_0 nth_Cons_Suc)
  ultimately show ?thesis
    using \<open>vq_num q = 1\<close> \<open>vq_ready q \<noteq> 0\<close> by (simp add: queue_notify_def Let_def)
qed

section \<open>Witnesses\<close>

lemma less_2_u16: "unat (i :: u16) < 2 \<Longrightarrow> i = 0 \<or> i = 1"
  by (auto simp: word_unat_eq_iff less_2_cases_iff)

lemma demo_desc0:
  "get_desc_head linux_vring demo_mem demo_ram demo_queue 0 =
     Inr \<lparr>vd_addr = 0, vd_len = 0, vd_flags = 0, vd_next = 0\<rparr>"
proof -
  have "ram_read demo_ram (0, 0x10) 16 = [0, 0, 0, 0, 0, 0, 0, 0, 0, 0, 0, 0, 0, 0, 0, 0]" by (simp add: demo_ram_def byte_eval)
  then show ?thesis
    by (simp add: get_desc_head_def checked_mul_def checked_add_def demo_queue_def
        demo_mem_def gpa_to_host_def region_offset_def checked_sub_def read_guest_ptr_def ptr_ok_def
        ptr_aligned_def byte_enc_defs)
qed

lemma demo_table: "desc_table demo_mem demo_queue \<subseteq> ptr_bytes (0, 0x10) 0x20"
proof
  fix b assume "b \<in> desc_table demo_mem demo_queue"
  then obtain idx p where i: "unat (idx :: u16) < 2"
    and p: "gpa_to_host demo_mem (0x10 + ucast idx * 16) 16 = Some p" and b: "b \<in> ptr_bytes p 16"
    by (auto simp: desc_table_def demo_queue_def)
  from less_2_u16 [OF i] p have "p = (0, 0x10) \<or> p = (0, 0x20)"
    by (auto simp: demo_mem_def gpa_to_host_def region_offset_def checked_sub_def)
  with b show "b \<in> ptr_bytes (0, 0x10) 0x20" by (cases b) (auto simp: ptr_bytes_def)
qed

lemma demo_driver_ok: "driver_ok linux_vring demo_mem demo_ram demo_queue (0, 0x40) (0, 0x80)"
proof -
  have n: "unat (vq_num demo_queue) = 2" by (simp add: demo_queue_def)
  have d: "(has_next linux_vring d \<longrightarrow> unat (vd_next d) < 2) \<and>
      (desc_type_of linux_vring d = WRITE \<longrightarrow>
         ptr_bytes (fst (desc_buffer demo_mem d)) (snd (desc_buffer demo_mem d)) = ptr_bytes (0, 0x100) 3)"
    if "unat idx < 2" "get_desc_head linux_vring demo_mem demo_ram demo_queue idx = Inr d" for idx d
  proof -
    have "d = \<lparr>vd_addr = 0, vd_len = 0, vd_flags = 0, vd_next = 0\<rparr> \<or>
        d = \<lparr>vd_addr = 0x100, vd_len = 3, vd_flags = 2, vd_next = 0\<rparr>"
      using less_2_u16 [OF that(1)] that(2) by (auto simp: demo_desc demo_desc0)
    then show ?thesis
      by (auto simp: has_next_def desc_type_of_def desc_buffer_def demo_mem_def gpa_to_host_def
          region_offset_def checked_sub_def)
  qed
  have "ptr_bytes (0, 0x100) 3 \<inter> (desc_table demo_mem demo_queue \<union> ptr_bytes (0, 0x40) 8 \<union> ptr_bytes (0, 0x80) 20) = {}"
    "ptr_bytes (0, 0x80) 20 \<inter> desc_table demo_mem demo_queue = {}"
    "ptr_bytes (0, 0x80) 20 \<inter> ptr_bytes (0, 0x40) 8 = {}"
    using demo_table by (auto simp: ptr_bytes_def)
  with d demo_aligned(2) demo_ptrs demo_pending show ?thesis
    unfolding driver_ok_def n by (fastforce)
qed

text \<open>A transport whose first queue is the one above.\<close>

definition demo_vio :: "'d \<Rightarrow> 'd virtio_mmio" where
  "demo_vio d = (virtio_mmio_new d 5)\<lparr>vio_queue := [demo_queue, vring_queue_new]\<rparr>"

lemma demo_vio_fields:
  "vio_queue (demo_vio d) ! 0 = demo_queue" "length (vio_queue (demo_vio d)) = 2"
  "vio_device (demo_vio d) = d" "vio_irq (demo_vio d) = 5"
  by (simp_all add: demo_vio_def virtio_mmio_new_def)

theorem blk_notify_completes_witness:
  "\<exists>r w'. queue_notify linux_mmio linux_vring (\<lambda>_ _ _. True) demo_mem (blk_ops linux_blk disk_ok) 0
     (demo_vio demo_disk, demo_ram, []) = Some (r, w') \<and> r \<noteq> Inl UndefinedBehaviour"
proof -
  have r: "vq_ready (vio_queue (demo_vio demo_disk) ! 0) \<noteq> 0"
    by (simp add: demo_vio_fields(1)) (simp add: demo_queue_def)
  have ok: "driver_ok linux_vring demo_mem demo_ram (vio_queue (demo_vio demo_disk) ! 0) (0, 0x40) (0, 0x80)"
    by (simp only: demo_vio_fields(1) demo_driver_ok)
  have inv: "blk_invar (vio_device (demo_vio demo_disk))"
    by (simp only: demo_vio_fields(3) demo_blk_headers(6))
  from blk_notify_completes [OF documented_linux_vring demo_aligned(1) ok demo_vio_fields(2) r inv refl,
      of linux_mmio "\<lambda>_ _ _. True" linux_blk disk_ok "[]"]
  show ?thesis by blast
qed

theorem net_notify_completes_witness:
  "\<exists>r w'. queue_notify linux_mmio linux_vring (\<lambda>_ _ _. True) demo_mem (net_ops linux_net (\<lambda>_ _. True)) 0
     (demo_vio \<lparr>net_rx_pending = [[1, 2, 3]], net_sent = []\<rparr>, demo_ram, []) = Some (r, w') \<and>
     r \<noteq> Inl UndefinedBehaviour"
proof -
  let ?d = "\<lparr>net_rx_pending = [[1, 2, 3]], net_sent = []\<rparr> :: virtio_net"
  have z: "unat (0 :: u32) = 0" by simp
  have r: "vq_ready (vio_queue (demo_vio ?d) ! unat (0 :: u32)) \<noteq> 0"
    unfolding z demo_vio_fields(1) by (simp add: demo_queue_def)
  have ok: "driver_ok linux_vring demo_mem demo_ram (vio_queue (demo_vio ?d) ! unat (0 :: u32)) (0, 0x40) (0, 0x80)"
    unfolding z demo_vio_fields(1) by (rule demo_driver_ok)
  from net_notify_completes [OF documented_linux_vring demo_aligned(1) _ ok demo_vio_fields(2) r refl,
      of linux_mmio "\<lambda>_ _ _. True" linux_net "\<lambda>_ _. True" "[]"]
  show ?thesis by auto
qed

text \<open>
  A transmit queue of one entry with both rings at \<open>0x40\<close>: the descriptor at \<open>0x10\<close> is 12
  readable bytes at \<open>0x100\<close>.
\<close>

definition alias_queue :: vring_queue where
  "alias_queue = \<lparr>vq_ready = 1, vq_num = 1, vq_last_avail = 0, vq_desc = 0x10, vq_avail = 0x40, vq_used = 0x40\<rparr>"

definition alias_ram :: ram where
  "alias_ram = ram_write (0, 0x10) (to_le64 0x100 @ to_le32 12 @ to_le16 0 @ to_le16 0)
     (ram_write (0, 0x40) (to_le16 0 @ to_le16 1 @ to_le16 0) (\<lambda>_ _. 0))"

definition alias_vio :: "virtio_net virtio_mmio" where
  "alias_vio = (virtio_mmio_new virtio_net_new 5)\<lparr>vio_queue := [vring_queue_new, alias_queue]\<rparr>"

lemma alias_demo:
  "alias_state linux_vring demo_mem 0 \<lparr>vd_addr = 0x100, vd_len = 12, vd_flags = 0, vd_next = 0\<rparr> (0, 0x40)
     (alias_vio, alias_ram, [])"
proof -
  let ?d = "\<lparr>vd_addr = 0x100, vd_len = 12, vd_flags = 0, vd_next = 0\<rparr> :: vring_desc"
  have r1: "ram_read alias_ram (0, 0x40) 4 = [0, 0, 1, 0]" "ram_read alias_ram (0, 0x44) 2 = [0, 0]"
    "ram_read alias_ram (0, 0x10) 16 = [0, 1, 0, 0, 0, 0, 0, 0, 12, 0, 0, 0, 0, 0, 0, 0]"
    by (simp_all add: alias_ram_def byte_eval)
  have gd: "get_desc_head linux_vring demo_mem m' alias_queue 0 = Inr ?d"
    if "same_outside (ptr_bytes (0, 0x40) 12) alias_ram m'" for m'
  proof -
    have "ram_read m' (0, 0x10) 16 = ram_read alias_ram (0, 0x10) 16"
      by (rule ram_read_same_outside [OF that]) (auto simp: ptr_bytes_def)
    then show ?thesis
      by (simp add: get_desc_head_def checked_mul_def checked_add_def alias_queue_def
          demo_mem_def gpa_to_host_def region_offset_def checked_sub_def read_guest_ptr_def ptr_ok_def
          ptr_aligned_def byte_enc_defs r1)
  qed
  have f: "vq_num alias_queue = 1" "vq_ready alias_queue \<noteq> 0" "vq_used alias_queue = vq_avail alias_queue"
    "queue_aligned alias_queue" "vq_last_avail alias_queue = 0"
    "gpa_to_host demo_mem (vq_avail alias_queue) 6 = Some (0, 0x40)"
    "gpa_to_host demo_mem (vq_avail alias_queue) 12 = Some (0, 0x40)"
    by (simp_all add: alias_queue_def queue_aligned_def demo_mem_def gpa_to_host_def region_offset_def
        checked_sub_def)
  have a: "avail_idx linux_vring alias_ram (0, 0x40) = 1" "avail_head alias_ram (0, 0x40) 0 = 0"
    by (simp_all add: avail_idx_def avail_head_def ptr_add_def r1 from_le16_def)
  have d: "desc_type_of linux_vring ?d = READ" "desc_in_ram demo_mem ?d" "\<not> has_next linux_vring ?d"
    by (simp_all add: desc_type_of_def desc_in_ram_def has_next_def demo_mem_def gpa_to_host_def
        region_offset_def checked_sub_def)
  show ?thesis
    unfolding alias_state_def prod.case
    by (intro exI [of _ alias_queue] conjI allI impI gd)
      (simp_all add: f a d alias_vio_def)
qed

theorem net_notify_can_hang_witness:
  "queue_notify linux_mmio linux_vring (\<lambda>_ _ _. True) demo_mem (net_ops linux_net (\<lambda>_ _. True)) 1
     (alias_vio, alias_ram, []) = None"
  by (rule net_notify_can_hang [OF documented_linux_vring _ demo_aligned(1) _ alias_demo])
    (simp_all add: linux_net_def)

section \<open>An interrupt that is raised\<close>

lemma idle_step:
  assumes "vio_queue v ! 0 = demo_queue" and "length (vio_queue v) = 2"
  shows "\<exists>v' m'. notify_loop linux_mmio linux_vring (\<lambda>_ _ _. True) demo_mem idle_ops 0 (v, demo_ram, log) =
      Some (Inr (), v', m', log @ [IrqSet 1 (vio_irq v)]) \<and> vio_irq v' = vio_irq v"
proof -
  let ?q' = "demo_queue\<lparr>vq_last_avail := 1\<rparr>"
  have al: "queue_aligned ?q'" using demo_aligned(2) by (simp add: queue_aligned_def)
  have u: "gpa_to_host demo_mem (vq_used ?q') (4 + 8 * unat (vq_num ?q')) = Some (0, 0x80)"
    and n: "vq_num ?q' \<noteq> 0" using demo_ptrs(2,3) by simp_all
  obtain m' where push: "push_used linux_vring demo_mem ?q' 1 0 demo_ram = Inr m'"
    using push_used_eq [OF documented_linux_vring demo_aligned(1) al, of 1 0 demo_ram] u n by simp
  let ?v' = "v\<lparr>vio_queue := (vio_queue v)[0 := ?q'], vio_irq_status := vio_irq_status v OR 1\<rparr>"
  have dev: "op_can_process idle_ops d q" "op_process idle_ops q ch w = (Inr 0, w)" for d q ch w
    by (simp_all add: idle_ops_def can_process_default_def)
  have i: "virtio_mmio_int_vring linux_mmio = 1" by (simp add: linux_mmio_def)
  have s1: "notify_step linux_mmio linux_vring (\<lambda>_ _ _. True) demo_mem idle_ops 0 (v, demo_ram, log) =
      (Inr True, ?v', m', log @ [IrqSet 1 (vio_irq v)])"
    using assms push by (simp add: notify_step_def dev demo_pop Let_def arch_update_irq_def i)
  have "same_outside (ptr_bytes (0, 0x80) (4 + 8 * unat (vq_num ?q'))) demo_ram m'"
    using vring_memory_safe_used [OF documented_linux_vring demo_aligned(1) al push] u by auto
  then have "same_outside (ptr_bytes (0, 0x80) 20) demo_ram m'" by (simp add: demo_queue_def)
  then have "avail_idx linux_vring m' (0, 0x40) = avail_idx linux_vring demo_ram (0, 0x40)"
    by (rule avail_same(1) [where n = 2]) (auto simp: ptr_bytes_def)
  then have "avail_idx linux_vring m' (0, 0x40) = 1" by (simp add: avail_idx_def demo_reads from_le16_def)
  then have "pop_avail linux_vring demo_mem m' ?q' = Inr (None, ?q')"
    using demo_ptrs(1) by (simp add: pop_avail_eq [OF documented_linux_vring demo_aligned(1) al])
  then have s2: "notify_step linux_mmio linux_vring (\<lambda>_ _ _. True) demo_mem idle_ops 0
      (?v', m', log @ [IrqSet 1 (vio_irq v)]) = (Inr False, ?v', m', log @ [IrqSet 1 (vio_irq v)])"
    using assms by (simp add: notify_step_def dev)
  show ?thesis by (subst notify_loop.simps, simp only: s1, subst notify_loop.simps) (simp add: s2)
qed

lemma linux_mmio_fields [simp]:
  "r_magic_value linux_mmio = 0x000" "r_version linux_mmio = 0x004"
  "r_device_id linux_mmio = 0x008" "r_vendor_id linux_mmio = 0x00c"
  "r_device_features linux_mmio = 0x010" "r_device_features_sel linux_mmio = 0x014"
  "r_driver_features linux_mmio = 0x020" "r_driver_features_sel linux_mmio = 0x024"
  "r_queue_sel linux_mmio = 0x030" "r_queue_num_max linux_mmio = 0x034"
  "r_queue_num linux_mmio = 0x038" "r_queue_ready linux_mmio = 0x044"
  "r_queue_notify linux_mmio = 0x050" "r_interrupt_status linux_mmio = 0x060"
  "r_interrupt_ack linux_mmio = 0x064" "r_status linux_mmio = 0x070"
  "r_queue_desc_low linux_mmio = 0x080" "r_queue_desc_high linux_mmio = 0x084"
  "r_queue_avail_low linux_mmio = 0x090" "r_queue_avail_high linux_mmio = 0x094"
  "r_queue_used_low linux_mmio = 0x0a0" "r_queue_used_high linux_mmio = 0x0a4"
  "r_config_generation linux_mmio = 0x0fc" "r_config linux_mmio = 0x100"
  by (simp_all add: linux_mmio_def)

lemma vio_reach_write_regs:
  assumes "vio_reach A V env mem ops v log" and "write_regs A env avs (v, log) = (Inr (), v', log')"
    and "\<forall>av \<in> set avs. ucast (ucast (fst av) AND 0xfff :: u64) = fst av \<and> fst av \<noteq> r_queue_notify A"
  shows "vio_reach A V env mem ops v' log'"
  using assms
proof (induction avs arbitrary: v log)
  case (Cons av avs)
  obtain a x where av: "av = (a, x)" by (cases av)
  from Cons.prems(2) obtain v1 log1 where
    w: "virtio_write_reg A env a x (v, log) = (Inr (), v1, log1)" and
    r: "write_regs A env avs (v1, log1) = (Inr (), v', log')"
    by (auto simp: av then_op_def split: prod.splits sum.splits)
  let ?mmio = "\<lparr>mm_phys_addr = ucast a, mm_data = to_le32 x @ replicate 4 0, mm_len = 4, mm_is_write = 1\<rparr>"
  have "read_le32 (mm_data ?mmio) 0 = Inr x" by (simp add: read_le32_def slice_at_def)
  then have "virtio_handle A V env mem ops (?mmio, v, demo_ram, log) = Some (Inr (), ?mmio, v1, demo_ram, log1)"
    using w Cons.prems(3) by (simp add: virtio_handle_def Let_def av)
  from Cons.IH [OF vio_reach.access [OF Cons.prems(1) this] r] Cons.prems(3) show ?case by simp
qed simp

text \<open>A driver sets up the queue and notifies it: the line is up, and the status says why.\<close>

theorem virtio_irq_has_reason_witness:
  "\<exists>v log. vio_reach linux_mmio linux_vring (\<lambda>_ _ _. True) demo_mem idle_ops v log \<and>
     line_level (vio_irq v) log \<and> vio_irq_status v AND 1 \<noteq> 0"
proof -
  let ?env = "\<lambda>_ _ _. True" and ?v0 = "virtio_mmio_new (0 :: nat) 5"
  let ?avs = "[(0x30, 0), (0x38, 2), (0x80, 0x10), (0x90, 0x40), (0xa0, 0x80), (0x44, 1)] :: (u32 \<times> u32) list"
  let ?v1 = "?v0\<lparr>vio_queue := [demo_queue, vring_queue_new]\<rparr>"
  have r0: "vio_reach linux_mmio linux_vring ?env demo_mem idle_ops ?v0 []"
    by (rule vio_reach.start) simp
  have two: "replicate 2 q = [q, q]" for q :: vring_queue by (simp add: eval_nat_numeral)
  have "write_regs linux_mmio ?env ?avs (?v0, []) = (Inr (), ?v1, [])"
    by (simp add: two virtio_write_reg_def then_op_def update_selected_Some virtio_mmio_new_def
        demo_queue_def vring_queue_new_def)
  from vio_reach_write_regs [OF r0 this] have r1: "vio_reach linux_mmio linux_vring ?env demo_mem idle_ops ?v1 []"
    by simp
  have q: "vio_queue ?v1 ! 0 = demo_queue" "length (vio_queue ?v1) = 2" "vio_irq ?v1 = 5"
    by (simp_all add: virtio_mmio_new_def)
  obtain v' m' where l: "notify_loop linux_mmio linux_vring ?env demo_mem idle_ops 0 (?v1, demo_ram, []) =
      Some (Inr (), v', m', [IrqSet 1 5])" and i: "vio_irq v' = 5"
    using idle_step [OF q(1,2), of "[]"] q(3) by auto
  have "vq_ready demo_queue \<noteq> 0 \<and> vq_num demo_queue \<noteq> 0" by (simp add: demo_queue_def)
  then have qn: "queue_notify linux_mmio linux_vring ?env demo_mem idle_ops 0 (?v1, demo_ram, []) =
      Some (Inr (), v', m', [IrqSet 1 5])"
    using l by (simp add: queue_notify_def Let_def)
  let ?mmio = "\<lparr>mm_phys_addr = 0x50, mm_data = replicate 8 0, mm_len = 4, mm_is_write = 1\<rparr>"
  have "read_le32 (mm_data ?mmio) 0 = Inr 0"
    by (simp add: read_le32_def slice_at_def from_le32_def numeral_eq_Suc)
  then have "virtio_handle linux_mmio linux_vring ?env demo_mem idle_ops (?mmio, ?v1, demo_ram, []) =
      Some (Inr (), ?mmio, v', m', [IrqSet 1 5])"
    using qn by (simp add: virtio_handle_def Let_def)
  from vio_reach.access [OF r1 this]
  have r2: "vio_reach linux_mmio linux_vring ?env demo_mem idle_ops v' [IrqSet 1 5]" .
  have lv: "line_level (vio_irq v') [IrqSet 1 5]" by (simp add: i line_level_def)
  have "virtio_mmio_int_vring linux_mmio = 1" by (simp add: linux_mmio_def)
  then have "vio_irq_status v' AND 1 \<noteq> 0"
    using virtio_irq_has_reason [OF documented_linux_mmio r2] lv by simp
  with r2 lv show ?thesis by blast
qed

end
