(* ===== verification/Racing_Guest.thy ===== *)
theory Racing_Guest
  imports Virtio_Notify
begin

text \<open>
  A guest with several vcpus goes on writing while the thread of one of them serves a notification.
  Here \<open>pop_avail\<close> and \<open>push_used\<close> of \<open>src/src/virtio/queue.rs\<close> and the loop of \<open>queue_notify\<close> of
  \<open>src/src/virtio/mmio.rs\<close> are given the guest's writes between their accesses to RAM: every
  access may find different contents. A guest that writes nothing gives the functions of \<open>Vring_Queue\<close>
  and \<open>Virtio_Mmio\<close>; a driver that leaves alone what it published gives the same chains; any other
  guest gives wrong data, but no access outside RAM.
\<close>

section \<open>Taking a chain\<close>

text \<open>The \<open>t\<close>-th access finds the RAM \<open>ms t\<close>. A descriptor is read once, then the buffer it names.\<close>

fun walk_chain_race ::
    "vring_abi \<Rightarrow> guest_memory \<Rightarrow> (nat \<Rightarrow> ram) \<Rightarrow> vring_queue \<Rightarrow> nat \<Rightarrow> u16 \<Rightarrow> desc_chain \<Rightarrow> desc_chain res" where
  "walk_chain_race V mem ms q 0 idx ch = Inr ch"
| "walk_chain_race V mem ms q (Suc n) idx ch =
     try_res (get_desc_head V mem (ms 0) q idx) (\<lambda>d.
     try_res (add_desc V mem (ms 1) d ch) (\<lambda>ch'.
       if has_next V d then walk_chain_race V mem (\<lambda>t. ms (t + 2)) q n (vd_next d) ch' else Inr ch'))"

definition pop_avail_race ::
    "vring_abi \<Rightarrow> guest_memory \<Rightarrow> (nat \<Rightarrow> ram) \<Rightarrow> vring_queue \<Rightarrow> (desc_chain option \<times> vring_queue) res" where
  "pop_avail_race V mem ms q =
     try_res (guest_ptr mem (vq_avail q) (sz_avail V + 2 * unat (vq_num q))) (\<lambda>p.
     try_res (read_guest_ptr mem (ms 0) (sz_avail V) (al_avail V) p) (\<lambda>b.
       if vq_last_avail q = va_idx (dec_avail V b) then Inr (None, q)
       else try_res (ring_slot (vq_last_avail q) (vq_num q)) (\<lambda>s.
         try_res (read_guest_ptr mem (ms 1) 2 2 (ptr_add p (0x4 + 0x2 * s))) (\<lambda>h.
         try_res (walk_chain_race V mem (\<lambda>t. ms (t + 2)) q (unat (vq_num q)) (from_le16 h)
             \<lparr>ch_head = from_le16 h, ch_read = [], ch_write = []\<rparr>) (\<lambda>ch.
           Inr (Some ch, q\<lparr>vq_last_avail := vq_last_avail q + 1\<rparr>))))))"

text \<open>
  The index of the used ring is read in \<open>m\<close>; \<open>g1\<close> and \<open>g2\<close> are what the guest writes before the element
  and before the index are stored. The value holds the RAM after each of the two stores.
\<close>

definition push_used_race ::
    "vring_abi \<Rightarrow> guest_memory \<Rightarrow> vring_queue \<Rightarrow> u16 \<Rightarrow> u32 \<Rightarrow> (ram \<Rightarrow> ram) \<Rightarrow> (ram \<Rightarrow> ram) \<Rightarrow> ram \<Rightarrow>
      (ram \<times> ram) res" where
  "push_used_race V mem q head len g1 g2 m =
     try_res (guest_ptr mem (vq_used q) (sz_used V + sz_used_elem V * unat (vq_num q))) (\<lambda>p.
     try_res (read_guest_ptr mem m (sz_used V) (al_used V) p) (\<lambda>b.
     try_res (ring_slot (vu_idx (dec_used V b)) (vq_num q)) (\<lambda>s.
     try_res (write_guest_ptr mem (al_used_elem V) (ptr_add p (0x4 + sz_used_elem V * s))
         (enc_used_elem V \<lparr>ue_id = ucast head, ue_len = len\<rparr>) (g1 m)) (\<lambda>m1.
     try_res (write_guest_ptr mem 2 (ptr_add p 0x2) (to_le16 (vu_idx (dec_used V b) + 1)) (g2 m1)) (\<lambda>m2.
       Inr (m1, m2))))))"

text \<open>A guest that writes nothing.\<close>

lemma walk_chain_still: "walk_chain_race V mem (\<lambda>_. m) q n idx ch = walk_chain V mem m q n idx ch"
  by (induction n arbitrary: idx ch) (simp_all cong: if_cong)

lemma pop_avail_still: "pop_avail_race V mem (\<lambda>_. m) q = pop_avail V mem m q"
  by (simp add: pop_avail_race_def pop_avail_def walk_chain_still cong: if_cong)

lemma try_res_Inr: "try_res r Inr = r"
  by (cases r) simp_all

lemma push_used_still:
  "push_used V mem q h l m = try_res (push_used_race V mem q h l id id m) (\<lambda>(m1, m2). Inr m2)"
  by (simp add: push_used_race_def push_used_def try_res_assoc try_res_Inr id_def)

section \<open>Memory safety\<close>

lemma walk_chain_race_safe:
  assumes "documented_vring V" "regions_aligned mem" "queue_aligned q"
    and "\<forall>s \<in> set (ch_write ch). ptr_ok mem (fst s) (snd s)"
  shows "walk_chain_race V mem ms q n idx ch \<noteq> Inl UndefinedBehaviour \<and>
    (\<forall>ch'. walk_chain_race V mem ms q n idx ch = Inr ch' \<longrightarrow>
      (\<forall>s \<in> set (ch_write ch'). ptr_ok mem (fst s) (snd s)))"
  using assms(4)
proof (induction n arbitrary: ms idx ch)
  case (Suc n)
  show ?case
  proof (cases "get_desc_head V mem (ms 0) q idx")
    case (Inl e)
    then show ?thesis using get_desc_head_no_ub [OF assms(1-3), of "ms 0" idx] by simp
  next
    case d: (Inr d)
    show ?thesis
    proof (cases "add_desc V mem (ms 1) d ch")
      case (Inl e)
      then show ?thesis using d add_desc_safe(1) [of V mem "ms 1" d ch] by simp
    next
      case (Inr ch1)
      with Suc.IH [of ch1] add_desc_safe(2) [OF Inr Suc.prems] d show ?thesis by simp
    qed
  qed
qed simp

lemma pop_avail_race_eq:
  assumes "documented_vring V" "regions_aligned mem" "queue_aligned q"
    and p: "gpa_to_host mem (vq_avail q) (4 + 2 * unat (vq_num q)) = Some p"
  shows "pop_avail_race V mem ms q =
    (if vq_last_avail q = avail_idx V (ms 0) p then Inr (None, q)
     else if vq_num q = 0 then Inl (Panicked DivideByZero)
     else let h = avail_head (ms 1) p (unat (vq_last_avail q) mod unat (vq_num q))
       in try_res (walk_chain_race V mem (\<lambda>t. ms (t + 2)) q (unat (vq_num q)) h
            \<lparr>ch_head = h, ch_read = [], ch_write = []\<rparr>)
            (\<lambda>ch. Inr (Some ch, q\<lparr>vq_last_avail := vq_last_avail q + 1\<rparr>)))"
proof (cases "vq_num q = 0")
  case True
  then show ?thesis
    using p assms(1) avail_ring_reads(1) [OF assms, where m = "ms 0"]
    by (simp add: pop_avail_race_def documented_vring_def guest_ptr_def avail_idx_def ring_slot_def)
next
  case False
  have s: "ring_slot (vq_last_avail q) (vq_num q) = Inr (unat (vq_last_avail q) mod unat (vq_num q))"
    using False by (simp add: ring_slot_Inr_iff)
  then show ?thesis
    using p assms(1) avail_ring_reads(1) [OF assms, where m = "ms 0"] False
      avail_ring_reads(2) [OF assms ring_slot_less [OF s], where m = "ms 1"]
    by (simp add: pop_avail_race_def documented_vring_def guest_ptr_def avail_idx_def avail_head_def Let_def)
qed

lemma pop_avail_race_safe:
  assumes "documented_vring V" "regions_aligned mem" "queue_aligned q"
  shows "pop_avail_race V mem ms q \<noteq> Inl UndefinedBehaviour"
    and "pop_avail_race V mem ms q = Inr (Some ch, q') \<Longrightarrow>
      q' = q\<lparr>vq_last_avail := vq_last_avail q + 1\<rparr> \<and> (\<forall>s \<in> set (ch_write ch). ptr_ok mem (fst s) (snd s))"
proof -
  note walk = walk_chain_race_safe [OF assms, of "\<lparr>ch_head = a, ch_read = [], ch_write = []\<rparr>" for a, simplified]
  consider "pop_avail_race V mem ms q = Inl (IoError Other)"
    | p where "gpa_to_host mem (vq_avail q) (4 + 2 * unat (vq_num q)) = Some p"
    using assms(1)
    by (cases "gpa_to_host mem (vq_avail q) (4 + 2 * unat (vq_num q))")
      (auto simp: pop_avail_race_def documented_vring_def guest_ptr_def)
  then show "pop_avail_race V mem ms q \<noteq> Inl UndefinedBehaviour"
    and "pop_avail_race V mem ms q = Inr (Some ch, q') \<Longrightarrow>
      q' = q\<lparr>vq_last_avail := vq_last_avail q + 1\<rparr> \<and> (\<forall>s \<in> set (ch_write ch). ptr_ok mem (fst s) (snd s))"
    using walk by (cases; fastforce simp: pop_avail_race_eq [OF assms] Let_def res_simps split: if_splits)+
qed

lemma push_used_race_eq:
  assumes "documented_vring V" "regions_aligned mem" "queue_aligned q"
  shows "push_used_race V mem q h l g1 g2 m =
    (case gpa_to_host mem (vq_used q) (4 + 8 * unat (vq_num q)) of
       None \<Rightarrow> Inl (IoError Other)
     | Some p \<Rightarrow>
         if vq_num q = 0 then Inl (Panicked DivideByZero)
         else let m1 = ram_write (ptr_add p (4 + 8 * (unat (used_idx V m p) mod unat (vq_num q))))
                (to_le32 (ucast h) @ to_le32 l) (g1 m)
           in Inr (m1, ram_write (ptr_add p 2) (to_le16 (used_idx V m p + 1)) (g2 m1)))"
proof (cases "gpa_to_host mem (vq_used q) (4 + 8 * unat (vq_num q))")
  case None
  then show ?thesis using assms(1) by (simp add: push_used_race_def documented_vring_def guest_ptr_def)
next
  case (Some p)
  note rd = used_ring_reads [OF assms Some]
  show ?thesis
  proof (cases "vq_num q = 0")
    case True
    then show ?thesis
      using Some assms(1) rd(1) [of m]
      by (simp add: push_used_race_def documented_vring_def guest_ptr_def ring_slot_def)
  next
    case False
    let ?s = "unat (used_idx V m p) mod unat (vq_num q)"
    have s: "ring_slot (used_idx V m p) (vq_num q) = Inr ?s" using False by (simp add: ring_slot_Inr_iff)
    then show ?thesis
      using Some False assms(1) rd(1) [of m] rd(3)
        rd(2) [OF _ ring_slot_less [OF s], of "to_le32 (ucast h) @ to_le32 l" "g1 m"]
      by (simp add: push_used_race_def documented_vring_def guest_ptr_def used_idx_def Let_def)
  qed
qed

lemma push_used_race_stores:
  assumes "documented_vring V" "regions_aligned mem" "queue_aligned q"
    and push: "push_used_race V mem q h l g1 g2 m = Inr (m1, m2)"
  shows "\<exists>p. gpa_to_host mem (vq_used q) (4 + 8 * unat (vq_num q)) = Some p \<and>
    same_outside (ptr_bytes p (4 + 8 * unat (vq_num q))) (g1 m) m1 \<and>
    same_outside (ptr_bytes p (4 + 8 * unat (vq_num q))) (g2 m1) m2 \<and>
    used_idx V m1 p = used_idx V (g1 m) p \<and>
    used_elem m1 p (unat (used_idx V m p) mod unat (vq_num q)) = to_le32 (ucast h) @ to_le32 l \<and>
    used_idx V m2 p = used_idx V m p + 1 \<and> (\<forall>s. used_elem m2 p s = used_elem (g2 m1) p s)"
proof -
  from push obtain p where p: "gpa_to_host mem (vq_used q) (4 + 8 * unat (vq_num q)) = Some p"
    and n: "vq_num q \<noteq> 0"
    by (auto simp: push_used_race_eq [OF assms(1-3)] split: option.splits if_splits)
  let ?s = "unat (used_idx V m p) mod unat (vq_num q)" and ?R = "ptr_bytes p (4 + 8 * unat (vq_num q))"
  let ?e = "to_le32 (ucast h) @ to_le32 l"
  from push p n have m: "m1 = ram_write (ptr_add p (4 + 8 * ?s)) ?e (g1 m)"
    "m2 = ram_write (ptr_add p 2) (to_le16 (used_idx V m p + 1)) (g2 m1)"
    by (auto simp: push_used_race_eq [OF assms(1-3)] Let_def)
  have "?s < unat (vq_num q)" using n by (simp add: unat_gt_0)
  then have "same_outside ?R (g1 m) m1" "same_outside ?R (g2 m1) m2"
    unfolding m by (auto intro!: same_outside_mono [OF ram_write_outside] ptr_bytes_add_subset)
  moreover have "used_idx V m1 p = used_idx V (g1 m) p"
    unfolding m(1) used_idx_def
    by (subst ram_read_write_disjoint) (auto simp: ptr_bytes_def ptr_add_def)
  moreover have "used_elem m1 p ?s = ?e"
    unfolding m(1) used_elem_def using ram_read_write_same [of "ptr_add p (4 + 8 * ?s)" ?e "g1 m"] by simp
  moreover have "used_idx V m2 p = used_idx V m p + 1"
    unfolding m(2) by (rule used_ring_write(2) [OF assms(1), of 0 1 "replicate 8 0"]) simp_all
  moreover have "used_elem m2 p s = used_elem (g2 m1) p s" for s
    unfolding m(2) used_elem_def by (rule ram_read_write_disjoint) (auto simp: ptr_bytes_def ptr_add_def)
  ultimately show ?thesis using p by blast
qed

lemma racing_push_no_ub:
  assumes "documented_vring V" "regions_aligned mem" "queue_aligned q"
  shows "push_used_race V mem q h l g1 g2 m \<noteq> Inl UndefinedBehaviour"
  by (auto simp: push_used_race_eq [OF assms] Let_def split: option.splits)

text \<open>
  C2. Memory safety of the rings against a hostile guest. With regions and ring addresses aligned
  as the virtio specification asks, neither taking a chain nor completing one ever reads or writes
  outside guest RAM or misaligned, whatever the rings and descriptors hold and however the guest changes
  them between one access and the next. The writable buffers handed to a device lie in guest RAM.
  Completing a chain stores only to the used ring, and in an order the guest can rely on: the
  element first, while the index is still the guest's to see as it was, then the index.
\<close>

theorem racing_guest_memory_safe:
  assumes "documented_vring V" "regions_aligned mem" "queue_aligned q"
  shows "pop_avail_race V mem ms q \<noteq> Inl UndefinedBehaviour
    \<and> push_used_race V mem q h l g1 g2 m \<noteq> Inl UndefinedBehaviour
    \<and> (case pop_avail_race V mem ms q of
         Inr (Some ch, q') \<Rightarrow> \<forall>s \<in> set (ch_write ch). ptr_ok mem (fst s) (snd s)
       | _ \<Rightarrow> True)
    \<and> (case push_used_race V mem q h l g1 g2 m of
         Inr (m1, m2) \<Rightarrow> \<exists>p. gpa_to_host mem (vq_used q) (4 + 8 * unat (vq_num q)) = Some p \<and>
           same_outside (ptr_bytes p (4 + 8 * unat (vq_num q))) (g1 m) m1 \<and>
           same_outside (ptr_bytes p (4 + 8 * unat (vq_num q))) (g2 m1) m2 \<and>
           used_idx V m1 p = used_idx V (g1 m) p \<and>
           used_elem m1 p (unat (used_idx V m p) mod unat (vq_num q)) = to_le32 (ucast h) @ to_le32 l \<and>
           used_idx V m2 p = used_idx V m p + 1 \<and> (\<forall>s. used_elem m2 p s = used_elem (g2 m1) p s)
       | Inl e \<Rightarrow> True)"
proof (intro conjI)
  show "pop_avail_race V mem ms q \<noteq> Inl UndefinedBehaviour" by (rule pop_avail_race_safe(1) [OF assms])
  show "push_used_race V mem q h l g1 g2 m \<noteq> Inl UndefinedBehaviour"
    by (rule racing_push_no_ub [OF assms])
qed (use pop_avail_race_safe(2) [OF assms, of ms] push_used_race_stores [OF assms, of h l g1 g2 m]
      in \<open>auto split: sum.splits option.splits\<close>)

section \<open>A driver that leaves alone what it published\<close>

text \<open>The descriptors of the chain and the data the device may read are in \<open>m'\<close> as in \<open>m\<close>.\<close>

definition leaves_chain ::
    "vring_abi \<Rightarrow> guest_memory \<Rightarrow> vring_queue \<Rightarrow> u16 \<Rightarrow> vring_desc list \<Rightarrow> ram \<Rightarrow> ram \<Rightarrow> bool" where
  "leaves_chain V mem q h ds m m' \<longleftrightarrow>
     chain_at V mem m' q h ds \<and> (\<forall>d \<in> set ds. chain_reads V mem m' [d] = chain_reads V mem m [d])"

lemma walk_chain_race_atomic:
  assumes "walk_chain V mem m q n idx ch = Inr ch'"
    and "\<And>ds t. chain_at V mem m q idx ds \<Longrightarrow> length ds \<le> n \<Longrightarrow> leaves_chain V mem q idx ds m (ms t)"
  shows "walk_chain_race V mem ms q n idx ch = Inr ch'"
  using assms
proof (induction n arbitrary: ms idx ch)
  case (Suc n)
  from Suc.prems(1) obtain d ch1 where d: "get_desc_head V mem m q idx = Inr d"
    and a: "add_desc V mem m d ch = Inr ch1"
    and w: "(if has_next V d then walk_chain V mem m q n (vd_next d) ch1 else Inr ch1) = Inr ch'"
    by (auto simp: res_simps)
  have same: "leaves_chain V mem q idx [d] m (ms t)" for t using Suc.prems(2) [of "[d]" t] d by simp
  then have d': "get_desc_head V mem (ms 0) q idx = Inr d" by (simp add: leaves_chain_def)
  have "add_desc V mem (ms 1) d ch = Inr ch1"
    using a same [of 1] by (simp add: add_desc_Inr_iff leaves_chain_def)
  moreover have "walk_chain_race V mem (\<lambda>t. ms (t + 2)) q n (vd_next d) ch1 = Inr ch'" if "has_next V d"
  proof (rule Suc.IH)
    show "walk_chain V mem m q n (vd_next d) ch1 = Inr ch'" using w that by simp
    fix ds t assume "chain_at V mem m q (vd_next d) ds" "length ds \<le> n"
    then have "leaves_chain V mem q idx (d # ds) m (ms (t + 2))"
      using Suc.prems(2) [of "d # ds" "t + 2"] d that by simp
    then show "leaves_chain V mem q (vd_next d) ds m (ms (t + 2))"
      by (cases ds) (simp_all add: leaves_chain_def)
  qed
  ultimately show ?case using d' w by (simp split: if_splits)
qed simp

text \<open>
  C19. Taking a chain is atomic for a driver that leaves alone what it published: when the RAM as the
  index is read holds a chain the device can take, and in every later access its head, its descriptors
  and the data it offers are as they were, whatever else the guest writes, more heads and more
  chains included, the device takes the chain and the data it would have taken had the guest stood still.
\<close>

theorem pop_avail_race_atomic:
  assumes "documented_vring V" "regions_aligned mem" "queue_aligned q"
    and "gpa_to_host mem (vq_avail q) (4 + 2 * unat (vq_num q)) = Some p"
    and "pop_avail V mem (ms 0) q = Inr (Some ch, q')"
    and "avail_head (ms 1) p (unat (vq_last_avail q) mod unat (vq_num q)) = ch_head ch"
    and "\<And>ds t. chain_at V mem (ms 0) q (ch_head ch) ds \<Longrightarrow> length ds \<le> unat (vq_num q) \<Longrightarrow>
      leaves_chain V mem q (ch_head ch) ds (ms 0) (ms (t + 2))"
  shows "pop_avail_race V mem ms q = Inr (Some ch, q')"
proof -
  let ?h = "avail_head (ms 0) p (unat (vq_last_avail q) mod unat (vq_num q))"
  from assms(4,5) have pop: "vq_last_avail q \<noteq> avail_idx V (ms 0) p" "vq_num q \<noteq> 0"
    "walk_chain V mem (ms 0) q (unat (vq_num q)) ?h \<lparr>ch_head = ?h, ch_read = [], ch_write = []\<rparr> = Inr ch"
    "q' = q\<lparr>vq_last_avail := vq_last_avail q + 1\<rparr>"
    by (auto simp: pop_avail_eq [OF assms(1-3)] Let_def res_simps split: if_splits)
  have "ch_head ch = ?h" using walk_chain_spec [OF pop(3)] pop(2) by (auto simp: unat_eq_0)
  with walk_chain_race_atomic [OF pop(3), of "\<lambda>t. ms (t + 2)"] assms(6,7) pop(1,2,4) show ?thesis
    by (simp add: pop_avail_race_eq [OF assms(1-4)] Let_def)
qed

section \<open>Notifications\<close>

text \<open>What the guest writes during one round of the loop: before each access that takes a chain, while
  the device processes it, and before each access that completes it.\<close>

record guest_moves =
  gm_reads :: "nat \<Rightarrow> ram \<Rightarrow> ram"
  gm_process :: "ram \<Rightarrow> ram"
  gm_used :: "ram \<Rightarrow> ram"
  gm_elem :: "ram \<Rightarrow> ram"
  gm_index :: "ram \<Rightarrow> ram"

definition no_moves :: guest_moves where
  "no_moves = \<lparr>gm_reads = (\<lambda>_ m. m), gm_process = id, gm_used = id, gm_elem = id, gm_index = id\<rparr>"

definition notify_step_race ::
    "mmio_abi \<Rightarrow> vring_abi \<Rightarrow> irq_env \<Rightarrow> guest_memory \<Rightarrow> 'd virtio_ops \<Rightarrow> u32 \<Rightarrow> guest_moves \<Rightarrow>
      ('d vio_world, bool) oper" where
  "notify_step_race A V env mem ops qi g = (\<lambda>(v, m, log).
     if \<not> op_can_process ops (vio_device v) qi then (Inr False, v, m, log)
     else case pop_avail_race V mem (\<lambda>t. gm_reads g t m) (vio_queue v ! unat qi) of
       Inl e \<Rightarrow> (Inl e, v, m, log)
     | Inr (None, q) \<Rightarrow> (Inr False, v, m, log)
     | Inr (Some ch, q) \<Rightarrow>
         (let v = v\<lparr>vio_queue := (vio_queue v)[unat qi := q]\<rparr>
          in case op_process ops qi ch (vio_device v, gm_process g m) of
               (Inl e, d, m) \<Rightarrow> (Inl e, v\<lparr>vio_device := d\<rparr>, m, log)
             | (Inr len, d, m) \<Rightarrow>
                 (let v = v\<lparr>vio_device := d\<rparr>
                  in case push_used_race V mem q (ch_head ch) len (gm_elem g) (gm_index g) (gm_used g m) of
                       Inl e \<Rightarrow> (Inl e, v, m, log)
                     | Inr (m1, m) \<Rightarrow>
                         (let v = v\<lparr>vio_irq_status := vio_irq_status v OR virtio_mmio_int_vring A\<rparr>
                          in case arch_update_irq env 1 (vio_irq v) log of
                               (Inl e, log) \<Rightarrow> (Inl e, v, m, log)
                             | (Inr _, log) \<Rightarrow> (Inr True, v, m, log)))))"

text \<open>The first rounds of the loop, one for each of the guest's moves; \<open>Inr True\<close> when it still goes on.\<close>

fun notify_race ::
    "mmio_abi \<Rightarrow> vring_abi \<Rightarrow> irq_env \<Rightarrow> guest_memory \<Rightarrow> 'd virtio_ops \<Rightarrow> u32 \<Rightarrow> guest_moves list \<Rightarrow>
      ('d vio_world, bool) oper" where
  "notify_race A V env mem ops qi [] w = (Inr True, w)"
| "notify_race A V env mem ops qi (g # gs) w =
     (case notify_step_race A V env mem ops qi g w of
        (Inl e, w') \<Rightarrow> (Inl e, w')
      | (Inr b, w') \<Rightarrow> if b then notify_race A V env mem ops qi gs w' else (Inr False, w'))"

lemma notify_step_still:
  "notify_step_race A V env mem ops qi no_moves w = notify_step A V env mem ops qi w"
proof -
  have r: "push_used V mem q h l m = Inr m2 \<longleftrightarrow> (\<exists>m1. push_used_race V mem q h l id id m = Inr (m1, m2))"
    "push_used V mem q h l m = Inl e \<longleftrightarrow> push_used_race V mem q h l id id m = Inl e" for q h l m m2 e
    by (auto simp: push_used_still res_simps)
  show ?thesis
    by (cases w) (auto simp: notify_step_race_def notify_step_def no_moves_def pop_avail_still r Let_def
        split: sum.split option.split prod.split)
qed

text \<open>With a still guest, rounds that end are the loop.\<close>

lemma notify_race_still:
  assumes "notify_race A V env mem ops qi (replicate n no_moves) w = (r, w')" and "r \<noteq> Inr True"
  shows "notify_loop A V env mem ops qi w = Some (try_res r (\<lambda>_. Inr ()), w')"
  using assms
proof (induction n arbitrary: w)
  case (Suc n)
  then show ?case
    by (subst notify_loop.simps) (auto simp: notify_step_still split: prod.splits sum.splits if_splits)
qed auto

text \<open>What every round keeps, whatever the guest does.\<close>

definition race_ok :: "('d \<Rightarrow> bool) \<Rightarrow> u32 \<Rightarrow> 'd virtio_mmio \<Rightarrow> bool" where
  "race_ok invar qi v \<longleftrightarrow> unat qi < length (vio_queue v) \<and> queue_aligned (vio_queue v ! unat qi) \<and>
     invar (vio_device v)"

context virtio_device
begin

lemma notify_step_race_safe:
  assumes "documented_vring V" "regions_aligned mem" and ok: "race_ok invar qi v"
  shows "fst (notify_step_race A V env mem ops qi g (v, m, log)) \<noteq> Inl UndefinedBehaviour"
    and "notify_step_race A V env mem ops qi g (v, m, log) = (Inr True, v', w') \<Longrightarrow> race_ok invar qi v'"
proof -
  let ?pop = "pop_avail_race V mem (\<lambda>t. gm_reads g t m) (vio_queue v ! unat qi)"
  have inv: "invar (vio_device v)" and al: "queue_aligned (vio_queue v ! unat qi)"
    using ok by (simp_all add: race_ok_def)
  note pop = pop_avail_race_safe [OF assms(1,2) al, of "\<lambda>t. gm_reads g t m"]
  have al': "queue_aligned q" if "?pop = Inr (Some ch, q)" for ch q
    using pop(2) [OF that] al by (simp add: queue_aligned_def)
  have push: "push_used_race V mem q h l g1 g2 m' \<noteq> Inl UndefinedBehaviour"
    if "?pop = Inr (Some ch, q)" for ch q h l g1 g2 m'
    using racing_push_no_ub [OF assms(1,2) al' [OF that]] .
  show "fst (notify_step_race A V env mem ops qi g (v, m, log)) \<noteq> Inl UndefinedBehaviour"
    using pop(1) push process_no_ub [OF inv]
    by (auto simp: notify_step_race_def Let_def arch_update_irq_def
        split: if_splits sum.splits option.splits prod.splits)
  assume "notify_step_race A V env mem ops qi g (v, m, log) = (Inr True, v', w')"
  then show "race_ok invar qi v'"
    using ok al' process_invar [OF inv]
    by (auto simp: notify_step_race_def race_ok_def Let_def
        split: if_splits sum.splits option.splits prod.splits)
qed

lemma notify_race_safe:
  assumes "documented_vring V" "regions_aligned mem" and "race_ok invar qi v"
  shows "fst (notify_race A V env mem ops qi gs (v, m, log)) \<noteq> Inl UndefinedBehaviour"
  using assms(3)
proof (induction gs arbitrary: v m log)
  case (Cons g gs)
  obtain r v' m' log' where st: "notify_step_race A V env mem ops qi g (v, m, log) = (r, v', m', log')"
    by (cases "notify_step_race A V env mem ops qi g (v, m, log)")
  show ?case
    using notify_step_race_safe [OF assms(1,2) Cons.prems, of A env g m log] st Cons.IH [of v' m' log']
    by (auto split: sum.splits)
qed simp

end


section \<open>Witnesses\<close>

text \<open>A guest that overwrites all of RAM once the device has read the head.\<close>

definition hostile_ram :: "nat \<Rightarrow> ram" where
  "hostile_ram t = (if t < 2 then demo_ram else (\<lambda>_ _. 0x22))"

lemma demo_avail: "avail_idx linux_vring demo_ram (0, 0x40) = 1" "avail_head demo_ram (0, 0x40) 0 = 1"
  by (simp_all add: avail_idx_def avail_head_def ptr_add_def demo_reads from_le16_def)

lemma demo_fields: "vq_last_avail demo_queue = 0" "vq_num demo_queue = 2"
  by (simp_all add: demo_queue_def)

lemma hostile_walk:
  "walk_chain_race linux_vring demo_mem (\<lambda>t. hostile_ram (t + 2)) demo_queue 2 1 ch = Inl (IoError Other)"
proof -
  have junk: "ram_read (\<lambda>_ _. 0x22) (0, 0x20) 16 =
      [0x22, 0x22, 0x22, 0x22, 0x22, 0x22, 0x22, 0x22,
      0x22, 0x22, 0x22, 0x22, 0x22, 0x22, 0x22, 0x22]"
    by (simp add: byte_eval)
  let ?d = "\<lparr>vd_addr = 0x2222222222222222, vd_len = 0x22222222, vd_flags = 0x2222, vd_next = 0x2222\<rparr> :: vring_desc"
  have "get_desc_head linux_vring demo_mem (\<lambda>_ _. 0x22) demo_queue 1 = Inr ?d"
    by (simp add: get_desc_head_def checked_mul_def checked_add_def demo_queue_def demo_mem_def
        gpa_to_host_def region_offset_def checked_sub_def read_guest_ptr_def ptr_ok_def
        ptr_aligned_def junk byte_enc_defs)
  moreover have "add_desc linux_vring demo_mem m ?d ch = Inl (IoError Other)" for m
    by (simp add: add_desc_def desc_type_of_def guest_ptr_def demo_mem_def gpa_to_host_def
        region_offset_def checked_sub_def)
  ultimately show ?thesis
    by (simp add: walk_chain_race.simps(2) [where n = 1, unfolded Suc_1] hostile_ram_def)
qed

theorem racing_guest_memory_safe_witness:
  "pop_avail_race linux_vring demo_mem hostile_ram demo_queue = Inl (IoError Other) \<and>
   (\<exists>m1 m2. push_used_race linux_vring demo_mem demo_queue 1 3 id (\<lambda>m. ram_write (0, 0x82) [7, 7] m) demo_ram =
      Inr (m1, m2) \<and> used_idx linux_vring m1 (0, 0x80) = 0 \<and> used_idx linux_vring m2 (0, 0x80) = 1)"
proof
  show "pop_avail_race linux_vring demo_mem hostile_ram demo_queue = Inl (IoError Other)"
    by (simp add: pop_avail_race_eq [OF documented_linux_vring demo_aligned demo_ptrs(1)] demo_fields
        hostile_ram_def demo_avail Let_def hostile_walk [unfolded hostile_ram_def, simplified])
  have i: "used_idx linux_vring demo_ram (0, 0x80) = 0" by (simp add: used_idx_def demo_ram_def byte_eval)
  obtain m1 m2 where "push_used_race linux_vring demo_mem demo_queue 1 3 id (\<lambda>m. ram_write (0, 0x82) [7, 7] m)
      demo_ram = Inr (m1, m2)"
    using demo_ptrs(2,3) by (auto simp: push_used_race_eq [OF documented_linux_vring demo_aligned] Let_def)
  with racing_guest_memory_safe [OF documented_linux_vring demo_aligned,
      of hostile_ram 1 3 id "\<lambda>m. ram_write (0, 0x82) [7, 7] m" demo_ram] demo_ptrs(2) i
  show "\<exists>m1 m2. push_used_race linux_vring demo_mem demo_queue 1 3 id (\<lambda>m. ram_write (0, 0x82) [7, 7] m) demo_ram =
      Inr (m1, m2) \<and> used_idx linux_vring m1 (0, 0x80) = 0 \<and> used_idx linux_vring m2 (0, 0x80) = 1"
    by auto
qed

text \<open>A driver that publishes another head meanwhile.\<close>

definition busy_ram :: "nat \<Rightarrow> ram" where
  "busy_ram t = (if t = 0 then demo_ram else driver_publish linux_vring (0, 0x40) 2 0 demo_ram)"

lemma busy_outside: "same_outside (ptr_bytes (0, 0x40) 8) demo_ram (busy_ram t)"
proof -
  let ?m1 = "ram_write (0, 0x46) (to_le16 0) demo_ram" and ?R = "ptr_bytes (0, 0x40) 8"
  have "busy_ram t = demo_ram \<or> busy_ram t = ram_write (0, 0x42) (to_le16 2) ?m1"
    by (simp add: busy_ram_def driver_publish_def ptr_add_def demo_avail)
  moreover have "same_outside ?R demo_ram ?m1" "same_outside ?R ?m1 (ram_write (0, 0x42) (to_le16 2) ?m1)"
    by (auto intro!: same_outside_mono [OF ram_write_outside] simp: ptr_bytes_def)
  ultimately show ?thesis by (auto intro: same_outside_trans simp: same_outside_def)
qed

lemma busy_leaves:
  assumes "chain_at linux_vring demo_mem demo_ram demo_queue 1 ds"
  shows "leaves_chain linux_vring demo_mem demo_queue 1 ds demo_ram (busy_ram t)"
proof -
  let ?d = "\<lparr>vd_addr = 0x100, vd_len = 3, vd_flags = 2, vd_next = 0\<rparr> :: vring_desc"
  have ds: "ds = [] \<or> ds = [?d]"
    using assms by (cases ds; cases "tl ds") (auto simp: demo_desc has_next_def)
  have "ptr_bytes (0, 0x40) 8 \<inter> desc_table demo_mem demo_queue = {}"
    using demo_table by (auto simp: ptr_bytes_def)
  from get_desc_head_same [OF documented_linux_vring busy_outside this, of 1 t] ds show ?thesis
    by (auto simp: leaves_chain_def demo_desc demo_fields chain_reads_def desc_type_of_def)
qed

theorem pop_avail_race_atomic_witness:
  "pop_avail_race linux_vring demo_mem busy_ram demo_queue =
     Inr (Some \<lparr>ch_head = 1, ch_read = [], ch_write = [((0, 0x100), 3)]\<rparr>, demo_queue\<lparr>vq_last_avail := 1\<rparr>)"
proof (rule pop_avail_race_atomic [OF documented_linux_vring demo_aligned demo_ptrs(1)])
  show "pop_avail linux_vring demo_mem (busy_ram 0) demo_queue =
     Inr (Some \<lparr>ch_head = 1, ch_read = [], ch_write = [((0, 0x100), 3)]\<rparr>, demo_queue\<lparr>vq_last_avail := 1\<rparr>)"
    by (simp add: busy_ram_def demo_pop)
qed (simp_all add: busy_ram_def [of 0] busy_leaves, simp add: busy_ram_def demo_fields demo_avail
      driver_publish_reads [OF documented_linux_vring])


end
