(* ===== verification/I8042.thy ===== *)
theory I8042
  imports Irq_Line Byte_Fifo Vm_Control Util_Binary
begin

text \<open>
  The PS/2 controller with its keyboard, \<open>src/src/arch/x86_64/i8042.rs\<close>: the controller and
  keyboard commands, the output buffer with its queue, the interrupt line, and the mapping of
  X11 keysyms to scancode set 1. A handler's state is the access's data bytes, the controller,
  the VM's control block (a reset stops the VM) and the log of interrupt calls.
\<close>

section \<open>Constants\<close>

abbreviation (input) I8042_DATA :: u16 where "I8042_DATA \<equiv> 0x60"
abbreviation (input) I8042_COMMAND :: u16 where "I8042_COMMAND \<equiv> 0x64"
abbreviation (input) I8042_IRQ :: u32 where "I8042_IRQ \<equiv> 1"

abbreviation (input) STATUS_OBF :: u8 where "STATUS_OBF \<equiv> 0x01"
abbreviation (input) STATUS_SYS :: u8 where "STATUS_SYS \<equiv> 0x04"
abbreviation (input) STATUS_CMD :: u8 where "STATUS_CMD \<equiv> 0x08"
abbreviation (input) STATUS_UNLOCKED :: u8 where "STATUS_UNLOCKED \<equiv> 0x10"

abbreviation (input) CONFIG_KBD_INT :: u8 where "CONFIG_KBD_INT \<equiv> 0x01"
abbreviation (input) CONFIG_SYS :: u8 where "CONFIG_SYS \<equiv> 0x04"
abbreviation (input) CONFIG_KBD_DISABLE :: u8 where "CONFIG_KBD_DISABLE \<equiv> 0x10"
abbreviation (input) CONFIG_AUX_DISABLE :: u8 where "CONFIG_AUX_DISABLE \<equiv> 0x20"
abbreviation (input) CONFIG_TRANSLATE :: u8 where "CONFIG_TRANSLATE \<equiv> 0x40"

abbreviation (input) CMD_READ_CONFIG :: u8 where "CMD_READ_CONFIG \<equiv> 0x20"
abbreviation (input) CMD_WRITE_CONFIG :: u8 where "CMD_WRITE_CONFIG \<equiv> 0x60"
abbreviation (input) CMD_AUX_DISABLE :: u8 where "CMD_AUX_DISABLE \<equiv> 0xa7"
abbreviation (input) CMD_AUX_ENABLE :: u8 where "CMD_AUX_ENABLE \<equiv> 0xa8"
abbreviation (input) CMD_SELF_TEST :: u8 where "CMD_SELF_TEST \<equiv> 0xaa"
abbreviation (input) CMD_KBD_TEST :: u8 where "CMD_KBD_TEST \<equiv> 0xab"
abbreviation (input) CMD_KBD_DISABLE :: u8 where "CMD_KBD_DISABLE \<equiv> 0xad"
abbreviation (input) CMD_KBD_ENABLE :: u8 where "CMD_KBD_ENABLE \<equiv> 0xae"
abbreviation (input) CMD_WRITE_OUTPUT_PORT :: u8 where "CMD_WRITE_OUTPUT_PORT \<equiv> 0xd1"
abbreviation (input) CMD_WRITE_KBD_OUTPUT :: u8 where "CMD_WRITE_KBD_OUTPUT \<equiv> 0xd2"
abbreviation (input) CMD_PULSE_RESET :: u8 where "CMD_PULSE_RESET \<equiv> 0xfe"

abbreviation (input) KBD_SET_LEDS :: u8 where "KBD_SET_LEDS \<equiv> 0xed"
abbreviation (input) KBD_ECHO :: u8 where "KBD_ECHO \<equiv> 0xee"
abbreviation (input) KBD_SCANCODE_SET :: u8 where "KBD_SCANCODE_SET \<equiv> 0xf0"
abbreviation (input) KBD_GET_ID :: u8 where "KBD_GET_ID \<equiv> 0xf2"
abbreviation (input) KBD_SET_TYPEMATIC :: u8 where "KBD_SET_TYPEMATIC \<equiv> 0xf3"
abbreviation (input) KBD_ENABLE :: u8 where "KBD_ENABLE \<equiv> 0xf4"
abbreviation (input) KBD_DISABLE :: u8 where "KBD_DISABLE \<equiv> 0xf5"
abbreviation (input) KBD_RESET :: u8 where "KBD_RESET \<equiv> 0xff"
abbreviation (input) KBD_ACK :: u8 where "KBD_ACK \<equiv> 0xfa"
abbreviation (input) KBD_SELF_TEST_OK :: u8 where "KBD_SELF_TEST_OK \<equiv> 0xaa"
abbreviation (input) KBD_ID :: "u8 list" where "KBD_ID \<equiv> [0xab, 0x83]"

section \<open>The controller\<close>

text \<open>\<open>vm_fd\<close> and \<open>control\<close> are not fields: the calls through them are in the state beside it.\<close>

record i8042 =
  kb_config :: u8
  kb_output :: "u8 option"
  kb_queue :: "u8 list"
  kb_controller_param :: "u8 option"
  kb_keyboard_param :: "u8 option"
  kb_status_cmd :: bool
  kb_scanning :: bool
  kb_irq_level :: bool

definition i8042_new :: i8042 where
  "i8042_new = \<lparr>kb_config = CONFIG_KBD_INT OR CONFIG_SYS OR CONFIG_AUX_DISABLE OR CONFIG_TRANSLATE,
     kb_output = None, kb_queue = [], kb_controller_param = None, kb_keyboard_param = None,
     kb_status_cmd = False, kb_scanning = True, kb_irq_level = False\<rparr>"

text \<open>\<open>self.output = self.queue.pop_front()\<close>.\<close>

definition i8042_load :: "i8042 \<Rightarrow> i8042" where
  "i8042_load k = (case kb_queue k of
     [] \<Rightarrow> k\<lparr>kb_output := None\<rparr>
   | b # r \<Rightarrow> k\<lparr>kb_output := Some b, kb_queue := r\<rparr>)"

definition i8042_push :: "u8 \<Rightarrow> i8042 \<Rightarrow> i8042" where
  "i8042_push byte k =
     (let k' = k\<lparr>kb_queue := kb_queue k @ [byte]\<rparr>
      in if kb_output k' = None then i8042_load k' else k')"

definition i8042_level :: "i8042 \<Rightarrow> bool" where
  "i8042_level k \<longleftrightarrow> kb_output k \<noteq> None \<and> kb_config k AND CONFIG_KBD_INT \<noteq> 0"

definition i8042_update_irq :: "irq_env \<Rightarrow> (i8042 \<times> irq_log, unit) oper" where
  "i8042_update_irq env = (\<lambda>(k, log).
     let level = i8042_level k
     in if level \<noteq> kb_irq_level k
        then (case arch_update_irq env (if level then 1 else 0) I8042_IRQ log of
                (r, log') \<Rightarrow> (r, k\<lparr>kb_irq_level := level\<rparr>, log'))
        else (Inr (), k, log))"

definition i8042_read_data :: "irq_env \<Rightarrow> (i8042 \<times> irq_log, u8) oper" where
  "i8042_read_data env = (\<lambda>(k, log).
     let byte = (case kb_output k of None \<Rightarrow> 0 | Some b \<Rightarrow> b)
     in then_op (i8042_update_irq env) (\<lambda>_ (k', log'). (Inr byte, i8042_load k', log'))
          (k\<lparr>kb_output := None\<rparr>, log))"

definition i8042_status :: "i8042 \<Rightarrow> u8" where
  "i8042_status k =
     STATUS_UNLOCKED
     OR (if kb_output k \<noteq> None then STATUS_OBF else 0)
     OR (if kb_config k AND CONFIG_SYS \<noteq> 0 then STATUS_SYS else 0)
     OR (if kb_status_cmd k then STATUS_CMD else 0)"

definition i8042_controller_command :: "u8 \<Rightarrow> i8042 \<times> vm_control \<Rightarrow> i8042 \<times> vm_control" where
  "i8042_controller_command cmd = (\<lambda>(k, c).
     if cmd = CMD_READ_CONFIG then (i8042_push (kb_config k) k, c)
     else if cmd = CMD_WRITE_CONFIG \<or> cmd = CMD_WRITE_OUTPUT_PORT \<or> cmd = CMD_WRITE_KBD_OUTPUT
       then (k\<lparr>kb_controller_param := Some cmd\<rparr>, c)
     else if cmd = CMD_AUX_DISABLE then (k\<lparr>kb_config := kb_config k OR CONFIG_AUX_DISABLE\<rparr>, c)
     else if cmd = CMD_AUX_ENABLE then (k\<lparr>kb_config := kb_config k AND NOT CONFIG_AUX_DISABLE\<rparr>, c)
     else if cmd = CMD_SELF_TEST
       then (i8042_push 0x55 (k\<lparr>kb_config := kb_config k OR CONFIG_SYS\<rparr>), c)
     else if cmd = CMD_KBD_TEST then (i8042_push 0x00 k, c)
     else if cmd = CMD_KBD_DISABLE then (k\<lparr>kb_config := kb_config k OR CONFIG_KBD_DISABLE\<rparr>, c)
     else if cmd = CMD_KBD_ENABLE then (k\<lparr>kb_config := kb_config k AND NOT CONFIG_KBD_DISABLE\<rparr>, c)
     else if cmd = CMD_PULSE_RESET then (k, ctl_stop c)
     else (k, c))"

definition i8042_controller_param :: "u8 \<Rightarrow> u8 \<Rightarrow> i8042 \<times> vm_control \<Rightarrow> i8042 \<times> vm_control" where
  "i8042_controller_param cmd byte = (\<lambda>(k, c).
     if cmd = CMD_WRITE_CONFIG then (k\<lparr>kb_config := byte\<rparr>, c)
     else if cmd = CMD_WRITE_OUTPUT_PORT \<and> byte AND 1 = 0
       then i8042_controller_command CMD_PULSE_RESET (k, c)
     else if cmd = CMD_WRITE_KBD_OUTPUT then (i8042_push byte k, c)
     else (k, c))"

definition i8042_keyboard_command :: "u8 \<Rightarrow> i8042 \<Rightarrow> i8042" where
  "i8042_keyboard_command byte k0 =
     (let k = k0\<lparr>kb_config := kb_config k0 AND NOT CONFIG_KBD_DISABLE\<rparr>
      in case kb_keyboard_param k of
           Some cmd \<Rightarrow>
             (let k = k\<lparr>kb_keyboard_param := None\<rparr>
              in if cmd = KBD_SCANCODE_SET \<and> byte = 0 then i8042_push 1 (i8042_push KBD_ACK k)
                 else i8042_push KBD_ACK k)
         | None \<Rightarrow>
             if byte = KBD_SET_LEDS \<or> byte = KBD_SCANCODE_SET \<or> byte = KBD_SET_TYPEMATIC
               then i8042_push KBD_ACK (k\<lparr>kb_keyboard_param := Some byte\<rparr>)
             else if byte = KBD_ECHO then i8042_push KBD_ECHO k
             else if byte = KBD_GET_ID
               then foldl (\<lambda>s b. i8042_push b s) (i8042_push KBD_ACK k) KBD_ID
             else if byte = KBD_ENABLE then i8042_push KBD_ACK (k\<lparr>kb_scanning := True\<rparr>)
             else if byte = KBD_DISABLE then i8042_push KBD_ACK (k\<lparr>kb_scanning := False\<rparr>)
             else if byte = KBD_RESET
               then i8042_push KBD_SELF_TEST_OK
                 (i8042_push KBD_ACK (k\<lparr>kb_scanning := True, kb_queue := []\<rparr>))
             else i8042_push KBD_ACK k)"

section \<open>Port accesses\<close>

type_synonym i8042_world = "u8 list \<times> i8042 \<times> vm_control \<times> irq_log"

text \<open>The \<open>match\<close> of \<open>handle\<close>; \<open>buf\<close> is the slice of \<open>size\<close> bytes.\<close>

definition i8042_access :: "irq_env \<Rightarrow> io_direction \<Rightarrow> u16 \<Rightarrow> (i8042_world, unit) oper" where
  "i8042_access env dir port = (\<lambda>(buf, k, c, log).
     case dir of
       KVM_EXIT_IO_IN \<Rightarrow>
         if port = I8042_DATA then
           (case i8042_read_data env (k, log) of
              (Inl e, k', log') \<Rightarrow> (Inl e, buf, k', c, log')
            | (Inr b, k', log') \<Rightarrow>
                (case data_set0 b buf of
                   Inl e \<Rightarrow> (Inl e, buf, k', c, log')
                 | Inr buf' \<Rightarrow> (Inr (), buf', k', c, log')))
         else if port = I8042_COMMAND then
           (case data_set0 (i8042_status k) buf of
              Inl e \<Rightarrow> (Inl e, buf, k, c, log)
            | Inr buf' \<Rightarrow> (Inr (), buf', k, c, log))
         else (Inr (), replicate (length buf) 0xff, k, c, log)
     | KVM_EXIT_IO_OUT \<Rightarrow>
         if port = I8042_DATA then
           (let k = k\<lparr>kb_status_cmd := False\<rparr>
            in case data_get0 buf of
                 Inl e \<Rightarrow> (Inl e, buf, k\<lparr>kb_controller_param := None\<rparr>, c, log)
               | Inr b \<Rightarrow>
                   (case kb_controller_param k of
                      Some cmd \<Rightarrow>
                        (case i8042_controller_param cmd b (k\<lparr>kb_controller_param := None\<rparr>, c) of
                           (k', c') \<Rightarrow> (Inr (), buf, k', c', log))
                    | None \<Rightarrow> (Inr (), buf, i8042_keyboard_command b k, c, log)))
         else if port = I8042_COMMAND then
           (let k = k\<lparr>kb_status_cmd := True, kb_controller_param := None\<rparr>
            in case data_get0 buf of
                 Inl e \<Rightarrow> (Inl e, buf, k, c, log)
               | Inr b \<Rightarrow>
                   (case i8042_controller_command b (k, c) of
                      (k', c') \<Rightarrow> (Inr (), buf, k', c', log)))
         else (Inr (), buf, k, c, log)
     | KVM_EXIT_IO_other _ \<Rightarrow> (Inr (), buf, k, c, log))"

definition i8042_handle :: "irq_env \<Rightarrow> io_exit \<Rightarrow> (i8042_world, unit) oper" where
  "i8042_handle env io = (\<lambda>(data, k, c, log).
     case then_op (i8042_access env (io_direction io) (io_port io))
            (\<lambda>_ (buf, k, c, log). case i8042_update_irq env (k, log) of
                (r, k', log') \<Rightarrow> (r, buf, k', c, log'))
            (take (io_size io) data, k, c, log) of
       (r, buf, w) \<Rightarrow> (r, buf @ drop (io_size io) data, w))"

section \<open>Keys\<close>

abbreviation (input) ROW_QWERTY :: "u8 list" where
  "ROW_QWERTY \<equiv> [0x71, 0x77, 0x65, 0x72, 0x74, 0x79, 0x75, 0x69, 0x6f, 0x70]"
abbreviation (input) ROW_ASDF :: "u8 list" where
  "ROW_ASDF \<equiv> [0x61, 0x73, 0x64, 0x66, 0x67, 0x68, 0x6a, 0x6b, 0x6c]"
abbreviation (input) ROW_ZXCV :: "u8 list" where
  "ROW_ZXCV \<equiv> [0x7a, 0x78, 0x63, 0x76, 0x62, 0x6e, 0x6d]"

definition ascii_lower :: "u8 \<Rightarrow> u8" where
  "ascii_lower c = (if 0x41 \<le> c \<and> c \<le> 0x5a then c + 0x20 else c)"

definition letter_code :: "u8 \<Rightarrow> u8 option" where
  "letter_code c =
     (case position (\<lambda>k. k = c) ROW_QWERTY of
        Some i \<Rightarrow> Some (0x10 + word_of_nat i)
      | None \<Rightarrow> (case position (\<lambda>k. k = c) ROW_ASDF of
          Some i \<Rightarrow> Some (0x1e + word_of_nat i)
        | None \<Rightarrow> map_option (\<lambda>i. 0x2c + word_of_nat i) (position (\<lambda>k. k = c) ROW_ZXCV)))"

text \<open>The keys with a \<open>0xe0\<close> prefix, the inner \<open>match\<close>.\<close>

definition extended_code :: "u32 \<Rightarrow> u8 option" where
  "extended_code s =
     (if s = 0xffe4 then Some 0x1d else if s = 0xffea \<or> s = 0xfe03 then Some 0x38
      else if s = 0xff50 then Some 0x47 else if s = 0xff52 then Some 0x48
      else if s = 0xff55 then Some 0x49 else if s = 0xff51 then Some 0x4b
      else if s = 0xff53 then Some 0x4d else if s = 0xff57 then Some 0x4f
      else if s = 0xff54 then Some 0x50 else if s = 0xff56 then Some 0x51
      else if s = 0xff63 then Some 0x52 else if s = 0xffff then Some 0x53
      else None)"

text \<open>
  The narrowing casts of the digit and function-key arms are of values that fit, and the
  \<open>u8\<close> arithmetic of these arms stays below \<open>0x80\<close>, so nothing overflows.
\<close>

definition keysym_to_set1 :: "u32 \<Rightarrow> (bool \<times> u8) option" where
  "keysym_to_set1 s =
     (if s = 0x30 then Some (False, 0x0b)
      else if 0x31 \<le> s \<and> s \<le> 0x39 then Some (False, ucast s - 0x31 + 0x02)
      else if (0x41 \<le> s \<and> s \<le> 0x5a) \<or> (0x61 \<le> s \<and> s \<le> 0x7a)
        then map_option (Pair False) (letter_code (ascii_lower (ucast s)))
      else if s = 0x21 then Some (False, 0x02) else if s = 0x40 then Some (False, 0x03)
      else if s = 0x23 then Some (False, 0x04) else if s = 0x24 then Some (False, 0x05)
      else if s = 0x25 then Some (False, 0x06) else if s = 0x5e then Some (False, 0x07)
      else if s = 0x26 then Some (False, 0x08) else if s = 0x2a then Some (False, 0x09)
      else if s = 0x28 then Some (False, 0x0a) else if s = 0x29 then Some (False, 0x0b)
      else if s = 0x2d \<or> s = 0x5f then Some (False, 0x0c)
      else if s = 0x3d \<or> s = 0x2b then Some (False, 0x0d)
      else if s = 0x5b \<or> s = 0x7b then Some (False, 0x1a)
      else if s = 0x5d \<or> s = 0x7d then Some (False, 0x1b)
      else if s = 0x3b \<or> s = 0x3a then Some (False, 0x27)
      else if s = 0x27 \<or> s = 0x22 then Some (False, 0x28)
      else if s = 0x60 \<or> s = 0x7e then Some (False, 0x29)
      else if s = 0x5c \<or> s = 0x7c then Some (False, 0x2b)
      else if s = 0x2c \<or> s = 0x3c then Some (False, 0x33)
      else if s = 0x2e \<or> s = 0x3e then Some (False, 0x34)
      else if s = 0x2f \<or> s = 0x3f then Some (False, 0x35)
      else if s = 0x20 then Some (False, 0x39)
      else if s = 0xff1b then Some (False, 0x01) else if s = 0xff08 then Some (False, 0x0e)
      else if s = 0xff09 then Some (False, 0x0f) else if s = 0xff0d then Some (False, 0x1c)
      else if s = 0xffe3 then Some (False, 0x1d) else if s = 0xffe1 then Some (False, 0x2a)
      else if s = 0xffe2 then Some (False, 0x36) else if s = 0xffe9 then Some (False, 0x38)
      else if s = 0xffe5 then Some (False, 0x3a)
      else if 0xffbe \<le> s \<and> s \<le> 0xffc7 then Some (False, ucast (s - 0xffbe) + 0x3b)
      else if s = 0xffc8 then Some (False, 0x57) else if s = 0xffc9 then Some (False, 0x58)
      else map_option (Pair True) (extended_code s))"

definition i8042_key_event :: "irq_env \<Rightarrow> bool \<Rightarrow> u32 \<Rightarrow> (i8042 \<times> irq_log, unit) oper" where
  "i8042_key_event env down keysym = (\<lambda>(k, log).
     if \<not> kb_scanning k \<or> kb_config k AND CONFIG_KBD_DISABLE \<noteq> 0 then (Inr (), k, log)
     else case keysym_to_set1 keysym of
       None \<Rightarrow> (Inr (), k, log)
     | Some (extended, code) \<Rightarrow>
         (let k = (if extended then i8042_push 0xe0 k else k);
              k = i8042_push (if down then code else code OR 0x80) k
          in i8042_update_irq env (k, log)))"

section \<open>The output buffer is a first-in first-out queue\<close>

definition i8042_contents :: "i8042 \<Rightarrow> u8 list" where
  "i8042_contents k = (case kb_output k of None \<Rightarrow> [] | Some b \<Rightarrow> b # kb_queue k)"

definition i8042_invar :: "i8042 \<Rightarrow> bool" where
  "i8042_invar k \<longleftrightarrow> (kb_output k = None \<longrightarrow> kb_queue k = [])"

text \<open>What reading the data port does to the buffer, the interrupt aside.\<close>

definition i8042_take :: "i8042 \<Rightarrow> u8 option \<times> i8042" where
  "i8042_take k = (kb_output k, i8042_load (k\<lparr>kb_output := None\<rparr>))"

lemma i8042_load_fields [simp]:
  "kb_config (i8042_load k) = kb_config k"
  "kb_controller_param (i8042_load k) = kb_controller_param k"
  "kb_keyboard_param (i8042_load k) = kb_keyboard_param k"
  "kb_status_cmd (i8042_load k) = kb_status_cmd k"
  "kb_scanning (i8042_load k) = kb_scanning k"
  "kb_irq_level (i8042_load k) = kb_irq_level k"
  by (simp_all add: i8042_load_def split: list.split)

lemma i8042_push_fields [simp]:
  "kb_config (i8042_push b k) = kb_config k"
  "kb_controller_param (i8042_push b k) = kb_controller_param k"
  "kb_keyboard_param (i8042_push b k) = kb_keyboard_param k"
  "kb_status_cmd (i8042_push b k) = kb_status_cmd k"
  "kb_scanning (i8042_push b k) = kb_scanning k"
  "kb_irq_level (i8042_push b k) = kb_irq_level k"
  by (simp_all add: i8042_push_def Let_def)

lemma i8042_push_output [simp]: "\<exists>x. kb_output (i8042_push b k) = Some x"
  by (auto simp: i8042_push_def i8042_load_def Let_def split: list.split)

lemma i8042_push_invar [simp]: "i8042_invar (i8042_push b k)"
  using i8042_push_output [of b k] by (auto simp: i8042_invar_def simp del: i8042_push_output)

lemma i8042_push_contents [simp]:
  "i8042_invar k \<Longrightarrow> i8042_contents (i8042_push b k) = i8042_contents k @ [b]"
  by (auto simp: i8042_contents_def i8042_push_def i8042_load_def i8042_invar_def Let_def
      split: list.split option.split)

lemma i8042_load_contents:
  "i8042_contents (i8042_load k) = kb_queue k \<and> i8042_invar (i8042_load k)"
  by (auto simp: i8042_contents_def i8042_load_def i8042_invar_def split: list.split)

lemma i8042_invar_fields [simp]:
  "i8042_invar (k\<lparr>kb_config := a\<rparr>) = i8042_invar k"
  "i8042_invar (k\<lparr>kb_controller_param := p\<rparr>) = i8042_invar k"
  "i8042_invar (k\<lparr>kb_keyboard_param := p\<rparr>) = i8042_invar k"
  "i8042_invar (k\<lparr>kb_status_cmd := t\<rparr>) = i8042_invar k"
  "i8042_invar (k\<lparr>kb_scanning := t\<rparr>) = i8042_invar k"
  "i8042_invar (k\<lparr>kb_irq_level := t\<rparr>) = i8042_invar k"
  by (simp_all add: i8042_invar_def)

lemma i8042_contents_fields [simp]:
  "i8042_contents (k\<lparr>kb_config := a\<rparr>) = i8042_contents k"
  "i8042_contents (k\<lparr>kb_controller_param := p\<rparr>) = i8042_contents k"
  "i8042_contents (k\<lparr>kb_keyboard_param := p\<rparr>) = i8042_contents k"
  "i8042_contents (k\<lparr>kb_status_cmd := t\<rparr>) = i8042_contents k"
  "i8042_contents (k\<lparr>kb_scanning := t\<rparr>) = i8042_contents k"
  "i8042_contents (k\<lparr>kb_irq_level := t\<rparr>) = i8042_contents k"
  by (simp_all add: i8042_contents_def split: option.split)

lemma i8042_contents_simps:
  "kb_output k = None \<Longrightarrow> i8042_contents k = []"
  "kb_output k = Some b \<Longrightarrow> i8042_contents k = b # kb_queue k"
  by (simp_all add: i8042_contents_def)

lemma i8042_contents_Nil_iff: "i8042_contents k = [] \<longleftrightarrow> kb_output k = None"
  by (simp add: i8042_contents_def split: option.split)

interpretation kbd_fifo: fifo i8042_contents i8042_push i8042_take i8042_invar
proof
  fix s :: i8042 and x xs
  assume inv: "i8042_invar s"
  show "i8042_contents s = [] \<Longrightarrow>
      fst (i8042_take s) = None \<and> i8042_contents (snd (i8042_take s)) = []"
    using inv by (simp add: i8042_take_def i8042_load_contents i8042_contents_Nil_iff i8042_invar_def)
  show "i8042_contents s = x # xs \<Longrightarrow>
      fst (i8042_take s) = Some x \<and> i8042_contents (snd (i8042_take s)) = xs"
    by (cases "kb_output s") (simp_all add: i8042_take_def i8042_load_contents i8042_contents_simps)
qed (simp_all add: i8042_take_def i8042_load_contents)

interpretation kbd_irq:
  irq_source I8042_IRQ i8042_level kb_irq_level "\<lambda>b k. k\<lparr>kb_irq_level := b\<rparr>" i8042_update_irq
  by unfold_locales (auto simp: i8042_level_def i8042_update_irq_def Let_def)

section \<open>The interrupt line follows the output buffer\<close>

text \<open>
  \<open>i8042_tracked\<close> holds between the steps of a handler, \<open>i8042_synced\<close> between handlers.
\<close>

definition i8042_tracked :: "i8042 \<Rightarrow> irq_log \<Rightarrow> bool" where
  "i8042_tracked k log \<longleftrightarrow> i8042_invar k \<and> line_level I8042_IRQ log = kb_irq_level k"

definition i8042_synced :: "i8042 \<Rightarrow> irq_log \<Rightarrow> bool" where
  "i8042_synced k log \<longleftrightarrow> i8042_tracked k log \<and> kb_irq_level k = i8042_level k"

lemma i8042_update_irq_fields:
  assumes "i8042_update_irq env (k, log) = (r, k', log')"
  shows "k' = k\<lparr>kb_irq_level := kb_irq_level k'\<rparr>"
  using kbd_irq.update_state [OF assms] by auto

lemma i8042_update_irq_synced:
  assumes up: "i8042_update_irq env (k, log) = (Inr (), k', log')" and tr: "i8042_tracked k log"
  shows "i8042_synced k' log' \<and> i8042_contents k' = i8042_contents k"
proof -
  have k': "k' = k\<lparr>kb_irq_level := kb_irq_level k'\<rparr>" by (rule i8042_update_irq_fields [OF up])
  have "i8042_invar k' = i8042_invar k" and "i8042_contents k' = i8042_contents k"
    by (subst k', simp)+
  moreover have "line_level I8042_IRQ log' = kb_irq_level k'"
    using kbd_irq.update_tracks [OF up] tr by (simp add: i8042_tracked_def)
  moreover have "kb_irq_level k' = i8042_level k'" by (rule kbd_irq.update_ok [OF up])
  ultimately show ?thesis using tr by (simp add: i8042_synced_def i8042_tracked_def)
qed

lemma i8042_read_data_ok:
  assumes rd: "i8042_read_data env (k, log) = (Inr b, k', log')" and tr: "i8042_tracked k log"
  shows "i8042_tracked k' log' \<and> i8042_contents k' = tl (i8042_contents k) \<and>
    b = (case i8042_contents k of [] \<Rightarrow> 0 | x # _ \<Rightarrow> x) \<and> kb_irq_level k' = False \<and>
    kb_config k' = kb_config k"
proof -
  let ?k = "k\<lparr>kb_output := None\<rparr>"
  from rd obtain k1 where up: "i8042_update_irq env (?k, log) = (Inr (), k1, log')"
    and k': "k' = i8042_load k1" and b: "b = (case kb_output k of None \<Rightarrow> 0 | Some b \<Rightarrow> b)"
    by (auto simp: i8042_read_data_def Let_def then_op_def split: prod.splits sum.splits)
  have k1: "k1 = ?k\<lparr>kb_irq_level := kb_irq_level k1\<rparr>" by (rule i8042_update_irq_fields [OF up])
  have q: "kb_queue k1 = kb_queue k" "kb_config k1 = kb_config k" by (subst k1, simp)+
  have low: "kb_irq_level k1 = False"
    using kbd_irq.update_ok [OF up] by (simp add: i8042_level_def)
  have "line_level I8042_IRQ log' = kb_irq_level k1"
    using kbd_irq.update_tracks [OF up] tr by (simp add: i8042_tracked_def)
  with tr low q b show ?thesis
    by (cases "kb_output k")
      (auto simp: k' i8042_load_contents i8042_tracked_def i8042_contents_simps i8042_invar_def [of k])
qed

lemma i8042_controller_command_tracked:
  assumes "i8042_controller_command cmd (k, c) = (k', c')" and "i8042_tracked k log"
  shows "i8042_tracked k' log"
  using assms by (auto simp: i8042_controller_command_def i8042_tracked_def split: if_splits)

lemma i8042_controller_param_tracked:
  assumes "i8042_controller_param cmd b (k, c) = (k', c')" and "i8042_tracked k log"
  shows "i8042_tracked k' log"
  using assms i8042_controller_command_tracked [of CMD_PULSE_RESET k c k' c' log]
  by (auto simp: i8042_controller_param_def i8042_tracked_def split: if_splits)

lemma i8042_keyboard_command_tracked:
  "i8042_tracked k log \<Longrightarrow> i8042_tracked (i8042_keyboard_command b k) log"
  by (auto simp: i8042_keyboard_command_def i8042_tracked_def Let_def split: option.split)

lemma i8042_access_tracked:
  assumes "i8042_access env dir port (buf, k, c, log) = (Inr (), buf', k', c', log')"
    and "i8042_tracked k log"
  shows "i8042_tracked k' log' \<and> length buf' = length buf"
proof (cases dir)
  case KVM_EXIT_IO_IN
  with assms show ?thesis
    by (auto simp: i8042_access_def data_set0_def dest: i8042_read_data_ok
        split: if_splits prod.splits sum.splits list.splits)
next
  case KVM_EXIT_IO_OUT
  have st: "i8042_tracked (k\<lparr>kb_status_cmd := t, kb_controller_param := None\<rparr>) log"
      "i8042_tracked (k\<lparr>kb_status_cmd := t\<rparr>) log" for t
    using assms(2) by (simp_all add: i8042_tracked_def)
  show ?thesis
    using assms KVM_EXIT_IO_OUT st
    by (auto simp: i8042_access_def Let_def i8042_keyboard_command_tracked
        dest: i8042_controller_command_tracked i8042_controller_param_tracked
        split: if_splits prod.splits sum.splits option.splits)
next
  case (KVM_EXIT_IO_other x)
  with assms show ?thesis by (simp add: i8042_access_def)
qed

lemma i8042_handle_synced:
  assumes h: "i8042_handle env io (data, k, c, log) = (Inr (), data', k', c', log')"
    and tr: "i8042_tracked k log"
  shows "i8042_synced k' log' \<and> length data' = length data"
proof -
  from h obtain buf k1 log1 where
    ac: "i8042_access env (io_direction io) (io_port io) (take (io_size io) data, k, c, log)
      = (Inr (), buf, k1, c', log1)"
    and up: "i8042_update_irq env (k1, log1) = (Inr (), k', log')"
    and d: "data' = buf @ drop (io_size io) data"
    by (auto simp: i8042_handle_def then_op_def split: prod.splits sum.splits)
  from i8042_access_tracked [OF ac tr] have "i8042_tracked k1 log1" "length buf = length (take (io_size io) data)"
    by auto
  with i8042_update_irq_synced [OF up] show ?thesis by (simp add: d)
qed

lemma i8042_key_event_synced:
  assumes "i8042_key_event env down s (k, log) = (Inr (), k', log')" and "i8042_synced k log"
  shows "i8042_synced k' log'"
  using assms i8042_update_irq_synced
  by (fastforce simp: i8042_key_event_def i8042_synced_def i8042_tracked_def Let_def
      split: if_splits option.splits)


section \<open>All runs\<close>

text \<open>
  The controller's steps: the guest's port accesses, the frontend's key events and the calls
  other devices make on their own lines, in any order, as long as no call fails.
\<close>

inductive i8042_reach :: "irq_env \<Rightarrow> i8042 \<Rightarrow> vm_control \<Rightarrow> irq_log \<Rightarrow> bool"
  for env :: irq_env where
  start: "i8042_reach env i8042_new c []"
| access: "i8042_reach env k c log \<Longrightarrow>
    i8042_handle env io (data, k, c, log) = (Inr (), data', k', c', log') \<Longrightarrow>
    i8042_reach env k' c' log'"
| key: "i8042_reach env k c log \<Longrightarrow>
    i8042_key_event env down s (k, log) = (Inr (), k', log') \<Longrightarrow> i8042_reach env k' c log'"
| other_line: "i8042_reach env k c log \<Longrightarrow> m \<noteq> I8042_IRQ \<Longrightarrow>
    i8042_reach env k c (log @ [IrqSet level m])"

lemma i8042_reach_synced: "i8042_reach env k c log \<Longrightarrow> i8042_synced k log"
proof (induction rule: i8042_reach.induct)
  case start
  show ?case
    by (simp add: i8042_synced_def i8042_tracked_def i8042_new_def i8042_invar_def i8042_level_def)
next
  case (access k c log io data data' k' c' log')
  then show ?case using i8042_handle_synced by (simp add: i8042_synced_def)
next
  case (key k c log down s k' log')
  then show ?case by (blast intro: i8042_key_event_synced)
next
  case (other_line k c log m level)
  then show ?case by (simp add: i8042_synced_def i8042_tracked_def)
qed

text \<open>
  C7. In every state the controller can reach, its interrupt line is high exactly when a byte
  waits in the output buffer and the configuration byte enables the keyboard interrupt, the
  status register's first bit says whether a byte waits, and no byte is queued behind an
  empty output buffer.
\<close>

theorem i8042_irq_invariant:
  assumes "i8042_reach env k c log"
  shows "(line_level I8042_IRQ log \<longleftrightarrow> kb_output k \<noteq> None \<and> kb_config k AND CONFIG_KBD_INT \<noteq> 0)
    \<and> (i8042_status k AND STATUS_OBF \<noteq> 0 \<longleftrightarrow> kb_output k \<noteq> None)
    \<and> (kb_output k \<noteq> None \<or> kb_queue k = [])"
proof (intro conjI)
  from i8042_reach_synced [OF assms] show
    "line_level I8042_IRQ log \<longleftrightarrow> kb_output k \<noteq> None \<and> kb_config k AND CONFIG_KBD_INT \<noteq> 0"
    "kb_output k \<noteq> None \<or> kb_queue k = []"
    by (auto simp: i8042_synced_def i8042_tracked_def i8042_level_def i8042_invar_def)
  show "i8042_status k AND STATUS_OBF \<noteq> 0 \<longleftrightarrow> kb_output k \<noteq> None"
    by (auto simp: i8042_status_def bit.conj_disj_distrib2)
qed

theorem i8042_irq_invariant_witness:
  "\<exists>k log. i8042_reach (\<lambda>_ _ _. True) k vm_control_new log \<and> kb_output k = Some 0x1e \<and>
     line_level I8042_IRQ log"
proof -
  let ?k = "i8042_new\<lparr>kb_output := Some 0x1e, kb_irq_level := True\<rparr>"
  have ev: "i8042_key_event (\<lambda>_ _ _. True) True 0x61 (i8042_new, []) = (Inr (), ?k, [IrqSet 1 1])"
    by (simp add: i8042_key_event_def i8042_new_def keysym_to_set1_def ascii_lower_def
        letter_code_def i8042_push_def i8042_load_def i8042_update_irq_def i8042_level_def
        arch_update_irq_def)
  have r: "i8042_reach (\<lambda>_ _ _. True) ?k vm_control_new [IrqSet 1 1]"
    by (rule i8042_reach.key [OF i8042_reach.start ev])
  moreover have "kb_config ?k AND CONFIG_KBD_INT \<noteq> 0" by (simp add: i8042_new_def)
  ultimately show ?thesis
    using i8042_irq_invariant [OF r]
    by (intro exI [of _ ?k] exI [of _ "[IrqSet 1 1]"]) auto
qed

section \<open>Reading the data port\<close>

text \<open>\<open>in al, 0x60\<close>, done \<open>n\<close> times; \<open>Inl\<close> when an interrupt call fails.\<close>

definition i8042_in :: "irq_env \<Rightarrow> u16 \<Rightarrow> (i8042 \<times> vm_control \<times> irq_log, u8) oper" where
  "i8042_in env port = (\<lambda>w.
     case i8042_handle env \<lparr>io_direction = KVM_EXIT_IO_IN, io_size = 1, io_port = port, io_count = 1\<rparr>
            ([0], w) of
       (Inl e, data, w') \<Rightarrow> (Inl e, w') | (Inr _, data, w') \<Rightarrow> (data_get0 data, w'))"

definition i8042_out :: "irq_env \<Rightarrow> u16 \<Rightarrow> u8 \<Rightarrow> (i8042 \<times> vm_control \<times> irq_log, unit) oper" where
  "i8042_out env port b = (\<lambda>w.
     case i8042_handle env \<lparr>io_direction = KVM_EXIT_IO_OUT, io_size = 1, io_port = port, io_count = 1\<rparr>
            ([b], w) of (r, data, w') \<Rightarrow> (r, w'))"

fun i8042_in_n :: "irq_env \<Rightarrow> nat \<Rightarrow> (i8042 \<times> vm_control \<times> irq_log, u8 list) oper" where
  "i8042_in_n env 0 w = (Inr [], w)"
| "i8042_in_n env (Suc n) w = then_op (i8042_in env I8042_DATA)
     (\<lambda>b. then_op (i8042_in_n env n) (\<lambda>bs w'. (Inr (b # bs), w'))) w"

lemma i8042_update_irq_always:
  "i8042_update_irq (\<lambda>_ _ _. True) (k, log) =
     (Inr (), k\<lparr>kb_irq_level := i8042_level k\<rparr>,
      if i8042_level k = kb_irq_level k then log
      else log @ [IrqSet (if i8042_level k then 1 else 0) I8042_IRQ])"
  by (simp add: i8042_update_irq_def arch_update_irq_def Let_def)

text \<open>The interrupt calls one read of the data port makes.\<close>

definition i8042_read_events :: "i8042 \<Rightarrow> irq_log" where
  "i8042_read_events k =
     (if i8042_level k then [IrqSet 0 I8042_IRQ] else []) @
     (if tl (i8042_contents k) \<noteq> [] \<and> kb_config k AND CONFIG_KBD_INT \<noteq> 0
      then [IrqSet 1 I8042_IRQ] else [])"

lemma i8042_in_data:
  assumes sy: "i8042_synced k log"
  shows "\<exists>k'. i8042_in (\<lambda>_ _ _. True) I8042_DATA (k, c, log) =
      (Inr (case i8042_contents k of [] \<Rightarrow> 0 | x # _ \<Rightarrow> x), k', c, log @ i8042_read_events k) \<and>
    i8042_synced k' (log @ i8042_read_events k) \<and>
    i8042_contents k' = tl (i8042_contents k) \<and> kb_config k' = kb_config k"
proof -
  let ?k0 = "k\<lparr>kb_output := None, kb_irq_level := False\<rparr>"
  let ?k1 = "i8042_load ?k0"
  let ?k' = "?k1\<lparr>kb_irq_level := i8042_level ?k1\<rparr>"
  let ?log1 = "log @ (if i8042_level k then [IrqSet 0 I8042_IRQ] else [])"
  let ?log' = "?log1 @ (if i8042_level ?k1 then [IrqSet 1 I8042_IRQ] else [])"
  have tr: "i8042_tracked k log" and lv: "kb_irq_level k = i8042_level k"
    using sy by (simp_all add: i8042_synced_def)
  have up0: "i8042_update_irq (\<lambda>_ _ _. True) (k\<lparr>kb_output := None\<rparr>, log) = (Inr (), ?k0, ?log1)"
    using lv by (simp add: i8042_update_irq_always i8042_level_def)
  have b: "(case kb_output k of None \<Rightarrow> 0 | Some b \<Rightarrow> b)
      = (case i8042_contents k of [] \<Rightarrow> 0 | x # _ \<Rightarrow> x)"
    by (simp add: i8042_contents_def split: option.split)
  have rd: "i8042_read_data (\<lambda>_ _ _. True) (k, log)
      = (Inr (case i8042_contents k of [] \<Rightarrow> 0 | x # _ \<Rightarrow> x), ?k1, ?log1)"
    by (simp add: i8042_read_data_def then_op_def up0 b)
  have up1: "i8042_update_irq (\<lambda>_ _ _. True) (?k1, ?log1) = (Inr (), ?k', ?log')"
    by (simp add: i8042_update_irq_always)
  have h: "i8042_in (\<lambda>_ _ _. True) I8042_DATA (k, c, log) =
       (Inr (case i8042_contents k of [] \<Rightarrow> 0 | x # _ \<Rightarrow> x), ?k', c, ?log')"
    by (simp add: i8042_in_def i8042_handle_def i8042_access_def then_op_def rd up1)
  from i8042_read_data_ok [OF rd tr] have tr1: "i8042_tracked ?k1 ?log1"
    and ct: "i8042_contents ?k1 = tl (i8042_contents k)" and cf: "kb_config ?k1 = kb_config k" by auto
  from i8042_update_irq_synced [OF up1 tr1] ct
  have sy': "i8042_synced ?k' ?log'" "i8042_contents ?k' = tl (i8042_contents k)" by auto
  have "i8042_level ?k1 \<longleftrightarrow> tl (i8042_contents k) \<noteq> [] \<and> kb_config k AND CONFIG_KBD_INT \<noteq> 0"
    using ct cf by (simp add: i8042_level_def i8042_contents_Nil_iff [symmetric])
  then have "?log' = log @ i8042_read_events k" by (simp add: i8042_read_events_def)
  then show ?thesis using h sy' cf by (intro exI [of _ ?k']) simp
qed

text \<open>
  C24. Reading the data port \<open>n\<close> times, with at least \<open>n\<close> bytes waiting, yields the waiting
  bytes in the order they were pushed and leaves the rest; nothing is lost or duplicated.
\<close>

theorem i8042_reads_in_order:
  assumes "i8042_synced k log" and "n \<le> length (i8042_contents k)"
  shows "\<exists>k' log'. i8042_in_n (\<lambda>_ _ _. True) n (k, c, log) = (Inr (take n (i8042_contents k)), k', c, log')
    \<and> i8042_contents k' = drop n (i8042_contents k) \<and> i8042_synced k' log'"
  using assms
proof (induction n arbitrary: k log)
  case (Suc n)
  then obtain x xs where ct: "i8042_contents k = x # xs" by (cases "i8042_contents k") auto
  let ?log1 = "log @ i8042_read_events k"
  from i8042_in_data [OF Suc.prems(1), of c] ct obtain k1
    where rd: "i8042_in (\<lambda>_ _ _. True) I8042_DATA (k, c, log) = (Inr x, k1, c, ?log1)"
    and k1: "i8042_synced k1 ?log1" "i8042_contents k1 = xs" by auto
  have "n \<le> length (i8042_contents k1)" using Suc.prems(2) ct k1(2) by simp
  from Suc.IH [OF k1(1) this] obtain k2 log2 where
    "i8042_in_n (\<lambda>_ _ _. True) n (k1, c, ?log1) = (Inr (take n xs), k2, c, log2)"
    "i8042_contents k2 = drop n xs" "i8042_synced k2 log2" using k1(2) by auto
  with rd ct show ?case by (simp add: then_op_def)
qed simp

text \<open>
  The line is edge-triggered: reading one of two or more waiting bytes, with the interrupt
  enabled, first drops the line and then raises it again, so the guest gets an edge for the
  next byte; reading the last one only drops it.
\<close>

theorem i8042_edge_per_byte:
  assumes "i8042_synced k log" and "kb_config k AND CONFIG_KBD_INT \<noteq> 0"
    and "i8042_contents k = b # rest"
  shows "\<exists>k'. i8042_in (\<lambda>_ _ _. True) I8042_DATA (k, c, log) =
    (Inr b, k', c, log @ IrqSet 0 I8042_IRQ # (if rest = [] then [] else [IrqSet 1 I8042_IRQ]))"
proof -
  have "kb_output k \<noteq> None" using assms(3) by (auto simp: i8042_contents_def split: option.splits)
  then have "i8042_read_events k
      = IrqSet 0 I8042_IRQ # (if rest = [] then [] else [IrqSet 1 I8042_IRQ])"
    using assms(2,3) by (simp add: i8042_read_events_def i8042_level_def)
  then show ?thesis using i8042_in_data [OF assms(1), of c] assms(3) by auto
qed

section \<open>Scancodes\<close>

lemma letter_code_bound: "letter_code c = Some d \<Longrightarrow> d \<le> 0x58 \<and> d \<noteq> 0"
  unfolding letter_code_def by (simp split: if_splits option.splits)

lemma digit_code_bound:
  "0x31 \<le> s \<and> s \<le> (0x39::u32) \<Longrightarrow>
   ucast s - 0x2f \<le> (0x58::u8) \<and> ucast s - 0x2f \<noteq> (0::u8)"
  by (drule word_range_cases) (auto simp: upt_conv_Cons)

lemma fkey_code_bound:
  "0xffbe \<le> s \<and> s \<le> (0xffc7::u32) \<Longrightarrow>
   ucast (s - 0xffbe) + 0x3b \<le> (0x58::u8) \<and> ucast (s - 0xffbe) + 0x3b \<noteq> (0::u8)"
  by (drule word_range_cases) (auto simp: upt_conv_Cons)

lemma extended_code_bound: "extended_code s = Some d \<Longrightarrow> d \<le> 0x58 \<and> d \<noteq> 0"
  unfolding extended_code_def by (simp split: if_split_asm)

text \<open>Make codes stay clear of the break bit and of the prefix byte.\<close>

lemma keysym_to_set1_bound: "keysym_to_set1 s = Some (e, c) \<Longrightarrow> c \<le> 0x58 \<and> c \<noteq> 0"
  unfolding keysym_to_set1_def
  using digit_code_bound [of s] fkey_code_bound [of s] letter_code_bound extended_code_bound
  by (simp split: if_split_asm) auto

text \<open>
  What a guest does with the bytes: \<open>0xe0\<close> is a prefix, the top bit is a release. The result
  lists whether the key went down, whether it is an extended one, and its code.
\<close>

fun decode_set1 :: "u8 list \<Rightarrow> (bool \<times> bool \<times> u8) list" where
  "decode_set1 [] = []"
| "decode_set1 [b] = (if b = 0xe0 then [] else [(b < 0x80, False, b AND 0x7f)])"
| "decode_set1 (a # b # r) =
     (if a = 0xe0 then (b < 0x80, True, b AND 0x7f) # decode_set1 r
      else (a < 0x80, False, a AND 0x7f) # decode_set1 (b # r))"

text \<open>The bytes one key event adds to the buffer, and the events a decoder should see.\<close>

definition key_bytes :: "bool \<times> u32 \<Rightarrow> u8 list" where
  "key_bytes ev = (case keysym_to_set1 (snd ev) of
     None \<Rightarrow> []
   | Some (ext, code) \<Rightarrow> (if ext then [0xe0] else []) @ [if fst ev then code else code OR 0x80])"

definition key_decoded :: "bool \<times> u32 \<Rightarrow> (bool \<times> bool \<times> u8) list" where
  "key_decoded ev = (case keysym_to_set1 (snd ev) of
     None \<Rightarrow> [] | Some (ext, code) \<Rightarrow> [(fst ev, ext, code)])"

lemma make_break_codes_upto:
  "\<forall>n \<in> set [0..<0x59]. let c = word_of_nat n :: u8 in
     c < 0x80 \<and> c AND 0x7f = c \<and> c \<noteq> 0xe0 \<and>
     \<not> c OR 0x80 < 0x80 \<and> (c OR 0x80) AND 0x7f = c \<and> c OR 0x80 \<noteq> 0xe0"
  by code_simp

lemma make_break_codes:
  assumes "c \<le> (0x58 :: u8)"
  shows "c < 0x80" "c AND 0x7f = c" "c \<noteq> 0xe0" "\<not> c OR 0x80 < 0x80" "(c OR 0x80) AND 0x7f = c"
    "c OR 0x80 \<noteq> 0xe0"
proof -
  from assms have "unat c \<in> set [0..<0x59]" by (simp add: word_le_nat_alt)
  from bspec [OF make_break_codes_upto this]
  show "c < 0x80" "c AND 0x7f = c" "c \<noteq> 0xe0" "\<not> c OR 0x80 < 0x80" "(c OR 0x80) AND 0x7f = c"
    "c OR 0x80 \<noteq> 0xe0"
    by (simp_all add: Let_def)
qed

lemma decode_set1_plain: "b \<noteq> 0xe0 \<Longrightarrow> decode_set1 (b # r) = (b < 0x80, False, b AND 0x7f) # decode_set1 r"
  by (cases r) auto

lemma decode_key_bytes: "decode_set1 (key_bytes ev @ r) = key_decoded ev @ decode_set1 r"
proof (cases "keysym_to_set1 (snd ev)")
  case (Some ec)
  obtain e c where ec: "ec = (e, c)" by fastforce
  with Some keysym_to_set1_bound have c: "c \<le> 0x58" by blast
  from make_break_codes [OF c] show ?thesis
    by (auto simp: key_bytes_def key_decoded_def Some ec decode_set1_plain)
qed (simp add: key_bytes_def key_decoded_def)

lemma decode_key_stream:
  "decode_set1 (concat (map key_bytes evs)) = concat (map key_decoded evs)"
  by (induction evs) (simp_all add: decode_key_bytes)

fun i8042_key_events :: "irq_env \<Rightarrow> (bool \<times> u32) list \<Rightarrow> (i8042 \<times> irq_log, unit) oper" where
  "i8042_key_events env [] w = (Inr (), w)"
| "i8042_key_events env (ev # evs) w =
     then_op (i8042_key_event env (fst ev) (snd ev)) (\<lambda>_. i8042_key_events env evs) w"

definition i8042_listening :: "i8042 \<Rightarrow> bool" where
  "i8042_listening k \<longleftrightarrow> kb_scanning k \<and> kb_config k AND CONFIG_KBD_DISABLE = 0"

lemma i8042_key_event_contents:
  assumes "i8042_synced k log" "i8042_listening k"
  shows "\<exists>k' log'. i8042_key_event (\<lambda>_ _ _. True) down s (k, log) = (Inr (), k', log') \<and>
    i8042_contents k' = i8042_contents k @ key_bytes (down, s) \<and>
    i8042_synced k' log' \<and> i8042_listening k'"
proof -
  obtain k' log' where ev: "i8042_key_event (\<lambda>_ _ _. True) down s (k, log) = (Inr (), k', log')"
    by (cases "i8042_key_event (\<lambda>_ _ _. True) down s (k, log)")
      (auto simp: i8042_key_event_def i8042_update_irq_always Let_def split: if_splits option.splits)
  have "i8042_invar k" using assms(1) by (simp add: i8042_synced_def i8042_tracked_def)
  then have "i8042_contents k' = i8042_contents k @ key_bytes (down, s) \<and> i8042_listening k'"
    using ev assms(2)
    by (auto simp: i8042_key_event_def i8042_update_irq_always i8042_listening_def key_bytes_def
        Let_def split: if_splits option.splits)
  then show ?thesis using ev i8042_key_event_synced [OF ev assms(1)] by blast
qed

lemma i8042_keys_decoded:
  assumes "i8042_synced k log" and "i8042_listening k" and "i8042_contents k = []"
  shows "\<exists>k' log'. i8042_key_events (\<lambda>_ _ _. True) evs (k, log) = (Inr (), k', log') \<and>
    decode_set1 (i8042_contents k') = concat (map key_decoded evs)"
proof -
  have "\<exists>k' log'. i8042_key_events (\<lambda>_ _ _. True) evs (k, log) = (Inr (), k', log') \<and>
      i8042_contents k' = i8042_contents k @ concat (map key_bytes evs)"
    using assms(1,2)
  proof (induction evs arbitrary: k log)
    case (Cons ev evs)
    from i8042_key_event_contents [OF Cons.prems, of "fst ev" "snd ev"] obtain k1 log1 where
      "i8042_key_event (\<lambda>_ _ _. True) (fst ev) (snd ev) (k, log) = (Inr (), k1, log1)"
      "i8042_contents k1 = i8042_contents k @ key_bytes ev" "i8042_synced k1 log1" "i8042_listening k1"
      by auto
    with Cons.IH [of k1 log1] show ?case by (auto simp: then_op_def)
  qed simp
  with assms(3) show ?thesis by (auto simp: decode_key_stream)
qed

text \<open>
  Key events of the frontends reach the guest unaltered: with the keyboard scanning and its
  port enabled, and an empty buffer, any sequence of presses and releases leaves bytes in the
  buffer that a scancode-set-1 decoder turns back into exactly those events, in order, each
  with its mapped key (keysyms that map to no key are skipped).
\<close>

theorem i8042_keys_roundtrip:
  assumes "i8042_synced k log" and "i8042_listening k" and "i8042_contents k = []"
  shows "\<exists>k' log'. i8042_key_events (\<lambda>_ _ _. True) evs (k, log) = (Inr (), k', log') \<and>
    decode_set1 (i8042_contents k') = concat (map key_decoded evs)"
  by (rule i8042_keys_decoded [OF assms])

theorem i8042_keys_roundtrip_witness:
  "\<exists>k' log'. i8042_key_events (\<lambda>_ _ _. True) [(True, 0x61), (False, 0x61), (True, 0xff52)] (i8042_new, [])
     = (Inr (), k', log') \<and>
   decode_set1 (i8042_contents k') = [(True, False, 0x1e), (False, False, 0x1e), (True, True, 0x48)]"
proof -
  have sy: "i8042_synced i8042_new []"
    by (simp add: i8042_synced_def i8042_tracked_def i8042_invar_def i8042_level_def i8042_new_def)
  have li: "i8042_listening i8042_new" and ct: "i8042_contents i8042_new = []"
    by (simp_all add: i8042_listening_def i8042_contents_def i8042_new_def)
  have d: "concat (map key_decoded [(True, 0x61), (False, 0x61), (True, 0xff52)])
      = [(True, False, 0x1e), (False, False, 0x1e), (True, True, 0x48)]"
    by (simp add: key_decoded_def keysym_to_set1_def letter_code_def ascii_lower_def extended_code_def)
  show ?thesis
    using i8042_keys_roundtrip [OF sy li ct, of "[(True, 0x61), (False, 0x61), (True, 0xff52)]"]
    unfolding d .
qed

text \<open>A controller with two bytes waiting, for the witnesses.\<close>

definition i8042_two :: i8042 where
  "i8042_two = i8042_new\<lparr>kb_output := Some 0xe0, kb_queue := [0x48], kb_irq_level := True\<rparr>"

lemma i8042_two_facts:
  "i8042_synced i8042_two [IrqSet 1 I8042_IRQ]" "i8042_contents i8042_two = [0xe0, 0x48]"
  "kb_config i8042_two AND CONFIG_KBD_INT \<noteq> 0"
  by (simp_all add: i8042_two_def i8042_new_def i8042_synced_def i8042_tracked_def i8042_invar_def
      i8042_level_def i8042_contents_def line_level_def)

theorem i8042_reads_in_order_witness:
  "\<exists>k' log'. i8042_in_n (\<lambda>_ _ _. True) 2 (i8042_two, vm_control_new, [IrqSet 1 I8042_IRQ]) =
     (Inr [0xe0, 0x48], k', vm_control_new, log') \<and> i8042_contents k' = []"
  using i8042_reads_in_order [OF i8042_two_facts(1), of 2 vm_control_new]
  by (auto simp: i8042_two_facts(2))

theorem i8042_edge_per_byte_witness:
  "\<exists>k'. i8042_in (\<lambda>_ _ _. True) I8042_DATA (i8042_two, vm_control_new, [IrqSet 1 I8042_IRQ]) =
     (Inr 0xe0, k', vm_control_new,
      [IrqSet 1 I8042_IRQ, IrqSet 0 I8042_IRQ, IrqSet 1 I8042_IRQ])"
  using i8042_edge_per_byte [OF i8042_two_facts(1,3,2), of vm_control_new] by simp

section \<open>The configuration byte\<close>

text \<open>Guest programs: a sequence of port writes that all succeed.\<close>

fun i8042_out_n ::
    "irq_env \<Rightarrow> (u16 \<times> u8) list \<Rightarrow> (i8042 \<times> vm_control \<times> irq_log, unit) oper" where
  "i8042_out_n env [] w = (Inr (), w)"
| "i8042_out_n env (pb # ps) w =
     then_op (i8042_out env (fst pb) (snd pb)) (\<lambda>_. i8042_out_n env ps) w"

lemma i8042_out_command:
  "i8042_controller_command b (k\<lparr>kb_status_cmd := True, kb_controller_param := None\<rparr>, c) = (k1, c1) \<Longrightarrow>
   i8042_out (\<lambda>_ _ _. True) I8042_COMMAND b (k, c, log) =
     (Inr (), k1\<lparr>kb_irq_level := i8042_level k1\<rparr>, c1,
      if i8042_level k1 = kb_irq_level k1 then log
      else log @ [IrqSet (if i8042_level k1 then 1 else 0) I8042_IRQ])"
  by (simp add: i8042_out_def i8042_handle_def i8042_access_def then_op_def Let_def
      i8042_update_irq_always)

lemma i8042_out_param:
  "kb_controller_param k = Some cmd \<Longrightarrow>
   i8042_controller_param cmd b (k\<lparr>kb_status_cmd := False, kb_controller_param := None\<rparr>, c) = (k1, c1) \<Longrightarrow>
   i8042_out (\<lambda>_ _ _. True) I8042_DATA b (k, c, log) =
     (Inr (), k1\<lparr>kb_irq_level := i8042_level k1\<rparr>, c1,
      if i8042_level k1 = kb_irq_level k1 then log
      else log @ [IrqSet (if i8042_level k1 then 1 else 0) I8042_IRQ])"
  by (simp add: i8042_out_def i8042_handle_def i8042_access_def then_op_def Let_def
      i8042_update_irq_always)

lemma i8042_out_synced:
  assumes "i8042_out env port b (k, c, log) = (Inr (), k', c', log')" and "i8042_synced k log"
  shows "i8042_synced k' log'"
  using assms i8042_handle_synced
  by (fastforce simp: i8042_out_def i8042_synced_def split: prod.splits)

text \<open>
  The configuration byte a guest writes (command \<open>0x60\<close>, then the byte on the data port) is
  the one it reads back (command \<open>0x20\<close>, then the data port), whatever the byte, when no other
  byte waits in the output buffer; the VM's control block is untouched and the buffer is empty
  again.
\<close>

theorem i8042_config_roundtrip:
  assumes "i8042_synced k log" and "i8042_contents k = []"
  shows "\<exists>k' log'. then_op (i8042_out_n (\<lambda>_ _ _. True)
      [(I8042_COMMAND, CMD_WRITE_CONFIG), (I8042_DATA, b), (I8042_COMMAND, CMD_READ_CONFIG)])
      (\<lambda>_. i8042_in (\<lambda>_ _ _. True) I8042_DATA) (k, c, log) = (Inr b, k', c, log') \<and>
    kb_config k' = b \<and> i8042_contents k' = []"
proof -
  have out: "kb_output k = None" "kb_queue k = []"
    using assms by (auto simp: i8042_contents_Nil_iff i8042_synced_def i8042_tracked_def i8042_invar_def)
  let ?k1 = "k\<lparr>kb_status_cmd := True, kb_controller_param := Some CMD_WRITE_CONFIG\<rparr>"
  obtain lv1 log1 where w1: "i8042_out (\<lambda>_ _ _. True) I8042_COMMAND CMD_WRITE_CONFIG (k, c, log) =
      (Inr (), ?k1\<lparr>kb_irq_level := lv1\<rparr>, c, log1)"
    using i8042_out_command [of CMD_WRITE_CONFIG k c ?k1 c log]
    by (simp add: i8042_controller_command_def)
  let ?k2 = "?k1\<lparr>kb_status_cmd := False, kb_controller_param := None, kb_config := b\<rparr>"
  obtain lv2 log2 where w2: "i8042_out (\<lambda>_ _ _. True) I8042_DATA b (?k1\<lparr>kb_irq_level := lv1\<rparr>, c, log1) =
      (Inr (), ?k2\<lparr>kb_irq_level := lv2\<rparr>, c, log2)"
    using i8042_out_param [of "?k1\<lparr>kb_irq_level := lv1\<rparr>" CMD_WRITE_CONFIG b c "?k2\<lparr>kb_irq_level := lv1\<rparr>" c log1]
    by (simp add: i8042_controller_param_def)
  let ?k3 = "?k2\<lparr>kb_status_cmd := True, kb_controller_param := None, kb_output := Some b\<rparr>"
  obtain lv3 log3 where w3: "i8042_out (\<lambda>_ _ _. True) I8042_COMMAND CMD_READ_CONFIG
      (?k2\<lparr>kb_irq_level := lv2\<rparr>, c, log2) = (Inr (), ?k3\<lparr>kb_irq_level := lv3\<rparr>, c, log3)"
    using out i8042_out_command [of CMD_READ_CONFIG "?k2\<lparr>kb_irq_level := lv2\<rparr>" c "?k3\<lparr>kb_irq_level := lv2\<rparr>" c log2]
    by (simp add: i8042_controller_command_def i8042_push_def i8042_load_def)
  have sy: "i8042_synced (?k3\<lparr>kb_irq_level := lv3\<rparr>) log3"
    by (rule i8042_out_synced [OF w3 i8042_out_synced [OF w2 i8042_out_synced [OF w1 assms(1)]]])
  have "i8042_contents (?k3\<lparr>kb_irq_level := lv3\<rparr>) = [b]" using out by (simp add: i8042_contents_def)
  with i8042_in_data [OF sy, of c] w1 w2 w3 show ?thesis by (auto simp: then_op_def)
qed

theorem i8042_config_roundtrip_witness:
  "\<exists>k' log'. then_op (i8042_out_n (\<lambda>_ _ _. True)
      [(I8042_COMMAND, CMD_WRITE_CONFIG), (I8042_DATA, 0x44), (I8042_COMMAND, CMD_READ_CONFIG)])
      (\<lambda>_. i8042_in (\<lambda>_ _ _. True) I8042_DATA) (i8042_new, vm_control_new, []) =
      (Inr 0x44, k', vm_control_new, log') \<and> kb_config k' = 0x44 \<and> i8042_contents k' = []"
proof -
  have sy: "i8042_synced i8042_new []" and ct: "i8042_contents i8042_new = []"
    by (simp_all add: i8042_synced_def i8042_tracked_def i8042_invar_def i8042_level_def i8042_new_def
        i8042_contents_def)
  show ?thesis by (rule i8042_config_roundtrip [OF sy ct])
qed

section \<open>Stopping the VM\<close>

text \<open>
  A port access stops the VM exactly when it is a reset: the pulse-reset command, or a byte
  with bit 0 clear for the write-output-port command. Any other access leaves the control block
  as it was, and so every thread running.
\<close>

theorem i8042_stops_only_on_reset:
  assumes "i8042_handle env io (data, k, c, log) = (r, data', k', c', log')"
    and "io_wf io data"
  shows "c' = (if io_direction io = KVM_EXIT_IO_OUT \<and>
      (io_port io = I8042_COMMAND \<and> hd data = CMD_PULSE_RESET \<or>
       io_port io = I8042_DATA \<and> kb_controller_param k = Some CMD_WRITE_OUTPUT_PORT \<and>
         hd data AND 1 = 0)
    then ctl_stop c else c)"
proof -
  obtain b rest where d: "take (io_size io) data = b # rest" "hd data = b"
    using io_wf_nonempty [OF assms(2)]
    by (cases "take (io_size io) data"; cases data; cases "io_size io") auto
  have "c' = fst (snd (snd (snd (i8042_access env (io_direction io) (io_port io)
      (take (io_size io) data, k, c, log)))))"
    using assms(1) by (auto simp: i8042_handle_def then_op_def split: prod.splits sum.splits)
  then show ?thesis
    by (cases "io_direction io")
      (auto simp: i8042_access_def d Let_def i8042_controller_param_def i8042_controller_command_def
        split: prod.splits sum.splits option.splits if_splits)
qed

theorem i8042_stops_only_on_reset_witness:
  "\<exists>r data' k' log'. i8042_handle (\<lambda>_ _ _. True)
      \<lparr>io_direction = KVM_EXIT_IO_OUT, io_size = 1, io_port = I8042_COMMAND, io_count = 1\<rparr>
      ([CMD_PULSE_RESET], i8042_new, vm_control_new, []) = (r, data', k', ctl_stop vm_control_new, log')"
proof -
  let ?io = "\<lparr>io_direction = KVM_EXIT_IO_OUT, io_size = 1, io_port = I8042_COMMAND, io_count = 1\<rparr>"
  obtain r data' k' c' log' where h: "i8042_handle (\<lambda>_ _ _. True) ?io
      ([CMD_PULSE_RESET], i8042_new, vm_control_new, []) = (r, data', k', c', log')"
    by (cases "i8042_handle (\<lambda>_ _ _. True) ?io ([CMD_PULSE_RESET], i8042_new, vm_control_new, [])")
  have "io_wf ?io [CMD_PULSE_RESET]" by (simp add: io_wf_def)
  from i8042_stops_only_on_reset [OF h this] h show ?thesis by auto
qed

end
