(* ===== verification/Uart16550.thy ===== *)
theory Uart16550
  imports Irq_Line Byte_Fifo Vm_Control
begin

text \<open>
  The 16550 serial port of \<open>src/src/arch/x86_64/io.rs\<close>: registers, receive queue, transmitted
  bytes and interrupt line. A handler's state is the access's data bytes, the port, the bytes
  written to standard output (whose errors the code ignores) and the log of interrupt calls.
\<close>

section \<open>State\<close>

abbreviation (input) UART_IRQ :: u32 where "UART_IRQ \<equiv> 4"

record uart =
  ua_ier :: u8
  ua_fcr :: u8
  ua_lcr :: u8
  ua_mcr :: u8
  ua_scr :: u8
  ua_thr_ipending :: bool
  ua_irq_level :: bool
  ua_rx :: "u8 list"

definition uart_new :: uart where
  "uart_new = \<lparr>ua_ier = 0, ua_fcr = 0, ua_lcr = 0, ua_mcr = 0, ua_scr = 0, ua_thr_ipending = False,
     ua_irq_level = False, ua_rx = []\<rparr>"

text \<open>The two interrupt conditions and the gate in front of them.\<close>

definition uart_rx_wanted :: "uart \<Rightarrow> bool" where
  "uart_rx_wanted s \<longleftrightarrow> ua_ier s AND 0x01 \<noteq> 0 \<and> ua_rx s \<noteq> []"

definition uart_thr_wanted :: "uart \<Rightarrow> bool" where
  "uart_thr_wanted s \<longleftrightarrow> ua_ier s AND 0x02 \<noteq> 0 \<and> ua_thr_ipending s"

definition uart_level :: "uart \<Rightarrow> bool" where
  "uart_level s \<longleftrightarrow> ua_mcr s AND 0x08 \<noteq> 0 \<and> (uart_rx_wanted s \<or> uart_thr_wanted s)"

definition uart_update_irq :: "irq_env \<Rightarrow> (uart \<times> irq_log, unit) oper" where
  "uart_update_irq env = (\<lambda>(s, log).
     let level = uart_level s
     in if level \<noteq> ua_irq_level s
        then (case arch_update_irq env (if level then 1 else 0) UART_IRQ log of
                (r, log') \<Rightarrow> (r, s\<lparr>ua_irq_level := level\<rparr>, log'))
        else (Inr (), s, log))"

definition uart_send_char :: "irq_env \<Rightarrow> u8 \<Rightarrow> (uart \<times> irq_log, unit) oper" where
  "uart_send_char env ch = (\<lambda>(s, log). uart_update_irq env (s\<lparr>ua_rx := ua_rx s @ [ch]\<rparr>, log))"

section \<open>Port accesses\<close>

type_synonym uart_world = "u8 list \<times> uart \<times> u8 list \<times> irq_log"

text \<open>\<open>IIR\<close>: the cause of highest priority; reading it clears a transmitter interrupt.\<close>

definition uart_read_iir :: "uart \<Rightarrow> u8 \<times> uart" where
  "uart_read_iir s =
     (let fifo = (if ua_fcr s AND 0x01 \<noteq> 0 then 0xc0 else 0x00)
      in if uart_rx_wanted s then (fifo OR 0x04, s)
         else if uart_thr_wanted s then (fifo OR 0x02, s\<lparr>ua_thr_ipending := False\<rparr>)
         else (fifo OR 0x01, s))"

definition uart_msr :: "uart \<Rightarrow> u8" where
  "uart_msr s =
     (if ua_mcr s AND 0x10 \<noteq> 0
      then push_bit 3 (ua_mcr s AND 0x02) OR push_bit 5 (ua_mcr s AND 0x01)
           OR push_bit 4 (ua_mcr s AND 0x04) OR push_bit 4 (ua_mcr s AND 0x08)
      else 0xb0)"

definition uart_pop :: "uart \<Rightarrow> u8 option \<times> uart" where
  "uart_pop s = (case ua_rx s of [] \<Rightarrow> (None, s) | b # r \<Rightarrow> (Some b, s\<lparr>ua_rx := r\<rparr>))"

text \<open>The arms for reads: the byte for \<open>data[0]\<close> and the new state, in the source's order.\<close>

definition uart_in :: "u16 \<Rightarrow> uart \<Rightarrow> u8 \<times> uart" where
  "uart_in port s =
     (if port = 0x3f8 then (case uart_pop s of (b, s') \<Rightarrow> (case b of None \<Rightarrow> 0 | Some b \<Rightarrow> b, s'))
      else if port = 0x3fd then (if ua_rx s = [] then 0x60 else 0x61, s)
      else if port = 0x3f9 then (ua_ier s, s)
      else if port = 0x3fa then uart_read_iir s
      else if port = 0x3fe then (uart_msr s, s)
      else if port = 0x3ff then (ua_scr s, s)
      else if 0x3f8 \<le> port \<and> port \<le> 0x3ff then (0x00, s)
      else (0xff, s))"

text \<open>The arms for writes of \<open>data[0]\<close>: the new state and what goes to standard output.\<close>

definition uart_out :: "u16 \<Rightarrow> u8 \<Rightarrow> uart \<Rightarrow> uart \<times> u8 list" where
  "uart_out port b s =
     (if port = 0x3f8 then (s\<lparr>ua_thr_ipending := True\<rparr>, (if b = 0x0a then [0x0d] else []) @ [b])
      else if port = 0x3f9 then
        (let v = b AND 0x0f;
             s = (if v AND 0x02 \<noteq> 0 \<and> ua_ier s AND 0x02 = 0 then s\<lparr>ua_thr_ipending := True\<rparr> else s)
         in (s\<lparr>ua_ier := v\<rparr>, []))
      else if port = 0x3fa then (s\<lparr>ua_fcr := b\<rparr>, [])
      else if port = 0x3fb then (s\<lparr>ua_lcr := b\<rparr>, [])
      else if port = 0x3fc then (s\<lparr>ua_mcr := b\<rparr>, [])
      else if port = 0x3ff then (s\<lparr>ua_scr := b\<rparr>, [])
      else (s, []))"

text \<open>
  The access itself; only the first byte is read or written. A write to a port without a register
  does not look at the data.
\<close>

definition uart_access :: "io_direction \<Rightarrow> u16 \<Rightarrow> (u8 list \<times> uart \<times> u8 list, unit) oper" where
  "uart_access dir port = (\<lambda>(data, s, out).
     case dir of
       KVM_EXIT_IO_IN \<Rightarrow>
         (case uart_in port s of (b, s') \<Rightarrow>
           (case data_set0 b data of
              Inl e \<Rightarrow> (Inl e, data, s', out) | Inr data' \<Rightarrow> (Inr (), data', s', out)))
     | KVM_EXIT_IO_OUT \<Rightarrow>
         if port \<in> {0x3f8, 0x3f9, 0x3fa, 0x3fb, 0x3fc, 0x3ff} then
           (case data_get0 data of
              Inl e \<Rightarrow> (Inl e, data, s, out)
            | Inr b \<Rightarrow> (case uart_out port b s of (s', w) \<Rightarrow> (Inr (), data, s', out @ w)))
         else (Inr (), data, s, out)
     | KVM_EXIT_IO_other _ \<Rightarrow>
         (case data_set0 0xff data of
            Inl e \<Rightarrow> (Inl e, data, s, out) | Inr data' \<Rightarrow> (Inr (), data', s, out)))"

definition uart_handle :: "irq_env \<Rightarrow> io_exit \<Rightarrow> (uart_world, unit) oper" where
  "uart_handle env io = (\<lambda>(data, s, out, log).
     case uart_access (io_direction io) (io_port io) (data, s, out) of
       (Inl e, data, s, out) \<Rightarrow> (Inl e, data, s, out, log)
     | (Inr _, data, s, out) \<Rightarrow>
         (case uart_update_irq env (s, log) of (r, s, log) \<Rightarrow> (r, data, s, out, log)))"

section \<open>Contracts\<close>

definition uart_push :: "u8 \<Rightarrow> uart \<Rightarrow> uart" where
  "uart_push ch s = s\<lparr>ua_rx := ua_rx s @ [ch]\<rparr>"

interpretation uart_fifo: fifo ua_rx uart_push uart_pop "\<lambda>_. True"
  by unfold_locales (auto simp: uart_push_def uart_pop_def split: list.splits)

interpretation uart_irq:
  irq_source UART_IRQ uart_level ua_irq_level "\<lambda>b s. s\<lparr>ua_irq_level := b\<rparr>" uart_update_irq
  by unfold_locales
    (auto simp: uart_level_def uart_rx_wanted_def uart_thr_wanted_def uart_update_irq_def Let_def)

section \<open>The interrupt line\<close>

definition uart_tracked :: "uart \<Rightarrow> irq_log \<Rightarrow> bool" where
  "uart_tracked s log \<longleftrightarrow> line_level UART_IRQ log = ua_irq_level s"

definition uart_synced :: "uart \<Rightarrow> irq_log \<Rightarrow> bool" where
  "uart_synced s log \<longleftrightarrow> uart_tracked s log \<and> ua_irq_level s = uart_level s"

lemma uart_update_synced:
  assumes "uart_update_irq env (s, log) = (Inr (), s', log')" and "uart_tracked s log"
  shows "uart_synced s' log'"
  using uart_irq.update_ok [OF assms(1)] uart_irq.update_tracks [OF assms(1)] assms(2)
  by (simp add: uart_synced_def uart_tracked_def)

lemma uart_in_level [simp]: "ua_irq_level (snd (uart_in port s)) = ua_irq_level s"
  by (auto simp: uart_in_def uart_pop_def uart_read_iir_def Let_def split: list.splits)

lemma uart_out_level [simp]: "ua_irq_level (fst (uart_out port b s)) = ua_irq_level s"
  by (auto simp: uart_out_def Let_def)

lemma uart_access_level:
  "uart_access dir port (data, s, out) = (r, data', s', out') \<Longrightarrow> ua_irq_level s' = ua_irq_level s"
  using uart_in_level [of port s] uart_out_level [of port _ s]
  by (auto simp: uart_access_def simp del: uart_in_level uart_out_level
      split: io_direction.splits prod.splits sum.splits if_splits) (metis fst_conv)+

lemma uart_handle_synced:
  assumes "uart_handle env io (data, s, out, log) = (Inr (), data', s', out', log')" and "uart_synced s log"
  shows "uart_synced s' log'"
proof -
  from assms(1) obtain s1 where
    "uart_access (io_direction io) (io_port io) (data, s, out) = (Inr (), data', s1, out')"
    "uart_update_irq env (s1, log) = (Inr (), s', log')"
    by (auto simp: uart_handle_def split: prod.splits sum.splits)
  with uart_access_level [OF this(1)] assms(2) uart_update_synced show ?thesis
    by (simp add: uart_synced_def uart_tracked_def)
qed

lemma uart_send_char_synced:
  assumes "uart_send_char env ch (s, log) = (Inr (), s', log')" and "uart_synced s log"
  shows "uart_synced s' log'"
  using assms uart_update_synced [of env "s\<lparr>ua_rx := ua_rx s @ [ch]\<rparr>" log s' log']
  by (simp add: uart_send_char_def uart_synced_def uart_tracked_def)

inductive uart_reach :: "irq_env \<Rightarrow> uart \<Rightarrow> irq_log \<Rightarrow> bool" for env where
  start: "uart_reach env uart_new []"
| access: "uart_reach env s log \<Longrightarrow>
    uart_handle env io (data, s, out, log) = (Inr (), data', s', out', log') \<Longrightarrow> uart_reach env s' log'"
| char: "uart_reach env s log \<Longrightarrow> uart_send_char env ch (s, log) = (Inr (), s', log') \<Longrightarrow>
    uart_reach env s' log'"
| other_line: "uart_reach env s log \<Longrightarrow> m \<noteq> UART_IRQ \<Longrightarrow> uart_reach env s (log @ [IrqSet level m])"

lemma uart_reach_synced: "uart_reach env s log \<Longrightarrow> uart_synced s log"
proof (induction rule: uart_reach.induct)
  case start
  show ?case by (simp add: uart_synced_def uart_tracked_def uart_new_def uart_level_def)
next
  case (access s log io data out data' s' out' log')
  then show ?case using uart_handle_synced by blast
next
  case (char s log ch s' log')
  then show ?case using uart_send_char_synced by blast
next
  case (other_line s log m level)
  then show ?case by (simp add: uart_synced_def uart_tracked_def)
qed

text \<open>
  C26. In every state the port can reach, its interrupt line is high exactly when the modem control
  register lets interrupts out and an enabled condition holds (data received, or transmitter
  empty and not yet acknowledged); the identification register then names a cause, and reports
  none exactly when no enabled condition holds; and the status register says whether a byte waits.
\<close>

theorem uart_irq_invariant:
  assumes "uart_reach env s log"
  shows "(line_level UART_IRQ log \<longleftrightarrow> ua_mcr s AND 0x08 \<noteq> 0 \<and>
       (ua_ier s AND 0x01 \<noteq> 0 \<and> ua_rx s \<noteq> [] \<or> ua_ier s AND 0x02 \<noteq> 0 \<and> ua_thr_ipending s))
    \<and> (fst (uart_in 0x3fa s) AND 0x01 = 0 \<longleftrightarrow> uart_rx_wanted s \<or> uart_thr_wanted s)
    \<and> (fst (uart_in 0x3fd s) AND 0x01 \<noteq> 0 \<longleftrightarrow> ua_rx s \<noteq> [])"
  using uart_reach_synced [OF assms]
  by (auto simp: uart_synced_def uart_tracked_def uart_level_def uart_rx_wanted_def uart_thr_wanted_def
      uart_in_def uart_read_iir_def Let_def)

theorem uart_irq_invariant_witness:
  "\<exists>s log. uart_reach (\<lambda>_ _ _. True) s log \<and> line_level UART_IRQ log \<and>
     fst (uart_in 0x3fa s) AND 0x01 = 0"
proof -
  let ?env = "\<lambda>_ _ _. True"
  let ?io = "\<lambda>p. \<lparr>io_direction = KVM_EXIT_IO_OUT, io_size = 1, io_port = p, io_count = 1\<rparr>"
  let ?s = "uart_new\<lparr>ua_ier := 1, ua_mcr := 8, ua_irq_level := True, ua_rx := [0x61]\<rparr>"
  have a: "uart_handle ?env (?io 0x3f9) ([1], uart_new, [], []) =
      (Inr (), [1], uart_new\<lparr>ua_ier := 1\<rparr>, [], [])"
    by (simp add: uart_handle_def uart_access_def uart_out_def uart_update_irq_def uart_level_def
        uart_rx_wanted_def uart_thr_wanted_def uart_new_def Let_def)
  have b: "uart_handle ?env (?io 0x3fc) ([8], uart_new\<lparr>ua_ier := 1\<rparr>, [], []) =
      (Inr (), [8], uart_new\<lparr>ua_ier := 1, ua_mcr := 8\<rparr>, [], [])"
    by (simp add: uart_handle_def uart_access_def uart_out_def uart_update_irq_def uart_level_def
        uart_rx_wanted_def uart_thr_wanted_def uart_new_def Let_def)
  have c: "uart_send_char ?env 0x61 (uart_new\<lparr>ua_ier := 1, ua_mcr := 8\<rparr>, []) = (Inr (), ?s, [IrqSet 1 4])"
    by (simp add: uart_send_char_def uart_update_irq_def uart_level_def uart_rx_wanted_def
        uart_new_def Let_def arch_update_irq_def)
  have r: "uart_reach ?env ?s [IrqSet 1 4]"
    by (rule uart_reach.char [OF uart_reach.access [OF uart_reach.access [OF uart_reach.start a] b] c])
  from uart_irq_invariant [OF r] r show ?thesis
    by (intro exI [of _ ?s] exI [of _ "[IrqSet 1 4]"]) (auto simp: uart_rx_wanted_def)
qed

section \<open>Guest programs\<close>

definition uart_inb :: "irq_env \<Rightarrow> u16 \<Rightarrow> (uart \<times> irq_log, u8) oper" where
  "uart_inb env port = (\<lambda>(s, log).
     case uart_handle env \<lparr>io_direction = KVM_EXIT_IO_IN, io_size = 1, io_port = port, io_count = 1\<rparr>
            ([0], s, [], log) of
       (Inl e, data, s', out, log') \<Rightarrow> (Inl e, s', log')
     | (Inr _, data, s', out, log') \<Rightarrow> (data_get0 data, s', log'))"

fun uart_send_all :: "irq_env \<Rightarrow> u8 list \<Rightarrow> (uart \<times> irq_log, unit) oper" where
  "uart_send_all env [] w = (Inr (), w)"
| "uart_send_all env (c # cs) w = then_op (uart_send_char env c) (\<lambda>_. uart_send_all env cs) w"

fun uart_inb_n :: "irq_env \<Rightarrow> nat \<Rightarrow> (uart \<times> irq_log, u8 list) oper" where
  "uart_inb_n env 0 w = (Inr [], w)"
| "uart_inb_n env (Suc n) w = then_op (uart_inb env 0x3f8)
     (\<lambda>b. then_op (uart_inb_n env n) (\<lambda>bs w'. (Inr (b # bs), w'))) w"

lemma uart_update_always:
  "\<exists>log'. uart_update_irq (\<lambda>_ _ _. True) (s, log) = (Inr (), s\<lparr>ua_irq_level := uart_level s\<rparr>, log')"
  by (simp add: uart_update_irq_def arch_update_irq_def Let_def)

lemma uart_send_all_rx:
  "\<exists>s' log'. uart_send_all (\<lambda>_ _ _. True) cs (s, log) = (Inr (), s', log') \<and> ua_rx s' = ua_rx s @ cs"
proof (induction cs arbitrary: s log)
  case (Cons c cs)
  obtain log1 where "uart_send_char (\<lambda>_ _ _. True) c (s, log) =
      (Inr (), s\<lparr>ua_rx := ua_rx s @ [c], ua_irq_level := uart_level (s\<lparr>ua_rx := ua_rx s @ [c]\<rparr>)\<rparr>, log1)"
    using uart_update_always [of "s\<lparr>ua_rx := ua_rx s @ [c]\<rparr>" log] by (auto simp: uart_send_char_def)
  with Cons.IH [of "s\<lparr>ua_rx := ua_rx s @ [c], ua_irq_level := uart_level (s\<lparr>ua_rx := ua_rx s @ [c]\<rparr>)\<rparr>" log1]
  show ?case by (auto simp: then_op_def)
qed simp

lemma uart_inb_data:
  "\<exists>s' log'. uart_inb (\<lambda>_ _ _. True) 0x3f8 (s, log) =
     (Inr (case ua_rx s of [] \<Rightarrow> 0 | b # _ \<Rightarrow> b), s', log') \<and> ua_rx s' = tl (ua_rx s)"
proof -
  let ?s1 = "snd (uart_pop s)"
  obtain log' where "uart_update_irq (\<lambda>_ _ _. True) (?s1, log) =
      (Inr (), ?s1\<lparr>ua_irq_level := uart_level ?s1\<rparr>, log')"
    using uart_update_always by blast
  then show ?thesis
    by (auto simp: uart_inb_def uart_handle_def uart_access_def uart_in_def uart_pop_def
        split: list.splits)
qed

text \<open>
  C27. What a frontend types is what the guest reads: characters sent while others wait queue up
  behind them, reading the data port as often as there are characters yields all of them in
  order, and nothing is left; reading an empty port yields 0.
\<close>

theorem uart_receives_in_order:
  "\<exists>s1 log1 s2 log2. uart_send_all (\<lambda>_ _ _. True) cs (s, log) = (Inr (), s1, log1)
    \<and> uart_inb_n (\<lambda>_ _ _. True) (length (ua_rx s) + length cs + n) (s1, log1) =
        (Inr (ua_rx s @ cs @ replicate n 0), s2, log2)
    \<and> ua_rx s2 = []"
proof -
  have rd: "\<exists>s2 log2. uart_inb_n (\<lambda>_ _ _. True) (length (ua_rx t) + n) (t, l) =
      (Inr (ua_rx t @ replicate n 0), s2, log2) \<and> ua_rx s2 = []" for t l
  proof (induction "length (ua_rx t) + n" arbitrary: t l n)
    case (Suc k)
    obtain t1 l1 where i: "uart_inb (\<lambda>_ _ _. True) 0x3f8 (t, l) =
        (Inr (case ua_rx t of [] \<Rightarrow> 0 | b # _ \<Rightarrow> b), t1, l1)" and t1: "ua_rx t1 = tl (ua_rx t)"
      using uart_inb_data by blast
    show ?case
    proof (cases "ua_rx t")
      case Nil
      with Suc.hyps(2) obtain n' where n: "n = Suc n'" by (cases n) auto
      from Suc.hyps(1) [of t1 n' l1] Suc.hyps(2) Nil n t1 i show ?thesis by (auto simp: then_op_def)
    next
      case (Cons b r)
      from Suc.hyps(1) [of t1 n l1] Suc.hyps(2) Cons t1 i show ?thesis by (auto simp: then_op_def)
    qed
  qed simp
  obtain s1 log1 where s1: "uart_send_all (\<lambda>_ _ _. True) cs (s, log) = (Inr (), s1, log1)"
    "ua_rx s1 = ua_rx s @ cs" using uart_send_all_rx by blast
  with rd [of s1 log1] show ?thesis by auto
qed

section \<open>Transmitting\<close>

fun crlf :: "u8 list \<Rightarrow> u8 list" where
  "crlf [] = []"
| "crlf (b # bs) = (if b = 0x0a then [0x0d, 0x0a] else [b]) @ crlf bs"

text \<open>\<open>outb\<close> to the data port, once for each byte.\<close>

fun uart_outb_all :: "irq_env \<Rightarrow> u8 list \<Rightarrow> (uart \<times> u8 list \<times> irq_log, unit) oper" where
  "uart_outb_all env [] w = (Inr (), w)"
| "uart_outb_all env (b # bs) w =
     (case uart_handle env \<lparr>io_direction = KVM_EXIT_IO_OUT, io_size = 1, io_port = 0x3f8, io_count = 1\<rparr>
             ([b], w) of
        (Inl e, data, w') \<Rightarrow> (Inl e, w')
      | (Inr _, data, w') \<Rightarrow> uart_outb_all env bs w')"

text \<open>
  What the guest transmits appears on standard output byte for byte, a carriage return put
  before each line feed, and nothing else does; this holds whatever the line control register
  says, so the divisor a driver writes to the same port with the divisor latch open (bit 7) is
  printed too. Of a string output of several bytes in one exit only the first is printed.
\<close>

theorem uart_transmits:
  "(\<exists>s' log'. uart_outb_all (\<lambda>_ _ _. True) bs (s, out, log) = (Inr (), s', out @ crlf bs, log'))
    \<and> (\<exists>s' log'. uart_handle (\<lambda>_ _ _. True)
        \<lparr>io_direction = KVM_EXIT_IO_OUT, io_size = 1, io_port = 0x3f8, io_count = Suc (length rest)\<rparr>
        (b # rest, s, out, log) = (Inr (), b # rest, s', out @ crlf [b], log'))"
proof -
  have one: "\<exists>s' log'. uart_handle (\<lambda>_ _ _. True)
      \<lparr>io_direction = KVM_EXIT_IO_OUT, io_size = 1, io_port = 0x3f8, io_count = k\<rparr>
      (b # rest, s, out, log) = (Inr (), b # rest, s', out @ crlf [b], log')" for b rest s out log k
    using uart_update_always [of "s\<lparr>ua_thr_ipending := True\<rparr>" log]
    by (auto simp: uart_handle_def uart_access_def uart_out_def)
  have "\<exists>s' log'. uart_outb_all (\<lambda>_ _ _. True) bs (s, out, log) = (Inr (), s', out @ crlf bs, log')"
  proof (induction bs arbitrary: s out log)
    case (Cons b bs)
    obtain s1 log1 where "uart_handle (\<lambda>_ _ _. True)
        \<lparr>io_direction = KVM_EXIT_IO_OUT, io_size = 1, io_port = 0x3f8, io_count = 1\<rparr>
        ([b], s, out, log) = (Inr (), [b], s1, out @ crlf [b], log1)" using one by blast
    with Cons.IH [of s1 "out @ crlf [b]" log1] show ?case by auto
  qed simp
  with one show ?thesis by blast
qed

end
