(* ===== verification/Coalesced_Ring.thy ===== *)
theory Coalesced_Ring
  imports Hearth_Prelude
begin

text \<open>
  \<open>CoalescedRing\<close> of \<open>src/src/main.rs\<close>: the ring in which KVM queues port writes instead of
  exiting. KVM appends at \<open>last\<close>; the one reader applies what is queued and frees it by storing
  \<open>first\<close>. The sizes of the two structs come from the generated bindings and are arguments of
  \<open>ring_entries\<close>; everything else takes the number of entries.
\<close>

section \<open>The ring\<close>

record ring_entry =
  re_phys_addr :: u64
  re_len :: u32
  re_data :: "u8 list"

record coalesced_ring =
  cr_first :: u32
  cr_last :: u32
  cr_entries :: "ring_entry list"

text \<open>The associated constant \<open>ENTRIES\<close>.\<close>

definition ring_entries :: "nat \<Rightarrow> nat \<Rightarrow> u32" where
  "ring_entries sz_ring sz_entry = word_of_nat ((4096 - sz_ring) div sz_entry)"

text \<open>The bytes of an entry: \<open>len\<close> of them, at most all.\<close>

definition entry_bytes :: "ring_entry \<Rightarrow> u8 list" where
  "entry_bytes e = take (min (unat (re_len e)) (length (re_data e))) (re_data e)"

text \<open>
  The loop from \<open>i\<close> to \<open>end'\<close>. Entries beyond those of the ring are read out of the page, which
  is undefined behaviour; \<open>i + 1\<close> is checked, \<open>None\<close> is a loop that never ends.
\<close>

partial_function (option) drain_loop ::
    "u32 \<Rightarrow> (u64 \<Rightarrow> u8 list \<Rightarrow> 's \<Rightarrow> 's) \<Rightarrow> coalesced_ring \<Rightarrow> u32 \<Rightarrow> u32 \<Rightarrow> 's \<Rightarrow> (unit res \<times> 's) option" where
  "drain_loop entries wr ring i end' s =
     (if i = end' then Some (Inr (), s)
      else if length (cr_entries ring) \<le> unat i then Some (Inl UndefinedBehaviour, s)
      else (let e = cr_entries ring ! unat i; s = wr (re_phys_addr e) (entry_bytes e) s
            in case add_ov i 1 of
                 Inl f \<Rightarrow> Some (Inl f, s)
               | Inr j \<Rightarrow> drain_loop entries wr ring (j mod entries) end' s))"

definition ring_drain ::
    "u32 \<Rightarrow> (u64 \<Rightarrow> u8 list \<Rightarrow> 's \<Rightarrow> 's) \<Rightarrow> coalesced_ring \<times> 's \<Rightarrow> (unit res \<times> coalesced_ring \<times> 's) option" where
  "ring_drain entries wr = (\<lambda>(ring, s).
     case drain_loop entries wr ring (cr_first ring) (cr_last ring) s of
       None \<Rightarrow> None
     | Some (Inl e, s') \<Rightarrow> Some (Inl e, ring, s')
     | Some (Inr _, s') \<Rightarrow> Some (Inr (), ring\<lparr>cr_first := cr_last ring\<rparr>, s'))"

section \<open>What is queued\<close>

text \<open>What KVM guarantees: both indices within the ring, which has all its entries.\<close>

definition ring_wf :: "u32 \<Rightarrow> coalesced_ring \<Rightarrow> bool" where
  "ring_wf entries ring \<longleftrightarrow> unat entries < 2 ^ 31 \<and> length (cr_entries ring) = unat entries \<and>
     cr_first ring < entries \<and> cr_last ring < entries"

definition ring_count :: "u32 \<Rightarrow> u32 \<Rightarrow> u32 \<Rightarrow> nat" where
  "ring_count entries i j =
     (if i \<le> j then unat j - unat i else unat j + unat entries - unat i)"

text \<open>The queued entries, oldest first.\<close>

definition ring_queued :: "u32 \<Rightarrow> coalesced_ring \<Rightarrow> ring_entry list" where
  "ring_queued entries ring =
     map (\<lambda>k. cr_entries ring ! ((unat (cr_first ring) + k) mod unat entries))
       [0..<ring_count entries (cr_first ring) (cr_last ring)]"

lemma ring_step:
  fixes i entries :: u32
  assumes "i < entries" and "unat entries < 2 ^ 31"
  shows "add_ov i 1 = Inr (i + 1)" and "unat ((i + 1) mod entries) = (unat i + 1) mod unat entries"
    and "(i + 1) mod entries < entries"
proof -
  have "unat i < unat entries" using assms(1) by (simp add: word_less_nat_alt)
  then have lt: "unat i + 1 < 2 ^ 32" using assms(2) by simp
  then show "add_ov i 1 = Inr (i + 1)" by (simp add: checked_add_def)
  have "unat (i + 1) = unat i + 1" using lt by (simp add: unat_add_no_overflow)
  then show "unat ((i + 1) mod entries) = (unat i + 1) mod unat entries" by (simp add: unat_mod)
  show "(i + 1) mod entries < entries"
    using assms(1) \<open>unat i < unat entries\<close> by (simp add: word_less_nat_alt unat_mod)
qed

lemma ring_count_step:
  assumes "i < entries" "j < entries" "i \<noteq> j" "unat entries < 2 ^ 31"
  shows "ring_count entries i j = Suc (ring_count entries ((i + 1) mod entries) j)"
proof -
  have le: "unat i < unat entries" "unat j < unat entries" "unat i \<noteq> unat j"
    using assms by (simp_all add: word_less_nat_alt word_unat_eq_iff)
  show ?thesis
  proof (cases "unat i + 1 = unat entries")
    case True
    then have "unat ((i + 1) mod entries) = 0" using ring_step(2) [OF assms(1,4)] by simp
    with True le show ?thesis by (simp add: ring_count_def word_le_nat_alt)
  next
    case False
    then have "unat ((i + 1) mod entries) = unat i + 1" using ring_step(2) [OF assms(1,4)] le by simp
    with False le show ?thesis by (auto simp: ring_count_def word_le_nat_alt)
  qed
qed

lemma drain_loop_queued:
  assumes wf: "unat entries < 2 ^ 31" "length (cr_entries ring) = unat entries" and "i < entries" "j < entries"
  shows "drain_loop entries wr ring i j s =
    Some (Inr (), foldl (\<lambda>t e. wr (re_phys_addr e) (entry_bytes e) t) s
      (map (\<lambda>k. cr_entries ring ! ((unat i + k) mod unat entries)) [0..<ring_count entries i j]))"
  using assms(3)
proof (induction "ring_count entries i j" arbitrary: i s)
  case 0
  then have "i = j"
    using assms(4) by (auto simp: ring_count_def word_less_nat_alt word_le_nat_alt word_unat_eq_iff split: if_splits)
  with 0 show ?case by (subst drain_loop.simps) (simp add: ring_count_def)
next
  case (Suc n)
  let ?i = "(i + 1) mod entries" and ?w = "\<lambda>t e. wr (re_phys_addr e) (entry_bytes e) t"
  let ?e = "cr_entries ring ! unat i"
  have ne: "i \<noteq> j" using Suc.hyps(2) by (auto simp: ring_count_def)
  note st = ring_step [OF Suc.prems wf(1)]
  have cnt: "ring_count entries i j = Suc (ring_count entries ?i j)"
    by (rule ring_count_step [OF Suc.prems assms(4) ne wf(1)])
  have li: "unat i < unat entries" using Suc.prems by (simp add: word_less_nat_alt)
  have "(unat ?i + k) mod unat entries = (unat i + Suc k) mod unat entries" for k
    by (simp add: st(2) mod_add_left_eq)
  then have q: "map (\<lambda>k. cr_entries ring ! ((unat i + k) mod unat entries)) [0..<Suc (ring_count entries ?i j)] =
      ?e # map (\<lambda>k. cr_entries ring ! ((unat ?i + k) mod unat entries)) [0..<ring_count entries ?i j]"
    using li by (simp add: upt_conv_Cons map_Suc_upt [symmetric] comp_def del: upt_Suc map_Suc_upt)
  have "drain_loop entries wr ring i j s = drain_loop entries wr ring ?i j (?w s ?e)"
    using ne li wf(2) st(1) by (subst drain_loop.simps) (simp add: Let_def)
  also have "\<dots> = Some (Inr (), foldl ?w (?w s ?e)
      (map (\<lambda>k. cr_entries ring ! ((unat ?i + k) mod unat entries)) [0..<ring_count entries ?i j]))"
    using Suc.hyps(2) cnt st(3) by (intro Suc.hyps(1)) simp_all
  finally show ?case unfolding cnt q by simp
qed

text \<open>
  C34. Draining ends, applies every queued write exactly once, oldest first, also when the queue
  wraps around the end of the ring, and leaves the ring empty.
\<close>

theorem ring_drain_applies_all:
  assumes "ring_wf entries ring"
  shows "\<exists>ring'. ring_drain entries wr (ring, s) =
      Some (Inr (), ring', foldl (\<lambda>t e. wr (re_phys_addr e) (entry_bytes e) t) s (ring_queued entries ring))
    \<and> ring_queued entries ring' = [] \<and> ring_wf entries ring'"
  using assms drain_loop_queued [of entries ring "cr_first ring" "cr_last ring" wr s]
  by (auto simp: ring_drain_def ring_wf_def ring_queued_def ring_count_def)

theorem ring_drain_applies_all_witness:
  "\<exists>ring'. ring_drain 2 (\<lambda>port bs s. s @ [(port, bs)])
      (\<lparr>cr_first = 1, cr_last = 0, cr_entries = [\<lparr>re_phys_addr = 1, re_len = 1, re_data = [7]\<rparr>,
         \<lparr>re_phys_addr = 0x3c8, re_len = 1, re_data = [9, 0]\<rparr>]\<rparr>, []) = Some (Inr (), ring', [(0x3c8, [9])])"
proof -
  let ?r = "\<lparr>cr_first = 1, cr_last = 0, cr_entries = [\<lparr>re_phys_addr = 1, re_len = 1, re_data = [7]\<rparr>,
         \<lparr>re_phys_addr = 0x3c8, re_len = 1, re_data = [9, 0]\<rparr>]\<rparr>"
  have "ring_wf 2 ?r" by (simp add: ring_wf_def)
  moreover have "ring_queued 2 ?r = [\<lparr>re_phys_addr = 0x3c8, re_len = 1, re_data = [9, 0]\<rparr>]"
    by (simp add: ring_queued_def ring_count_def)
  ultimately show ?thesis
    using ring_drain_applies_all [of 2 ?r "\<lambda>port bs s. s @ [(port, bs)]" "[]"]
    by (auto simp: entry_bytes_def)
qed

end
