(* ===== verification/Vga.thy ===== *)
theory Vga
  imports Coalesced_Ring Vm_Control Guest_Memory
begin

text \<open>
  The VGA adapter of \<open>src/src/arch/x86_64/vga.rs\<close>: registers, palette, the timing of the input
  status, the tracking of written pages, and rendering of mode 13h. The time since the epoch,
  what a fetch of the dirty log returns, and the bytes of the framebuffer are arguments of the
  operations that read them.
\<close>

section \<open>Constants\<close>

abbreviation (input) VGA_FRAMEBUFFER :: u64 where "VGA_FRAMEBUFFER \<equiv> 0xa0000"
abbreviation (input) WIDTH :: nat where "WIDTH \<equiv> 320"
abbreviation (input) HEIGHT :: nat where "HEIGHT \<equiv> 200"
abbreviation (input) VGA_FRAMEBUFFER_SIZE :: nat where "VGA_FRAMEBUFFER_SIZE \<equiv> 64000"
abbreviation (input) FRAMEBUFFER_PAGES :: nat where "FRAMEBUFFER_PAGES \<equiv> 16"

abbreviation (input) AC_INDEX :: u16 where "AC_INDEX \<equiv> 0x3c0"
abbreviation (input) AC_READ :: u16 where "AC_READ \<equiv> 0x3c1"
abbreviation (input) MISC_WRITE :: u16 where "MISC_WRITE \<equiv> 0x3c2"
abbreviation (input) SEQ_INDEX :: u16 where "SEQ_INDEX \<equiv> 0x3c4"
abbreviation (input) SEQ_DATA :: u16 where "SEQ_DATA \<equiv> 0x3c5"
abbreviation (input) DAC_READ_INDEX :: u16 where "DAC_READ_INDEX \<equiv> 0x3c7"
abbreviation (input) DAC_WRITE_INDEX :: u16 where "DAC_WRITE_INDEX \<equiv> 0x3c8"
abbreviation (input) DAC_DATA :: u16 where "DAC_DATA \<equiv> 0x3c9"
abbreviation (input) MISC_READ :: u16 where "MISC_READ \<equiv> 0x3cc"
abbreviation (input) GC_INDEX :: u16 where "GC_INDEX \<equiv> 0x3ce"
abbreviation (input) GC_DATA :: u16 where "GC_DATA \<equiv> 0x3cf"
abbreviation (input) CRTC_INDEX :: u16 where "CRTC_INDEX \<equiv> 0x3d4"
abbreviation (input) CRTC_DATA :: u16 where "CRTC_DATA \<equiv> 0x3d5"
abbreviation (input) INSTAT_READ :: u16 where "INSTAT_READ \<equiv> 0x3da"

abbreviation (input) AC_PAS :: u8 where "AC_PAS \<equiv> 0x20"
abbreviation (input) INSTAT_DD :: u8 where "INSTAT_DD \<equiv> 0x01"
abbreviation (input) INSTAT_VR :: u8 where "INSTAT_VR \<equiv> 0x08"
abbreviation (input) DAC_STATE_READ :: u8 where "DAC_STATE_READ \<equiv> 0x03"

abbreviation (input) DOT_CLOCK_KHZ :: nat where "DOT_CLOCK_KHZ \<equiv> 25175"
abbreviation (input) DOTS_PER_LINE :: nat where "DOTS_PER_LINE \<equiv> 800"
abbreviation (input) LINES_PER_FRAME :: nat where "LINES_PER_FRAME \<equiv> 449"
abbreviation (input) VISIBLE_DOTS :: nat where "VISIBLE_DOTS \<equiv> 640"
abbreviation (input) VISIBLE_LINES :: nat where "VISIBLE_LINES \<equiv> 400"

definition vga_vsync_line :: "nat \<Rightarrow> bool" where
  "vga_vsync_line l \<longleftrightarrow> 412 \<le> l \<and> l < 414"

definition vga_port :: "u16 \<Rightarrow> bool" where
  "vga_port p \<longleftrightarrow> 0x3c0 \<le> p \<and> p \<le> 0x3df"

section \<open>State\<close>

text \<open>
  \<open>framebuffer\<close> is \<open>Some\<close> pointer into guest RAM when RAM covers the window; \<open>dac_writes\<close> the ring
  of queued writes. The frame counter is a \<open>u64\<close> that counts frames from 0 and cannot overflow in
  the life of a VM; it is a natural number here.
\<close>

record vga =
  vg_misc :: u8
  vg_seq_index :: u8
  vg_seq :: "u8 list"
  vg_gc_index :: u8
  vg_gc :: "u8 list"
  vg_crtc_index :: u8
  vg_crtc :: "u8 list"
  vg_ac_index :: u8
  vg_ac_data_next :: bool
  vg_ac :: "u8 list"
  vg_palette :: "u8 list list"
  vg_dac_write :: "u8 \<times> nat"
  vg_dac_read :: "u8 \<times> nat"
  vg_dac_reading :: bool
  vg_framebuffer :: "host_ptr option"
  vg_has_log :: bool
  vg_dac_writes :: "coalesced_ring option"
  vg_frame :: nat
  vg_page_written :: "nat list"
  vg_repaint :: bool

definition vga_new :: "host_ptr option \<Rightarrow> bool \<Rightarrow> coalesced_ring option \<Rightarrow> vga" where
  "vga_new fb has_log ring =
     \<lparr>vg_misc = 0, vg_seq_index = 0, vg_seq = replicate 8 0, vg_gc_index = 0, vg_gc = replicate 16 0,
      vg_crtc_index = 0, vg_crtc = replicate 32 0, vg_ac_index = 0, vg_ac_data_next = False,
      vg_ac = replicate 32 0, vg_palette = replicate 256 (replicate 3 0), vg_dac_write = (0, 0),
      vg_dac_read = (0, 0), vg_dac_reading = False, vg_framebuffer = fb, vg_has_log = has_log,
      vg_dac_writes = ring, vg_frame = 0, vg_page_written = replicate FRAMEBUFFER_PAGES 0,
      vg_repaint = False\<rparr>"

section \<open>Registers\<close>

text \<open>The next component of the palette: three to an entry, entries wrap at 256.\<close>

definition dac_next :: "u8 \<times> nat \<Rightarrow> u8 \<times> nat" where
  "dac_next = (\<lambda>(index, component).
     if component = 2 then (index + 1, 0) else (index, component + 1))"

text \<open>
  Indices are masked to the length of their array, and a component stays below three
  (\<open>vga_wf\<close> below), so no access is out of range.
\<close>

definition vga_write :: "u16 \<Rightarrow> u8 \<Rightarrow> vga \<Rightarrow> vga" where
  "vga_write port byte v =
     (if port = AC_INDEX then
        (let v = (if vg_ac_data_next v
                  then v\<lparr>vg_ac := (vg_ac v)[unat (vg_ac_index v AND 0x1f) := byte]\<rparr>
                  else v\<lparr>vg_repaint := vg_repaint v \<or> (vg_ac_index v XOR byte) AND AC_PAS \<noteq> 0,
                         vg_ac_index := byte AND 0x3f\<rparr>)
         in v\<lparr>vg_ac_data_next := \<not> vg_ac_data_next v\<rparr>)
      else if port = MISC_WRITE then v\<lparr>vg_misc := byte\<rparr>
      else if port = SEQ_INDEX then v\<lparr>vg_seq_index := byte AND 0x07\<rparr>
      else if port = SEQ_DATA then v\<lparr>vg_seq := (vg_seq v)[unat (vg_seq_index v) := byte]\<rparr>
      else if port = DAC_READ_INDEX then v\<lparr>vg_dac_read := (byte, 0), vg_dac_reading := True\<rparr>
      else if port = DAC_WRITE_INDEX then v\<lparr>vg_dac_write := (byte, 0), vg_dac_reading := False\<rparr>
      else if port = DAC_DATA then
        (case vg_dac_write v of (index, component) \<Rightarrow>
          v\<lparr>vg_palette := (vg_palette v)[unat index := (vg_palette v ! unat index)[component := byte AND 0x3f]],
            vg_repaint := True, vg_dac_write := dac_next (index, component)\<rparr>)
      else if port = GC_INDEX then v\<lparr>vg_gc_index := byte AND 0x0f\<rparr>
      else if port = GC_DATA then v\<lparr>vg_gc := (vg_gc v)[unat (vg_gc_index v) := byte]\<rparr>
      else if port = CRTC_INDEX then v\<lparr>vg_crtc_index := byte AND 0x1f\<rparr>
      else if port = CRTC_DATA then v\<lparr>vg_crtc := (vg_crtc v)[unat (vg_crtc_index v) := byte]\<rparr>
      else v)"

text \<open>\<open>ns\<close> is the time since the epoch in nanoseconds.\<close>

definition vga_input_status :: "nat \<Rightarrow> u8" where
  "vga_input_status ns =
     (let dot = ns * DOT_CLOCK_KHZ div 1000000 mod (DOTS_PER_LINE * LINES_PER_FRAME);
          line = dot div DOTS_PER_LINE; column = dot mod DOTS_PER_LINE
      in (if VISIBLE_LINES \<le> line \<or> VISIBLE_DOTS \<le> column then INSTAT_DD else 0)
         OR (if vga_vsync_line line then INSTAT_VR else 0))"

definition vga_read :: "nat \<Rightarrow> u16 \<Rightarrow> vga \<Rightarrow> u8 \<times> vga" where
  "vga_read ns port v =
     (if port = AC_INDEX then (vg_ac_index v, v)
      else if port = AC_READ then (vg_ac v ! unat (vg_ac_index v AND 0x1f), v)
      else if port = SEQ_INDEX then (vg_seq_index v, v)
      else if port = SEQ_DATA then (vg_seq v ! unat (vg_seq_index v), v)
      else if port = DAC_READ_INDEX then (if vg_dac_reading v then DAC_STATE_READ else 0, v)
      else if port = DAC_WRITE_INDEX then (fst (vg_dac_write v), v)
      else if port = DAC_DATA then
        (case vg_dac_read v of (index, component) \<Rightarrow>
          (vg_palette v ! unat index ! component, v\<lparr>vg_dac_read := dac_next (index, component)\<rparr>))
      else if port = MISC_READ then (vg_misc v, v)
      else if port = GC_INDEX then (vg_gc_index v, v)
      else if port = GC_DATA then (vg_gc v ! unat (vg_gc_index v), v)
      else if port = CRTC_INDEX then (vg_crtc_index v, v)
      else if port = CRTC_DATA then (vg_crtc v ! unat (vg_crtc_index v), v)
      else if port = INSTAT_READ then
        (vga_input_status ns, v\<lparr>vg_ac_data_next := False\<rparr>)
      else (0xff, v))"

section \<open>Queued writes\<close>

text \<open>
  The bytes of a queued write go to consecutive ports. \<open>port as u16 + i\<close> is checked; KVM queues
  ports \<open>0x3c8\<close> and \<open>0x3c9\<close> only, so it does not overflow and is a plain sum here.
\<close>

fun vga_write_bytes :: "u16 \<Rightarrow> u8 list \<Rightarrow> vga \<Rightarrow> vga" where
  "vga_write_bytes port [] v = v"
| "vga_write_bytes port (b # bs) v = vga_write_bytes (port + 1) bs (vga_write port b v)"

definition apply_queued_writes :: "u32 \<Rightarrow> vga \<Rightarrow> (unit res \<times> vga) option" where
  "apply_queued_writes entries v =
     (case vg_dac_writes v of
        None \<Rightarrow> Some (Inr (), v)
      | Some ring \<Rightarrow>
          (case ring_drain entries (\<lambda>addr bs. vga_write_bytes (ucast addr) bs)
                  (ring, v\<lparr>vg_dac_writes := None\<rparr>) of
             None \<Rightarrow> None
           | Some (r, ring', v') \<Rightarrow> Some (r, v'\<lparr>vg_dac_writes := Some ring'\<rparr>)))"

section \<open>Port accesses\<close>

text \<open>One access: its bytes go to consecutive ports; \<open>clk\<close> gives the clock at each read.\<close>

fun vga_access :: "io_direction \<Rightarrow> u16 \<Rightarrow> (nat \<Rightarrow> nat) \<Rightarrow> nat \<Rightarrow> u8 list \<Rightarrow> vga \<Rightarrow> u8 list \<times> vga" where
  "vga_access dir port clk k [] v = ([], v)"
| "vga_access dir port clk k (b # bs) v =
     (case (case dir of
              KVM_EXIT_IO_OUT \<Rightarrow> (b, vga_write port b v)
            | KVM_EXIT_IO_IN \<Rightarrow> vga_read (clk k) port v
            | KVM_EXIT_IO_other _ \<Rightarrow> (b, v)) of
        (b', v') \<Rightarrow> (case vga_access dir (port + 1) clk (Suc k) bs v' of (bs', v'') \<Rightarrow> (b' # bs', v'')))"

text \<open>\<open>data.chunks_mut(size)\<close>.\<close>

function vga_accesses ::
    "io_direction \<Rightarrow> u16 \<Rightarrow> nat \<Rightarrow> (nat \<Rightarrow> nat) \<Rightarrow> nat \<Rightarrow> u8 list \<Rightarrow> vga \<Rightarrow> u8 list \<times> vga" where
  "vga_accesses dir port sz clk k data v =
     (if data = [] \<or> sz = 0 then (data, v)
      else case vga_access dir port clk k (take sz data) v of
        (d, v') \<Rightarrow> (case vga_accesses dir port sz clk (k + sz) (drop sz data) v' of
          (d', v'') \<Rightarrow> (d @ d', v'')))"
  by auto
termination
  by (relation "measure (\<lambda>(dir, port, sz, clk, k, data, v). length data)") auto

text \<open>\<open>chunks_mut\<close> panics on a size of 0, after the queued writes are applied.\<close>

definition vga_handle ::
    "u32 \<Rightarrow> (nat \<Rightarrow> nat) \<Rightarrow> io_exit \<Rightarrow> u8 list \<times> vga \<Rightarrow> (unit res \<times> u8 list \<times> vga) option" where
  "vga_handle entries clk io = (\<lambda>(data, v).
     case apply_queued_writes entries v of
       None \<Rightarrow> None
     | Some (Inl e, v') \<Rightarrow> Some (Inl e, data, v')
     | Some (Inr _, v') \<Rightarrow>
         Some (if io_size io = 0 then (Inl (Panicked AssertFailed), data, v')
               else case vga_accesses (io_direction io) (io_port io) (io_size io) clk 0 data v' of
                 (data', v'') \<Rightarrow> (Inr (), data', v'')))"

section \<open>Frames\<close>

text \<open>\<open>fetched\<close> is what \<open>DirtyLog::fetch\<close> returns, one bit a page in 64-bit words.\<close>

definition vga_bitmap :: "u64 list res \<Rightarrow> vga \<Rightarrow> u64 list" where
  "vga_bitmap fetched v =
     (case vg_framebuffer v of
        None \<Rightarrow> [0]
      | Some _ \<Rightarrow>
          if vg_has_log v then (case fetched of Inl _ \<Rightarrow> [NOT 0] | Inr b \<Rightarrow> b) else [NOT 0])"

definition page_bit :: "u64 list \<Rightarrow> nat \<Rightarrow> bool" where
  "page_bit bitmap page \<longleftrightarrow> drop_bit (page mod 64) (bitmap ! (page div 64)) AND 1 \<noteq> 0"

fun first_index :: "('a \<Rightarrow> bool) \<Rightarrow> 'a list \<Rightarrow> nat option" where
  "first_index P [] = None"
| "first_index P (x # xs) = (if P x then Some 0 else map_option Suc (first_index P xs))"

definition last_index :: "('a \<Rightarrow> bool) \<Rightarrow> 'a list \<Rightarrow> nat option" where
  "last_index P xs = map_option (\<lambda>i. length xs - 1 - i) (first_index P (rev xs))"

text \<open>The range of pages, from the first to one past the last.\<close>

definition written_pages :: "u64 list res \<Rightarrow> nat \<Rightarrow> vga \<Rightarrow> (nat \<times> nat) option \<times> vga" where
  "written_pages fetched seen v =
     (let v = v\<lparr>vg_frame := vg_frame v + 1\<rparr>;
          bitmap = vga_bitmap fetched v;
          written = map (\<lambda>(page, w). if vg_repaint v \<or> page_bit bitmap page then vg_frame v else w)
                      (enumerate 0 (vg_page_written v));
          v = v\<lparr>vg_page_written := written, vg_repaint := False\<rparr>;
          changed = (\<lambda>w. seen = 0 \<or> seen < w)
      in (case first_index changed written of
            None \<Rightarrow> (None, v)
          | Some first \<Rightarrow>
              (map_option (\<lambda>last. (first, last + 1)) (last_index changed written), v)))"

definition dac_widen :: "u8 \<Rightarrow> u32" where
  "dac_widen c = ucast (push_bit 2 c OR drop_bit 4 c)"

definition palette_rgb :: "vga \<Rightarrow> u32 list" where
  "palette_rgb v = map (\<lambda>e. push_bit 16 (dac_widen (e ! 0)) OR push_bit 8 (dac_widen (e ! 1)) OR dac_widen (e ! 2))
     (vg_palette v)"

text \<open>
  \<open>render\<close>: the rows drawn, the frame the client has now seen, and the new picture. \<open>fb\<close> gives the
  bytes of the framebuffer, read after the lock is released.
\<close>

definition vga_rows :: "nat \<times> nat \<Rightarrow> nat \<times> nat" where
  "vga_rows = (\<lambda>(s, e).
     (s * 4096 div WIDTH, (min (e * 4096) VGA_FRAMEBUFFER_SIZE + (WIDTH - 1)) div WIDTH))"

definition vga_draw :: "(nat \<Rightarrow> u8) option \<Rightarrow> u32 list \<Rightarrow> nat \<times> nat \<Rightarrow> u32 list \<Rightarrow> u32 list" where
  "vga_draw fb palette rows out =
     map (\<lambda>(i, p). if fst rows * WIDTH \<le> i \<and> i < snd rows * WIDTH
                    then (case fb of None \<Rightarrow> 0 | Some f \<Rightarrow> palette ! unat (f i)) else p)
       (enumerate 0 out)"

definition vga_render ::
    "u32 \<Rightarrow> u64 list res \<Rightarrow> ram \<Rightarrow> u32 list \<Rightarrow> nat \<Rightarrow> vga \<Rightarrow>
      (((nat \<times> nat) option \<times> u32 list \<times> nat) res \<times> vga) option" where
  "vga_render entries fetched m out seen v =
     (case apply_queued_writes entries v of
        None \<Rightarrow> None
      | Some (Inl e, v) \<Rightarrow> Some (Inl e, v)
      | Some (Inr _, v) \<Rightarrow>
          (case written_pages fetched seen v of
             (None, v) \<Rightarrow> Some (Inr (None, out, vg_frame v), v)
           | (Some pages, v) \<Rightarrow>
               (let rows = vga_rows pages;
                    fb = (if vg_ac_index v AND AC_PAS \<noteq> 0
                          then map_option (\<lambda>p i. m (fst p) (snd p + i)) (vg_framebuffer v) else None)
                in Some (Inr (Some rows, vga_draw fb (palette_rgb v) rows out, vg_frame v), v))))"

section \<open>Well-formedness\<close>

text \<open>
  The lengths of the arrays, which Rust's types fix, and the bounds that keep every index in range:
  no port access panics.
\<close>

definition vga_wf :: "vga \<Rightarrow> bool" where
  "vga_wf v \<longleftrightarrow> length (vg_seq v) = 8 \<and> length (vg_gc v) = 16 \<and> length (vg_crtc v) = 32 \<and>
     length (vg_ac v) = 32 \<and> length (vg_palette v) = 256 \<and> (\<forall>e\<in>set (vg_palette v). length e = 3) \<and>
     unat (vg_seq_index v) < 8 \<and> unat (vg_gc_index v) < 16 \<and> unat (vg_crtc_index v) < 32 \<and>
     snd (vg_dac_write v) < 3 \<and> snd (vg_dac_read v) < 3 \<and>
     length (vg_page_written v) = FRAMEBUFFER_PAGES"

lemma unat_and_mask:
  fixes b :: u8
  shows "unat (b AND 7) < 8" "unat (b AND 15) < 16" "unat (b AND 31) < 32"
proof -
  have m: "b AND mask n < 2 ^ n" if "n < 8" for n using that by (simp add: and_mask_less')
  have "b AND 7 \<le> 7" "b AND 15 \<le> 15" "b AND 31 \<le> 31" by (simp_all add: word_and_le1)
  then show "unat (b AND 7) < 8" "unat (b AND 15) < 16" "unat (b AND 31) < 32"
    by (simp_all add: word_le_nat_alt)
qed

lemma dac_next_bound: "snd p < 3 \<Longrightarrow> snd (dac_next p) < 3"
  by (auto simp: dac_next_def split: prod.splits)

lemma vga_wf_new: "vga_wf (vga_new fb l r)"
  by (simp add: vga_wf_def vga_new_def)

lemma vga_wf_palette_update:
  assumes "\<forall>e\<in>set p. length e = (n::nat)" and "i < length p"
  shows "\<forall>e\<in>set (p[i := (p ! i)[j := x]]). length e = n"
proof
  fix e assume "e \<in> set (p[i := (p ! i)[j := x]])"
  then have "e = (p ! i)[j := x] \<or> e \<in> set p" using set_update_subset_insert by fastforce
  then show "length e = n" using assms by auto
qed

lemma vga_wf_write:
  assumes "vga_wf v" shows "vga_wf (vga_write port b v)"
proof -
  obtain i c where ic: "vg_dac_write v = (i, c)" by force
  have "unat i < 256" using unsigned_less [of i] by simp
  then have "\<forall>e\<in>set ((vg_palette v)[unat i := (vg_palette v ! unat i)[c := x]]). length e = 3" for x
    using assms by (intro vga_wf_palette_update) (auto simp: vga_wf_def)
  then show ?thesis
    using assms ic dac_next_bound [of "(i, c)"]
    by (auto simp: vga_wf_def vga_write_def Let_def unat_and_mask)
qed

lemma vga_wf_read: "vga_wf v \<Longrightarrow> vga_wf (snd (vga_read ns port v))"
  by (auto simp: vga_wf_def vga_read_def dac_next_bound split: prod.splits)

lemma vga_wf_written_pages: "vga_wf v \<Longrightarrow> vga_wf (snd (written_pages f seen v))"
  by (auto simp: vga_wf_def written_pages_def Let_def length_enumerate split: option.splits)

section \<open>The palette\<close>

text \<open>The palette as 768 components in a row, and the position of an index and component in it.\<close>

definition pal_at :: "vga \<Rightarrow> nat \<Rightarrow> u8" where
  "pal_at v k = vg_palette v ! (k div 3) ! (k mod 3)"

definition dac_pos :: "u8 \<times> nat \<Rightarrow> nat" where
  "dac_pos p = 3 * unat (fst p) + snd p"

definition dac_write_bytes :: "u8 list \<Rightarrow> vga \<Rightarrow> vga" where
  "dac_write_bytes bs v = foldl (\<lambda>v b. vga_write DAC_DATA b v) v bs"

fun dac_read_bytes :: "nat \<Rightarrow> vga \<Rightarrow> u8 list" where
  "dac_read_bytes 0 v = []"
| "dac_read_bytes (Suc n) v =
     (case vga_read 0 DAC_DATA v of (b, v') \<Rightarrow> b # dac_read_bytes n v')"

lemma dac_pos_bound: "snd p < 3 \<Longrightarrow> dac_pos p < 768"
  using unat_u8_less [of "fst p"] unfolding dac_pos_def by linarith

lemma dac_pos_next:
  assumes "snd p < 3" shows "dac_pos (dac_next p) = (dac_pos p + 1) mod 768"
proof -
  obtain i c where p: "p = (i, c)" by force
  have i: "unat i < 256" by (rule unat_u8_less)
  show ?thesis
  proof (cases "c = 2")
    case True
    have "unat (i + 1) = (unat i + 1) mod 256" by (simp add: unat_word_ariths)
    then show ?thesis using p True i by (auto simp: dac_next_def dac_pos_def mod_Suc)
  next
    case False
    then have "c < 2" using p assms by simp
    then have "3 * unat i + c + 1 < 768" using i by linarith
    then show ?thesis using p False by (simp add: dac_next_def dac_pos_def)
  qed
qed

lemma div_mod_3:
  fixes c :: nat
  assumes "c < 3" shows "k = 3 * i + c \<longleftrightarrow> k div 3 = i \<and> k mod 3 = c"
proof
  assume h: "k div 3 = i \<and> k mod 3 = c"
  have "3 * (k div 3) + k mod 3 = k" by (rule mult_div_mod_eq)
  then show "k = 3 * i + c" unfolding conjunct1 [OF h] conjunct2 [OF h] by (rule sym)
qed (use assms in simp)

lemma pal_at_write:
  assumes wf: "vga_wf v" and k: "k < 768"
  shows "pal_at (vga_write DAC_DATA b v) k =
    (if k = dac_pos (vg_dac_write v) then b AND 0x3f else pal_at v k)"
proof -
  obtain i c where ic: "vg_dac_write v = (i, c)" by force
  have c: "c < 3" and l: "length (vg_palette v) = 256" using wf ic by (auto simp: vga_wf_def)
  have i: "unat i < 256" by (rule unat_u8_less)
  then have "length (vg_palette v ! unat i) = 3" using wf l by (simp add: vga_wf_def)
  moreover have "k = dac_pos (vg_dac_write v) \<longleftrightarrow> k div 3 = unat i \<and> k mod 3 = c"
    unfolding dac_pos_def ic fst_conv snd_conv by (rule div_mod_3 [OF c])
  moreover have "k div 3 < 256" "k mod 3 < 3" using k by simp_all
  moreover have "vg_palette (vga_write DAC_DATA b v) =
      (vg_palette v)[unat i := (vg_palette v ! unat i)[c := b AND 0x3f]]"
    using ic by (simp add: vga_write_def)
  moreover have "c = k mod 3 \<longleftrightarrow> k mod 3 = c" by (rule eq_commute)
  ultimately show ?thesis
    unfolding pal_at_def using l c by (cases "k div 3 = unat i"; cases "c = k mod 3")
      (simp_all only: nth_list_update if_True if_False simp_thms nth_list_update_neq)
qed

lemma dac_write_step:
  assumes "vga_wf v"
  shows "dac_pos (vg_dac_write (vga_write DAC_DATA b v)) = (dac_pos (vg_dac_write v) + 1) mod 768"
    and "vga_wf (vga_write DAC_DATA b v)"
  using assms dac_pos_next [of "vg_dac_write v"] vga_wf_write [OF assms, of DAC_DATA b]
  by (auto simp: vga_write_def vga_wf_def split: prod.splits)

lemma dac_write_bytes_snoc: "dac_write_bytes (bs @ [b]) v = vga_write DAC_DATA b (dac_write_bytes bs v)"
  by (simp add: dac_write_bytes_def)

lemma dac_write_bytes_pos:
  "vga_wf v \<Longrightarrow> vga_wf (dac_write_bytes bs v) \<and>
    dac_pos (vg_dac_write (dac_write_bytes bs v)) = (dac_pos (vg_dac_write v) + length bs) mod 768"
proof (induction bs rule: rev_induct)
  case Nil
  then show ?case using dac_pos_bound [of "vg_dac_write v"] by (simp add: dac_write_bytes_def vga_wf_def)
next
  case (snoc b bs)
  then show ?case
    using dac_write_step [of "dac_write_bytes bs v" b] by (simp add: dac_write_bytes_snoc mod_Suc_eq)
qed

lemma dac_write_bytes_at:
  assumes wf: "vga_wf v" and "length bs \<le> 768" and p: "p = dac_pos (vg_dac_write v)" and k: "k < 768"
  shows "(\<forall>j<length bs. k = (p + j) mod 768 \<longrightarrow> pal_at (dac_write_bytes bs v) k = bs ! j AND 0x3f) \<and>
    ((\<forall>j<length bs. k \<noteq> (p + j) mod 768) \<longrightarrow> pal_at (dac_write_bytes bs v) k = pal_at v k)"
  using assms(2)
proof (induction bs rule: rev_induct)
  case Nil then show ?case by (simp add: dac_write_bytes_def)
next
  case (snoc b bs)
  have l: "length bs < 768" using snoc.prems by simp
  note pos = dac_write_bytes_pos [OF wf, of bs]
  note at = pal_at_write [of "dac_write_bytes bs v" k b, folded dac_write_bytes_snoc, OF conjunct1 [OF pos] k]
  show ?case
  proof (cases "k = (p + length bs) mod 768")
    case True
    have "(p + length bs) mod 768 \<noteq> (p + j) mod 768" if "j < length bs" for j
    proof
      assume e: "(p + length bs) mod 768 = (p + j) mod 768"
      then have "768 dvd p + length bs - (p + j)"
        using that by (subst (asm) mod_eq_dvd_iff_nat) simp_all
      then show False using that l dvd_imp_le [of 768 "length bs - j"] by simp
    qed
    then show ?thesis using True at pos p by (auto simp: nth_append less_Suc_eq)
  next
    case False
    then show ?thesis using snoc.IH l at pos p by (auto simp: nth_append less_Suc_eq)
  qed
qed

lemma pal_at_read:
  assumes "vga_wf v"
  shows "vga_read ns DAC_DATA v = (pal_at v (dac_pos (vg_dac_read v)), v\<lparr>vg_dac_read := dac_next (vg_dac_read v)\<rparr>)"
  using assms by (auto simp: vga_read_def pal_at_def dac_pos_def vga_wf_def split: prod.splits)

lemma dac_read_bytes_at:
  "vga_wf v \<Longrightarrow> dac_read_bytes n v = map (\<lambda>j. pal_at v ((dac_pos (vg_dac_read v) + j) mod 768)) [0..<n]"
proof (induction n arbitrary: v)
  case (Suc n)
  let ?v = "v\<lparr>vg_dac_read := dac_next (vg_dac_read v)\<rparr>"
  have wf: "vga_wf ?v" using Suc.prems dac_next_bound by (simp add: vga_wf_def)
  have b: "snd (vg_dac_read v) < 3" using Suc.prems by (simp add: vga_wf_def)
  have "dac_read_bytes (Suc n) v = pal_at v (dac_pos (vg_dac_read v)) # dac_read_bytes n ?v"
    using pal_at_read [OF Suc.prems] by simp
  also have "dac_read_bytes n ?v = map (\<lambda>j. pal_at v ((dac_pos (vg_dac_read v) + Suc j) mod 768)) [0..<n]"
    unfolding Suc.IH [OF wf] by (simp add: pal_at_def dac_pos_next [OF b] mod_add_left_eq mod_simps)
  finally show ?case
    using dac_pos_bound [OF b] by (simp add: upt_conv_Cons map_Suc_upt [symmetric] comp_def del: upt_Suc map_Suc_upt)
qed simp

text \<open>
  Up to 768 bytes written to the DAC data port after a write of the index are what the guest
  reads back after setting the read index, six bits of each, across every wrap from entry 255 to
  entry 0; the components not written keep their value.
\<close>

theorem vga_palette_roundtrip:
  assumes "vga_wf v" and "length bs \<le> 768"
  shows "dac_read_bytes (length bs) (vga_write DAC_READ_INDEX i
            (dac_write_bytes bs (vga_write DAC_WRITE_INDEX i v))) = map (\<lambda>b. b AND 0x3f) bs
    \<and> (\<forall>k<768. (\<forall>j<length bs. k \<noteq> (3 * unat i + j) mod 768) \<longrightarrow>
          pal_at (dac_write_bytes bs (vga_write DAC_WRITE_INDEX i v)) k = pal_at v k)"
proof -
  let ?v = "vga_write DAC_WRITE_INDEX i v" and ?p = "3 * unat i"
  have p: "?p = dac_pos (vg_dac_write ?v)" by (simp add: vga_write_def dac_pos_def)
  note w = dac_write_bytes_at [OF vga_wf_write [OF assms(1)] assms(2) p]
  have wf: "vga_wf (dac_write_bytes bs ?v)"
    using dac_write_bytes_pos [OF vga_wf_write [OF assms(1)]] by blast
  let ?r = "vga_write DAC_READ_INDEX i (dac_write_bytes bs ?v)"
  have r: "vga_wf ?r" "dac_pos (vg_dac_read ?r) = ?p" "\<And>k. pal_at ?r k = pal_at (dac_write_bytes bs ?v) k"
    using vga_wf_write [OF wf] by (blast, simp_all add: vga_write_def dac_pos_def pal_at_def)
  have "pal_at (dac_write_bytes bs ?v) ((?p + j) mod 768) = bs ! j AND 0x3f" if "j < length bs" for j
    using w [of "(?p + j) mod 768"] that by simp
  then have "map (\<lambda>j. pal_at ?r ((?p + j) mod 768)) [0..<length bs] = map (\<lambda>b. b AND 0x3f) bs"
    by (intro nth_equalityI) (simp_all add: r(3))
  moreover have "pal_at ?v k = pal_at v k" for k by (simp add: vga_write_def pal_at_def)
  ultimately show ?thesis using dac_read_bytes_at [OF r(1)] r(2) w by simp
qed

theorem vga_palette_roundtrip_witness:
  "\<exists>v. vga_wf v \<and> dac_read_bytes 4 (vga_write DAC_READ_INDEX 255
      (dac_write_bytes [0x3f, 0, 0x20, 0x41] (vga_write DAC_WRITE_INDEX 255 v))) = [0x3f, 0, 0x20, 0x01]"
proof (intro exI conjI)
  have l: "length [0x3f, 0, 0x20, 0x41 :: u8] = 4" by simp
  show "dac_read_bytes 4 (vga_write DAC_READ_INDEX 255 (dac_write_bytes [0x3f, 0, 0x20, 0x41]
      (vga_write DAC_WRITE_INDEX 255 (vga_new None False None)))) = [0x3f, 0, 0x20, 0x01]"
    using conjunct1 [OF vga_palette_roundtrip [OF vga_wf_new, of "[0x3f, 0, 0x20, 0x41]" 255 None False None]]
    unfolding l by simp
qed (rule vga_wf_new)

section \<open>Which pages a frame sends\<close>

lemma first_index_Some_iff:
  "first_index P xs = Some i \<longleftrightarrow> i < length xs \<and> P (xs ! i) \<and> (\<forall>j<i. \<not> P (xs ! j))"
proof (induction xs arbitrary: i)
  case (Cons x xs)
  show ?case by (cases i) (auto simp: Cons.IH All_less_Suc2)
qed simp

lemma first_index_None_iff: "first_index P xs = None \<longleftrightarrow> (\<forall>x\<in>set xs. \<not> P x)"
  by (induction xs) auto

lemma last_index_Some_iff:
  "last_index P xs = Some i \<longleftrightarrow> i < length xs \<and> P (xs ! i) \<and> (\<forall>j<length xs. i < j \<longrightarrow> \<not> P (xs ! j))"
proof
  assume "last_index P xs = Some i"
  then obtain k where k: "first_index P (rev xs) = Some k" "i = length xs - 1 - k"
    by (auto simp: last_index_def)
  then have k': "k < length xs" "P (rev xs ! k)" "\<forall>j<k. \<not> P (rev xs ! j)"
    by (auto simp: first_index_Some_iff)
  have "\<not> P (xs ! j)" if j: "j < length xs" "i < j" for j
  proof -
    have "length xs - 1 - j < k" using j k(2) k'(1) by simp
    then have "\<not> P (rev xs ! (length xs - 1 - j))" using k'(3) by blast
    then show ?thesis using j by (simp add: rev_nth)
  qed
  then show "i < length xs \<and> P (xs ! i) \<and> (\<forall>j<length xs. i < j \<longrightarrow> \<not> P (xs ! j))"
    using k k' by (auto simp: rev_nth)
next
  assume r: "i < length xs \<and> P (xs ! i) \<and> (\<forall>j<length xs. i < j \<longrightarrow> \<not> P (xs ! j))"
  then have "first_index P (rev xs) = Some (length xs - 1 - i)"
    unfolding first_index_Some_iff by (auto simp: rev_nth)
  then show "last_index P xs = Some i" using r by (simp add: last_index_def)
qed

text \<open>The pages a frame counts as written.\<close>

definition frame_dirty :: "u64 list res \<Rightarrow> vga \<Rightarrow> nat set" where
  "frame_dirty fetched v = {p. p < FRAMEBUFFER_PAGES \<and> (vg_repaint v \<or> page_bit (vga_bitmap fetched v) p)}"

text \<open>
  The adapters that register accesses and frames reach from a new one; \<open>h\<close> lists the pages written
  in each frame so far, oldest first.
\<close>

inductive vga_reach :: "nat set list \<Rightarrow> vga \<Rightarrow> bool" where
  new: "vga_reach [] (vga_new fb log ring)"
| wr: "vga_reach h v \<Longrightarrow> vga_reach h (vga_write port b v)"
| rd: "vga_reach h v \<Longrightarrow> vga_reach h (snd (vga_read ns port v))"
| frame: "vga_reach h v \<Longrightarrow> vga_reach (h @ [frame_dirty fetched v]) (snd (written_pages fetched seen v))"

text \<open>The pages written in a frame after \<open>seen\<close>; with 0, all.\<close>

definition changed_since :: "nat \<Rightarrow> nat set list \<Rightarrow> nat set" where
  "changed_since seen h = (if seen = 0 then {..<FRAMEBUFFER_PAGES} else \<Union> (set (drop seen h)))"

text \<open>\<open>page_written\<close> holds the last frame in which each page was written.\<close>

definition frame_inv :: "nat set list \<Rightarrow> vga \<Rightarrow> bool" where
  "frame_inv h v \<longleftrightarrow> vga_wf v \<and> vg_frame v = length h \<and>
     (\<forall>p<FRAMEBUFFER_PAGES. \<forall>seen. seen < vg_page_written v ! p \<longleftrightarrow> p \<in> \<Union> (set (drop seen h)))"

lemma vga_write_keeps [simp]:
  "vg_frame (vga_write port b v) = vg_frame v" "vg_page_written (vga_write port b v) = vg_page_written v"
  by (simp_all add: vga_write_def Let_def split: prod.splits)

lemma vga_read_keeps [simp]:
  "vg_frame (snd (vga_read ns port v)) = vg_frame v"
  "vg_page_written (snd (vga_read ns port v)) = vg_page_written v"
  by (simp_all add: vga_read_def split: prod.splits)

lemma written_pages_state:
  assumes "vga_wf v"
  shows "vg_frame (snd (written_pages f seen v)) = vg_frame v + 1"
    and "p < FRAMEBUFFER_PAGES \<Longrightarrow> vg_page_written (snd (written_pages f seen v)) ! p =
      (if p \<in> frame_dirty f v then vg_frame v + 1 else vg_page_written v ! p)"
  using assms
  by (auto simp: written_pages_def Let_def frame_dirty_def vga_wf_def length_enumerate nth_enumerate_eq
      vga_bitmap_def split: option.splits)

lemma frame_inv_frame:
  assumes inv: "frame_inv h v"
  shows "frame_inv (h @ [frame_dirty f v]) (snd (written_pages f seen v))"
proof -
  have wf: "vga_wf v" and fr: "vg_frame v = length h" using inv by (simp_all add: frame_inv_def)
  have "s < vg_page_written (snd (written_pages f seen v)) ! p \<longleftrightarrow> p \<in> \<Union> (set (drop s (h @ [frame_dirty f v])))"
    if p: "p < FRAMEBUFFER_PAGES" for p s
  proof -
    have "s < vg_page_written v ! p \<longleftrightarrow> p \<in> \<Union> (set (drop s h))" using inv p by (auto simp: frame_inv_def)
    then show ?thesis using written_pages_state(2) [OF wf p] fr
      by (cases "s \<le> length h") (auto simp: set_drop_subset)
  qed
  then show ?thesis
    using vga_wf_written_pages [OF wf] written_pages_state(1) [OF wf] fr unfolding frame_inv_def by simp
qed

lemma frame_inv_reach: "vga_reach h v \<Longrightarrow> frame_inv h v"
proof (induction rule: vga_reach.induct)
  case (new fb log ring)
  have "vg_page_written (vga_new fb log ring) ! p = 0" if "p < FRAMEBUFFER_PAGES" for p
    using that by (simp add: vga_new_def)
  then show ?case using vga_wf_new by (simp add: frame_inv_def) (simp add: vga_new_def)
next
  case (frame h v fetched seen) show ?case by (rule frame_inv_frame [OF frame.IH])
qed (auto simp: frame_inv_def vga_wf_write vga_wf_read)

lemma Min_Max_index:
  assumes C: "C = {i. i < length xs \<and> P (xs ! i)}"
  shows "first_index P xs = (if C = {} then None else Some (Min C))"
    and "last_index P xs = (if C = {} then None else Some (Max C))"
proof -
  have fin: "finite C" using C by simp
  have iff: "i \<in> C \<longleftrightarrow> i < length xs \<and> P (xs ! i)" for i using C by simp
  have none: "C = {} \<longleftrightarrow> first_index P xs = None"
    unfolding first_index_None_iff C by (auto simp: in_set_conv_nth Ball_def)
  have mem: "C \<noteq> {} \<Longrightarrow> Min C \<in> C \<and> Max C \<in> C" using fin by simp
  have "first_index P xs = Some (Min C)" if "C \<noteq> {}"
  proof -
    have m: "Min C \<in> C" using mem that by blast
    have "\<not> P (xs ! j)" if "j < Min C" for j
    proof
      assume "P (xs ! j)"
      then have "j \<in> C" using that m iff by simp
      then show False using Min_le [OF fin, of j] that by simp
    qed
    then show ?thesis using m unfolding first_index_Some_iff iff by blast
  qed
  then show "first_index P xs = (if C = {} then None else Some (Min C))" using none by auto
  have "last_index P xs = Some (Max C)" if "C \<noteq> {}"
  proof -
    have m: "Max C \<in> C" using mem that by blast
    have "\<not> P (xs ! j)" if "j < length xs" "Max C < j" for j
    proof
      assume "P (xs ! j)"
      then have "j \<in> C" using that iff by simp
      then show False using Max_ge [OF fin, of j] that by simp
    qed
    then show ?thesis using m unfolding last_index_Some_iff iff by blast
  qed
  moreover have "C = {} \<Longrightarrow> last_index P xs = None"
    unfolding last_index_def using first_index_None_iff [of P "rev xs"] C by (auto simp: in_set_conv_nth)
  ultimately show "last_index P xs = (if C = {} then None else Some (Max C))" by auto
qed

lemma vga_frame_changes:
  assumes "vga_reach h v"
  shows "fst (written_pages fetched seen v) =
      (let c = changed_since seen (h @ [frame_dirty fetched v])
       in if c = {} then None else Some (Min c, Max c + 1))
    \<and> vg_frame (snd (written_pages fetched seen v)) = length h + 1"
proof -
  let ?h = "h @ [frame_dirty fetched v]" and ?v = "snd (written_pages fetched seen v)"
  let ?P = "\<lambda>w. seen = 0 \<or> seen < w" and ?W = "vg_page_written (snd (written_pages fetched seen v))"
  have inv: "frame_inv ?h ?v" by (rule frame_inv_frame [OF frame_inv_reach [OF assms]])
  have "\<Union> (set ?h) \<subseteq> {..<FRAMEBUFFER_PAGES}"
    using assms by (induction rule: vga_reach.induct) (auto simp: frame_dirty_def)
  then have sub: "\<Union> (set (drop seen ?h)) \<subseteq> {..<FRAMEBUFFER_PAGES}" using set_drop_subset [of seen ?h] by blast
  have at: "seen < ?W ! p \<longleftrightarrow> p \<in> \<Union> (set (drop seen ?h))" if "p < FRAMEBUFFER_PAGES" for p
    using inv that unfolding frame_inv_def by blast
  have len: "length ?W = FRAMEBUFFER_PAGES" using inv unfolding frame_inv_def vga_wf_def by blast
  have "changed_since seen ?h = {i. i < length ?W \<and> ?P (?W ! i)}"
  proof (cases "seen = 0")
    case True show ?thesis unfolding changed_since_def len by (simp add: True lessThan_def)
  next
    case False
    then show ?thesis using at sub unfolding changed_since_def len by (auto simp del: drop_append)
  qed
  note mm = Min_Max_index [OF this]
  have "fst (written_pages fetched seen v) =
      (case first_index ?P ?W of None \<Rightarrow> None | Some a \<Rightarrow> map_option (\<lambda>b. (a, b + 1)) (last_index ?P ?W))"
    by (simp add: written_pages_def Let_def split: option.splits)
  moreover have "vg_frame ?v = length ?h" using inv unfolding frame_inv_def by blast
  ultimately show ?thesis unfolding mm Let_def by simp
qed

text \<open>
  A frame loses no update: whatever register accesses and frames of other clients came before,
  it sends a client exactly the range from the first to the last page written (or repainted) in a
  frame after the last one that client has seen, all pages to a new client, and none when nothing
  changed.
\<close>

theorem vga_frame_sends_changes:
  assumes "vga_reach h v"
  shows "fst (written_pages fetched seen v) =
      (let c = changed_since seen (h @ [frame_dirty fetched v])
       in if c = {} then None else Some (Min c, Max c + 1))
    \<and> vg_frame (snd (written_pages fetched seen v)) = length h + 1"
  by (rule vga_frame_changes [OF assms])

text \<open>A client one frame behind is sent the page written since, a new client everything.\<close>

lemma page_bits_demo:
  "p < 16 \<Longrightarrow> page_bit [8] p \<longleftrightarrow> p = 3" "p < 16 \<Longrightarrow> page_bit [0x20] p \<longleftrightarrow> p = 5"
proof -
  have "list_all (\<lambda>p. page_bit [8] p \<longleftrightarrow> p = 3) [0..<16]" "list_all (\<lambda>p. page_bit [0x20] p \<longleftrightarrow> p = 5) [0..<16]"
    by code_simp+
  then show "p < 16 \<Longrightarrow> page_bit [8] p \<longleftrightarrow> p = 3" "p < 16 \<Longrightarrow> page_bit [0x20] p \<longleftrightarrow> p = 5"
    by (auto simp: list_all_iff simp del: upt_Suc)
qed

theorem vga_frame_sends_changes_witness:
  "\<exists>v. vga_reach [{3}] v \<and> fst (written_pages (Inr [0x20]) 1 v) = Some (5, 6)"
proof (intro exI conjI)
  let ?v = "vga_new (Some (0, 0)) True None" and ?w = "snd (written_pages (Inr [8]) 0 (vga_new (Some (0, 0)) True None))"
  have d: "frame_dirty (Inr [8]) ?v = {3}"
    using page_bits_demo(1) by (auto simp: frame_dirty_def vga_new_def vga_bitmap_def)
  show r: "vga_reach [{3}] ?w"
    using vga_reach.frame [OF vga_reach.new [of "Some (0, 0)" True None], of "Inr [8]" 0] d by simp
  have "frame_dirty (Inr [0x20]) ?w = {5}"
    using page_bits_demo(2)
    by (auto simp: frame_dirty_def vga_new_def vga_bitmap_def written_pages_def Let_def split: option.splits)
  then show "fst (written_pages (Inr [0x20]) 1 ?w) = Some (5, 6)"
    using conjunct1 [OF vga_frame_sends_changes [OF r, of "Inr [0x20]" 1]] by (simp add: changed_since_def)
qed

section \<open>Queued writes are writes\<close>

lemma vga_write_ring [simp]: "vg_dac_writes (vga_write port b v) = vg_dac_writes v"
  by (simp add: vga_write_def Let_def split: prod.splits)

lemma vga_write_set_ring:
  "vga_write port b (v\<lparr>vg_dac_writes := r\<rparr>) = (vga_write port b v)\<lparr>vg_dac_writes := r\<rparr>"
  by (simp add: vga_write_def Let_def split: prod.splits)

lemma vga_write_bytes_set_ring:
  "vga_write_bytes port bs (v\<lparr>vg_dac_writes := r\<rparr>) = (vga_write_bytes port bs v)\<lparr>vg_dac_writes := r\<rparr>"
  by (induction port bs v rule: vga_write_bytes.induct) (simp_all add: vga_write_set_ring)

definition apply_entry :: "ring_entry \<Rightarrow> vga \<Rightarrow> vga" where
  "apply_entry e = vga_write_bytes (ucast (re_phys_addr e)) (entry_bytes e)"

lemma apply_queued_writes_some:
  assumes "vg_dac_writes v = Some ring" and "ring_wf entries ring"
  shows "apply_queued_writes entries v =
    Some (Inr (), (foldl (\<lambda>t e. apply_entry e t) v (ring_queued entries ring))
      \<lparr>vg_dac_writes := Some (ring\<lparr>cr_first := cr_last ring\<rparr>)\<rparr>)"
proof -
  let ?w = "\<lambda>addr bs. vga_write_bytes (ucast addr) bs"
  have f: "foldl (\<lambda>t e. ?w (re_phys_addr e) (entry_bytes e) t) (v\<lparr>vg_dac_writes := None\<rparr>) es =
      (foldl (\<lambda>t e. apply_entry e t) v es)\<lparr>vg_dac_writes := None\<rparr>" for es
    by (induction es arbitrary: v) (simp_all add: vga_write_bytes_set_ring apply_entry_def)
  have "ring_drain entries ?w (ring, v\<lparr>vg_dac_writes := None\<rparr>) =
      Some (Inr (), ring\<lparr>cr_first := cr_last ring\<rparr>,
        foldl (\<lambda>t e. ?w (re_phys_addr e) (entry_bytes e) t) (v\<lparr>vg_dac_writes := None\<rparr>) (ring_queued entries ring))"
    using assms(2) drain_loop_queued [of entries ring "cr_first ring" "cr_last ring" ?w]
    by (simp add: ring_drain_def ring_wf_def ring_queued_def)
  then show ?thesis using assms(1) unfolding apply_queued_writes_def f by simp
qed

text \<open>An exit of the guest that writes a byte to a port.\<close>

definition out_exit :: "u16 \<Rightarrow> nat \<Rightarrow> io_exit" where
  "out_exit port n = \<lparr>io_direction = KVM_EXIT_IO_OUT, io_size = n, io_port = port, io_count = 1\<rparr>"

declare vga_accesses.simps [simp del]

lemma vga_access_out: "snd (vga_access KVM_EXIT_IO_OUT port clk k bs v) = vga_write_bytes port bs v"
  by (induction bs arbitrary: port k v) (simp_all add: case_prod_beta)

lemma ring_queued_drained [simp]: "ring_queued entries (ring\<lparr>cr_first := cr_last ring\<rparr>) = []"
  by (simp add: ring_queued_def ring_count_def)

text \<open>An exit handled with nothing queued.\<close>

definition vga_direct :: "(nat \<Rightarrow> nat) \<Rightarrow> io_exit \<Rightarrow> u8 list \<Rightarrow> vga \<Rightarrow> u8 list \<times> vga" where
  "vga_direct clk io data v = vga_accesses (io_direction io) (io_port io) (io_size io) clk 0 data v"

lemma vga_direct_out:
  assumes "bs \<noteq> []"
  shows "snd (vga_direct clk (out_exit port (length bs)) bs v) = vga_write_bytes port bs v"
  using assms vga_access_out [of port clk 0 bs v]
  by (subst vga_direct_def, subst vga_accesses.simps)
    (simp add: out_exit_def vga_accesses.simps [of _ _ _ _ _ "[]"] case_prod_beta)

lemma apply_queued_once:
  assumes "apply_queued_writes entries v = Some (Inr (), v')" and "apply_queued_writes entries v' = Some (Inr (), v')"
    and "io_size io \<noteq> 0"
  shows "vga_handle entries clk io (data, v) = Some (Inr (), vga_direct clk io data v')"
    and "vga_render entries fetched m out seen v = vga_render entries fetched m out seen v'"
  using assms by (simp_all add: vga_handle_def vga_render_def vga_direct_def case_prod_beta)

text \<open>
  C17. Queueing is transparent: an exit or a frame that finds writes queued in the ring behaves as if
  each of them had exited and been handled, in order, before it; nothing stays queued. Draining
  cannot fail.
\<close>

theorem vga_queue_transparent:
  assumes "vg_dac_writes v = Some ring" and "ring_wf entries ring" and "io_wf io data"
    and "\<forall>e\<in>set (ring_queued entries ring). entry_bytes e \<noteq> []"
  shows "\<exists>ring'. let v' = foldl (\<lambda>t e. snd (vga_direct clk (out_exit (ucast (re_phys_addr e)) (length (entry_bytes e)))
                    (entry_bytes e) t)) v (ring_queued entries ring)\<lparr>vg_dac_writes := Some ring'\<rparr>
    in vga_handle entries clk io (data, v) = Some (Inr (), vga_direct clk io data v')
     \<and> vga_render entries fetched m out seen v = vga_render entries fetched m out seen v'
     \<and> ring_queued entries ring' = []"
proof (intro exI)
  let ?ring' = "ring\<lparr>cr_first := cr_last ring\<rparr>"
  let ?d = "\<lambda>t e. snd (vga_direct clk (out_exit (ucast (re_phys_addr e)) (length (entry_bytes e))) (entry_bytes e) t)"
  let ?v = "foldl ?d v (ring_queued entries ring)\<lparr>vg_dac_writes := Some ?ring'\<rparr>"
  have "foldl ?d v es = foldl (\<lambda>t e. apply_entry e t) v es" if "\<forall>e\<in>set es. entry_bytes e \<noteq> []" for es
    using that by (induction es arbitrary: v) (simp_all add: vga_direct_out apply_entry_def)
  from this [OF assms(4)] have f: "foldl (\<lambda>t e. apply_entry e t) v (ring_queued entries ring) = foldl ?d v (ring_queued entries ring)"
    by (rule sym)
  have a: "apply_queued_writes entries v = Some (Inr (), ?v)"
    using apply_queued_writes_some [OF assms(1,2)] unfolding f .
  have b: "apply_queued_writes entries ?v = Some (Inr (), ?v)"
    using apply_queued_writes_some [of ?v ?ring' entries] assms(2) by (simp add: ring_wf_def)
  have "io_size io \<noteq> 0" using assms(3) by (auto simp: io_wf_def)
  from a b this have "vga_handle entries clk io (data, v) = Some (Inr (), vga_direct clk io data ?v)"
      "vga_render entries fetched m out seen v = vga_render entries fetched m out seen ?v"
    by (rule apply_queued_once)+
  then show "let v' = ?v in vga_handle entries clk io (data, v) = Some (Inr (), vga_direct clk io data v')
     \<and> vga_render entries fetched m out seen v = vga_render entries fetched m out seen v'
     \<and> ring_queued entries ?ring' = []"
    unfolding Let_def using ring_queued_drained by blast
qed

text \<open>Index 7 and a component are queued; the guest then reads the palette.\<close>

theorem vga_queue_transparent_witness:
  "\<exists>v v' clk. vg_dac_writes v = Some \<lparr>cr_first = 0, cr_last = 1, cr_entries =
        replicate 2 \<lparr>re_phys_addr = 0x3c8, re_len = 2, re_data = [7, 0x21]\<rparr>\<rparr>
     \<and> vga_handle 2 clk \<lparr>io_direction = KVM_EXIT_IO_IN, io_size = 1, io_port = 0x3c8, io_count = 1\<rparr> ([0], v)
       = Some (Inr (), [7], v') \<and> vg_palette v' ! 7 = [0x21, 0, 0]"
proof -
  let ?e = "\<lparr>re_phys_addr = 0x3c8, re_len = 2, re_data = [7, 0x21]\<rparr>"
  let ?r = "\<lparr>cr_first = 0, cr_last = 1, cr_entries = replicate 2 ?e\<rparr>"
  let ?v = "vga_new None False (Some ?r)" and ?clk = "\<lambda>_ :: nat. 0 :: nat"
  let ?io = "\<lparr>io_direction = KVM_EXIT_IO_IN, io_size = 1, io_port = 0x3c8, io_count = 1\<rparr>"
  have q: "ring_queued 2 ?r = [?e]" by (simp add: ring_queued_def ring_count_def)
  have e: "entry_bytes ?e = [7, 0x21]" by (simp add: entry_bytes_def)
  have pre: "vg_dac_writes ?v = Some ?r" "ring_wf 2 ?r" "io_wf ?io [0]"
      "\<forall>e\<in>set (ring_queued 2 ?r). entry_bytes e \<noteq> []"
    unfolding q by (simp_all add: vga_new_def ring_wf_def io_wf_def e)
  have u: "ucast (re_phys_addr ?e) = (0x3c8 :: u16)" and l: "length [7, 0x21 :: u8] = 2" by simp_all
  obtain ring' where "vga_handle 2 ?clk ?io ([0], ?v) = Some (Inr (), vga_direct ?clk ?io [0]
      (snd (vga_direct ?clk (out_exit (ucast (re_phys_addr ?e)) (length (entry_bytes ?e))) (entry_bytes ?e) ?v)
        \<lparr>vg_dac_writes := Some ring'\<rparr>))"
    using vga_queue_transparent [OF pre, of ?clk] unfolding q Let_def foldl.simps by blast
  then have h: "vga_handle 2 ?clk ?io ([0], ?v) = Some (Inr (), vga_direct ?clk ?io [0]
      (snd (vga_direct ?clk (out_exit 0x3c8 2) [7, 0x21] ?v)\<lparr>vg_dac_writes := Some ring'\<rparr>))"
    unfolding e u l .
  have "snd (vga_direct ?clk (out_exit 0x3c8 2) [7, 0x21] ?v) = vga_write_bytes 0x3c8 [7, 0x21] ?v"
    using vga_direct_out [of "[7, 0x21]" ?clk "0x3c8" ?v, OF list.distinct(2)] unfolding l .
  moreover have r3: "replicate 3 x = [x, x, x]" for x :: u8 by (simp add: numeral_3_eq_3)
  let ?w = "vga_write_bytes 0x3c8 [7, 0x21] ?v\<lparr>vg_dac_writes := Some ring'\<rparr>"
  have "vga_direct ?clk ?io [0] ?w = ([7], ?w)" "vg_palette ?w ! 7 = [0x21, 0, 0]"
    by (simp_all add: vga_direct_def vga_accesses.simps vga_read_def vga_write_def vga_new_def dac_next_def r3)
  ultimately show ?thesis using h pre(1) by metis
qed

section \<open>Retrace\<close>

definition beam_dot :: "nat \<Rightarrow> nat" where
  "beam_dot ns = ns * DOT_CLOCK_KHZ div 1000000"

lemma vga_input_status_dot:
  assumes "beam_dot ns mod 359200 = 800 * line + column" and "column < 800"
  shows "vga_input_status ns = (if 400 \<le> line \<or> 640 \<le> column then INSTAT_DD else 0)
      OR (if vga_vsync_line line then INSTAT_VR else 0)"
proof -
  have "(800 * line + column) div 800 = line" "(800 * line + column) mod 800 = column"
    using assms(2) by simp_all
  then show ?thesis
    using assms(1) unfolding vga_input_status_def beam_dot_def Let_def by simp
qed

text \<open>When the beam first gets to a dot, and how far it is some time later.\<close>

definition dot_time :: "nat \<Rightarrow> nat" where
  "dot_time d = (d * 1000000 + 25174) div 25175"

lemma beam_dot_time: "beam_dot (dot_time d + k) - d \<le> (k * 25175 + 25174) div 1000000 \<and> d \<le> beam_dot (dot_time d + k)"
proof -
  have b: "d * 1000000 \<le> dot_time d * 25175" "dot_time d * 25175 \<le> d * 1000000 + 25174"
    unfolding dot_time_def by linarith+
  have "d * 1000000 div 1000000 \<le> (dot_time d + k) * 25175 div 1000000"
    using b(1) by (intro div_le_mono) (simp add: algebra_simps)
  moreover have "(dot_time d + k) * 25175 div 1000000 \<le> (d * 1000000 + (k * 25175 + 25174)) div 1000000"
    using b(2) by (intro div_le_mono) (simp add: algebra_simps)
  moreover have "(d * 1000000 + (k * 25175 + 25174)) div 1000000 = d + (k * 25175 + 25174) div 1000000"
    by (subst add.commute, subst div_mult_self1) simp_all
  ultimately show ?thesis unfolding beam_dot_def by simp
qed

lemma beam_dot_after:
  assumes "dot_time d \<le> t" "t \<le> dot_time d + k"
  obtains e where "beam_dot t = d + e" "e \<le> (k * 25175 + 25174) div 1000000"
proof
  have t: "dot_time d + (t - dot_time d) = t" using assms(1) by simp
  have "((t - dot_time d) * 25175 + 25174) div 1000000 \<le> (k * 25175 + 25174) div 1000000"
    using assms(2) by (intro div_le_mono) simp
  then show "beam_dot t - d \<le> (k * 25175 + 25174) div 1000000"
    using beam_dot_time [of d "t - dot_time d"] unfolding t by linarith
  show "beam_dot t = d + (beam_dot t - d)" using beam_dot_time [of d "t - dot_time d"] unfolding t by simp
qed

text \<open>The next time after \<open>ns\<close> that the beam gets to a dot of the frame.\<close>

lemma next_dot:
  assumes "target < 359200"
  obtains d where "d mod 359200 = target" "ns \<le> dot_time d" "dot_time d \<le> ns + 14268124"
proof -
  let ?n = "beam_dot ns"
  obtain d where d: "d mod 359200 = target" "?n < d" "d \<le> ?n + 359200"
  proof -
    let ?q = "?n div 359200"
    have "?n = 359200 * ?q + ?n mod 359200" "?n mod 359200 < 359200" by simp_all
    then show thesis
    proof (cases "?n mod 359200 < target")
      case True
      have "?n < 359200 * ?q + target" "359200 * ?q + target \<le> ?n + 359200"
        using True \<open>?n = _\<close> assms by linarith+
      then show thesis using that [of "359200 * ?q + target"] assms by simp
    next
      case False
      have "?n < 359200 * Suc ?q + target" "359200 * Suc ?q + target \<le> ?n + 359200"
        using False \<open>?n = _\<close> \<open>?n mod 359200 < 359200\<close> unfolding mult_Suc_right by linarith+
      moreover have "(359200 * Suc ?q + target) mod 359200 = target"
        using assms by (simp only: mod_mult_self4 mod_less)
      ultimately show thesis by (intro that)
    qed
  qed
  have lo: "?n * 1000000 \<le> ns * 25175" and hi: "ns * 25175 < ?n * 1000000 + 1000000"
    unfolding beam_dot_def by linarith+
  have "d * 1000000 \<le> dot_time d * 25175" "dot_time d * 25175 \<le> d * 1000000 + 25174"
    unfolding dot_time_def by linarith+
  then have "ns \<le> dot_time d" "dot_time d \<le> ns + 14268124" using d(2,3) lo hi by linarith+
  then show thesis using that d(1) by blast
qed

text \<open>
  C36. A guest that waits for retrace sees it: whenever it starts to poll, within one frame of
  14.27 ms the retrace bit is set, with the display disabled, for at least 63 microseconds on end,
  and within the same bound both bits are clear for at least 25 microseconds on end.
\<close>

theorem vga_retrace_visible:
  "(\<exists>t\<le>ns + 14268124. ns \<le> t \<and> {t..t + 63000} \<subseteq> {t. vga_input_status t = INSTAT_DD OR INSTAT_VR}) \<and>
   (\<exists>t\<le>ns + 14268124. ns \<le> t \<and> {t..t + 25000} \<subseteq> {t. vga_input_status t = 0})"
proof -
  obtain d where d: "d mod 359200 = 329600" "ns \<le> dot_time d" "dot_time d \<le> ns + 14268124"
    by (rule next_dot [of 329600 ns]) simp_all
  have "vga_input_status t = INSTAT_DD OR INSTAT_VR" if t: "dot_time d \<le> t" "t \<le> dot_time d + 63000" for t
  proof -
    obtain e where e: "beam_dot t = d + e" "e < 1600"
      by (rule beam_dot_after [OF t]) simp
    have "beam_dot t mod 359200 = (d mod 359200 + e) mod 359200" unfolding e(1) by (simp add: mod_add_left_eq)
    then have m: "beam_dot t mod 359200 = 329600 + e" using d(1) e(2) by simp
    show ?thesis
    proof (cases "e < 800")
      case True
      then show ?thesis using vga_input_status_dot [of t 412 e] m by (simp add: vga_vsync_line_def)
    next
      case False
      then show ?thesis using vga_input_status_dot [of t 413 "e - 800"] m e(2) by (simp add: vga_vsync_line_def)
    qed
  qed
  moreover obtain d' where d': "d' mod 359200 = 0" "ns \<le> dot_time d'" "dot_time d' \<le> ns + 14268124"
    by (rule next_dot [of 0 ns]) simp_all
  moreover have "vga_input_status t = 0" if t: "dot_time d' \<le> t" "t \<le> dot_time d' + 25000" for t
  proof -
    obtain e where e: "beam_dot t = d' + e" "e < 640"
      by (rule beam_dot_after [OF t]) simp
    have "beam_dot t mod 359200 = (d' mod 359200 + e) mod 359200" unfolding e(1) by (simp add: mod_add_left_eq)
    then show ?thesis using vga_input_status_dot [of t 0 e] d'(1) e(2) by (simp add: vga_vsync_line_def)
  qed
  ultimately show ?thesis using d by (intro conjI exI [of _ "dot_time d"] exI [of _ "dot_time d'"]) auto
qed

section \<open>What a client shows\<close>

text \<open>The picture: each pixel looked up in the palette, black while the display is off.\<close>

definition vga_pixel :: "ram \<Rightarrow> vga \<Rightarrow> nat \<Rightarrow> u32" where
  "vga_pixel m v i =
     (case vg_framebuffer v of
        Some p \<Rightarrow> if vg_ac_index v AND AC_PAS \<noteq> 0 then palette_rgb v ! unat (m (fst p) (snd p + i)) else 0
      | None \<Rightarrow> 0)"

lemma written_pages_keeps:
  "vg_palette (snd (written_pages f s v)) = vg_palette v"
  "vg_framebuffer (snd (written_pages f s v)) = vg_framebuffer v"
  "vg_ac_index (snd (written_pages f s v)) = vg_ac_index v"
  by (simp_all add: written_pages_def Let_def split: option.splits)

lemma vga_rows_cover:
  assumes "s \<le> i div 4096" "i div 4096 < e" "i < 64000"
  shows "fst (vga_rows (s, e)) * 320 \<le> i" "i < snd (vga_rows (s, e)) * 320"
proof -
  have "s * 4096 \<le> i" "i < e * 4096" using assms(1,2) by linarith+
  moreover have "s * 4096 div 320 * 320 \<le> s * 4096" by simp
  ultimately show "fst (vga_rows (s, e)) * 320 \<le> i" by (simp add: vga_rows_def)
  have "min (e * 4096) 64000 \<le> (min (e * 4096) 64000 + 319) div 320 * 320" by linarith
  then show "i < snd (vga_rows (s, e)) * 320"
    using \<open>i < e * 4096\<close> assms(3) by (simp add: vga_rows_def)
qed

lemma vga_draw_nth:
  "i < length out \<Longrightarrow> vga_draw fb pal rows out ! i =
    (if fst rows * WIDTH \<le> i \<and> i < snd rows * WIDTH
     then (case fb of None \<Rightarrow> 0 | Some f \<Rightarrow> pal ! unat (f i)) else out ! i)"
  "length (vga_draw fb pal rows out) = length out"
  by (simp_all add: vga_draw_def nth_enumerate_eq length_enumerate)

lemma changed_since_bounds:
  assumes "vga_reach h v" and "p \<in> changed_since seen (h @ [frame_dirty f v])"
  shows "p < FRAMEBUFFER_PAGES" "finite (changed_since seen (h @ [frame_dirty f v]))"
proof -
  have "\<Union> (set (h @ [frame_dirty f v])) \<subseteq> {..<FRAMEBUFFER_PAGES}"
    using assms(1) by (induction rule: vga_reach.induct) (auto simp: frame_dirty_def)
  then have "\<Union> (set (drop seen (h @ [frame_dirty f v]))) \<subseteq> {..<FRAMEBUFFER_PAGES}"
    using set_drop_subset [of seen "h @ [frame_dirty f v]"] by blast
  then have s: "changed_since seen (h @ [frame_dirty f v]) \<subseteq> {..<FRAMEBUFFER_PAGES}"
    unfolding changed_since_def by (auto split: if_splits)
  then show "p < FRAMEBUFFER_PAGES" using assms(2) by blast
  show "finite (changed_since seen (h @ [frame_dirty f v]))" using s finite_subset by blast
qed

text \<open>
  C16. A client never shows stale pixels: if its picture is right wherever no page was written and
  nothing repainted since the frame it has seen (nothing at all for a new client), then after a
  render every pixel is what the framebuffer, the palette and the display-on bit now say, whether
  or not rows were sent, and the client has seen the new frame.
\<close>

theorem vga_render_up_to_date:
  assumes "vga_reach h v" and "apply_queued_writes entries v = Some (Inr (), v)" and "length out = VGA_FRAMEBUFFER_SIZE"
    and "\<forall>i<VGA_FRAMEBUFFER_SIZE. i div 4096 \<notin> changed_since seen (h @ [frame_dirty fetched v])
            \<longrightarrow> out ! i = vga_pixel m v i"
  shows "\<exists>rows out' v'. vga_render entries fetched m out seen v = Some (Inr (rows, out', length h + 1), v')
      \<and> length out' = VGA_FRAMEBUFFER_SIZE \<and> (\<forall>i<VGA_FRAMEBUFFER_SIZE. out' ! i = vga_pixel m v' i)"
proof -
  let ?c = "changed_since seen (h @ [frame_dirty fetched v])"
  obtain v' where w: "written_pages fetched seen v = (if ?c = {} then None else Some (Min ?c, Max ?c + 1), v')"
      and v': "v' = snd (written_pages fetched seen v)"
    using vga_frame_changes [OF assms(1), of fetched seen] by (simp add: Let_def prod_eq_iff)
  have fr: "vg_frame v' = length h + 1"
    using vga_frame_changes [OF assms(1), of fetched seen] v' by simp
  have px: "vga_pixel m v' i = vga_pixel m v i" for i
    by (cases "vg_framebuffer v") (simp_all add: vga_pixel_def palette_rgb_def written_pages_keeps v')
  show ?thesis
  proof (cases "?c = {}")
    case True
    then have "vga_render entries fetched m out seen v = Some (Inr (None, out, length h + 1), v')"
      using w fr assms(2) by (simp add: vga_render_def)
    then show ?thesis using assms(3,4) True px by auto
  next
    case False
    let ?rows = "vga_rows (Min ?c, Max ?c + 1)"
    let ?fb = "if vg_ac_index v' AND AC_PAS \<noteq> 0
      then map_option (\<lambda>p i. m (fst p) (snd p + i)) (vg_framebuffer v') else None"
    let ?out = "vga_draw ?fb (palette_rgb v') ?rows out"
    have r: "vga_render entries fetched m out seen v = Some (Inr (Some ?rows, ?out, length h + 1), v')"
      using w fr assms(2) False by (simp add: vga_render_def Let_def)
    have "?out ! i = vga_pixel m v' i" if i: "i < VGA_FRAMEBUFFER_SIZE" for i
    proof (cases "i div 4096 \<in> ?c")
      case True
      have f: "finite ?c" by (rule changed_since_bounds(2) [OF assms(1) True])
      then have "Min ?c \<le> i div 4096" "i div 4096 < Max ?c + 1"
        using True by (auto simp: less_Suc_eq_le)
      from vga_rows_cover [OF this i] show ?thesis
        using i assms(3) vga_draw_nth(1) [of i out ?fb "palette_rgb v'" ?rows]
        by (auto simp: vga_pixel_def split: option.splits)
    next
      case False
      then show ?thesis
        using i assms(3,4) vga_draw_nth(1) [of i out ?fb "palette_rgb v'" ?rows] px [of i]
        by (auto simp: vga_pixel_def split: option.splits)
    qed
    then show ?thesis using r vga_draw_nth(2) assms(3) by auto
  qed
qed

text \<open>The display is turned on and a colour set; a new client gets it.\<close>

theorem vga_render_up_to_date_witness:
  "\<exists>v rows out' v'. vga_reach [] v \<and> vga_render 1 (Inr [0]) (\<lambda>_ _. 1) (replicate VGA_FRAMEBUFFER_SIZE 0) 0 v =
      Some (Inr (rows, out', 1), v') \<and> out' ! 5 = vga_pixel (\<lambda>_ _. 1) v' 5"
proof -
  let ?v = "vga_write DAC_DATA 0x3f (vga_write DAC_WRITE_INDEX 1 (vga_write AC_INDEX AC_PAS (vga_new (Some (0, 0)) True None)))"
  have r: "vga_reach [] ?v" by (intro vga_reach.intros)
  have q: "apply_queued_writes 1 ?v = Some (Inr (), ?v)"
    by (simp add: apply_queued_writes_def) (simp add: vga_new_def)
  have "i div 4096 \<in> changed_since 0 h" if "i < 64000" for i h
    using div_le_mono [of i 63999 4096] that by (simp add: changed_since_def)
  then have p: "\<forall>i<64000. i div 4096 \<notin> changed_since 0 ([] @ [frame_dirty (Inr [0]) ?v])
      \<longrightarrow> replicate 64000 0 ! i = vga_pixel (\<lambda>_ _. 1) ?v i"
    by blast
  have "(5 :: nat) < 64000" by simp
  then show ?thesis
    using vga_render_up_to_date [OF r q length_replicate p] r unfolding list.size(3) add_0 by blast
qed

end
