(* ===== verification/Device_Bus.thy ===== *)
theory Device_Bus
  imports Virtio_Blk Virtio_Net "HOL-Library.AList"
begin

text \<open>
  The MMIO devices of a VM (\<open>add_mmio_device\<close>, \<open>handle_mmio\<close>, \<open>poll_mmio_devices\<close> of
  \<open>src/src/main.rs\<close>, \<open>init_virtio_blk\<close> and \<open>init_virtio_net\<close> of \<open>src/src/virtio/mod.rs\<close>), over any type
  \<open>'d\<close> of devices, as both architectures use them: the devices are found by page, and share guest RAM, standard output and the log of interrupt calls. The locale
  \<open>mmio_bus\<close> is what a device owes the others, that it moves its own interrupt line only;
  \<open>Machine\<close> and \<open>Arm_Machine\<close> interpret it.
\<close>

section \<open>Dispatch\<close>

type_synonym bus_world = "ram \<times> u8 list \<times> irq_log"
type_synonym 'd bus = "(u64 \<times> 'd) list"

text \<open>
  \<open>handle\<close> and \<open>poll\<close> of the trait \<open>MMIODevice\<close>; \<open>None\<close> when they do not return.
\<close>

type_synonym 'd mmio_handler = "mmio_exit \<times> 'd \<times> bus_world \<Rightarrow> (unit res \<times> mmio_exit \<times> 'd \<times> bus_world) option"
type_synonym 'd mmio_poller = "'d \<times> bus_world \<Rightarrow> (unit res \<times> 'd \<times> bus_world) option"

text \<open>The trait's own \<open>poll\<close>, for devices with nothing to pick up.\<close>

definition poll_default :: "'d mmio_poller" where
  "poll_default = (\<lambda>(d, w). Some (Inr (), d, w))"

definition mmio_page :: "u64 \<Rightarrow> u64" where
  "mmio_page addr = drop_bit 12 addr"

text \<open>
  The map of devices by page, in the order it is iterated in, which \<open>HashMap\<close> leaves open. A device
  in the same page is replaced.
\<close>

definition add_mmio_device :: "u64 \<Rightarrow> 'd \<Rightarrow> 'd bus \<Rightarrow> 'd bus" where
  "add_mmio_device addr d bus = AList.update (mmio_page addr) d bus"

definition handle_mmio ::
    "'d mmio_handler \<Rightarrow> mmio_exit \<times> 'd bus \<times> bus_world \<Rightarrow> (unit res \<times> mmio_exit \<times> 'd bus \<times> bus_world) option" where
  "handle_mmio handle = (\<lambda>(mmio, bus, w).
     let page = mmio_page (mm_phys_addr mmio)
     in case map_of bus page of
          None \<Rightarrow> Some (Inr (), mmio, bus, w)
        | Some d \<Rightarrow>
            map_option (\<lambda>(r, mmio', d', w'). (r, mmio', AList.update page d' bus, w')) (handle (mmio, d, w)))"

text \<open>Every device in turn, until one fails.\<close>

fun poll_pages ::
    "'d mmio_poller \<Rightarrow> 'd bus \<Rightarrow> 'd bus \<times> bus_world \<Rightarrow> (unit res \<times> 'd bus \<times> bus_world) option" where
  "poll_pages poll [] (bus, w) = Some (Inr (), bus, w)"
| "poll_pages poll ((page, d) # rest) (bus, w) =
     (case poll (d, w) of
        None \<Rightarrow> None
      | Some (Inl e, d', w') \<Rightarrow> Some (Inl e, AList.update page d' bus, w')
      | Some (Inr _, d', w') \<Rightarrow> poll_pages poll rest (AList.update page d' bus, w'))"

definition poll_mmio_devices :: "'d mmio_poller \<Rightarrow> 'd bus \<times> bus_world \<Rightarrow> (unit res \<times> 'd bus \<times> bus_world) option" where
  "poll_mmio_devices poll = (\<lambda>(bus, w). poll_pages poll bus (bus, w))"

section \<open>Setup\<close>

text \<open>
  The option and, when it is given, the outcome of opening what it names: \<open>None\<close> without the
  option. \<open>mk\<close> makes the trait object of the device.
\<close>

definition init_virtio_blk ::
    "(virtio_blk virtio_mmio \<Rightarrow> 'd) \<Rightarrow> u8 list res option \<Rightarrow> u64 \<Rightarrow> u32 \<Rightarrow> ('d bus, unit) oper" where
  "init_virtio_blk mk disk addr irq bus =
     (case disk of
        None \<Rightarrow> (Inr (), bus)
      | Some file \<Rightarrow>
          (case virtio_blk_new file of
             Inl e \<Rightarrow> (Inl e, bus)
           | Inr d \<Rightarrow> (Inr (), add_mmio_device addr (mk (virtio_mmio_new d irq)) bus)))"

definition init_virtio_net ::
    "(virtio_net virtio_mmio \<Rightarrow> 'd) \<Rightarrow> unit res option \<Rightarrow> u64 \<Rightarrow> u32 \<Rightarrow> ('d bus, unit) oper" where
  "init_virtio_net mk tap addr irq bus =
     (case tap of
        None \<Rightarrow> (Inr (), bus)
      | Some (Inl e) \<Rightarrow> (Inl e, bus)
      | Some (Inr _) \<Rightarrow> (Inr (), add_mmio_device addr (mk (virtio_mmio_new virtio_net_new irq)) bus))"

section \<open>One log, many lines\<close>

text \<open>A step that touches the level of one line only.\<close>

definition only_line :: "u32 \<Rightarrow> irq_log \<Rightarrow> irq_log \<Rightarrow> bool" where
  "only_line n log log' \<longleftrightarrow> (\<forall>k. k \<noteq> n \<longrightarrow> line_level k log' = line_level k log)"

lemma only_line_refl [simp, intro]: "only_line n log log"
  by (simp add: only_line_def)

lemma only_line_trans: "only_line n a b \<Longrightarrow> only_line n b c \<Longrightarrow> only_line n a c"
  by (simp add: only_line_def)

lemma only_line_update: "arch_update_irq env l n log = (r, log') \<Longrightarrow> only_line n log log'"
  by (auto simp: arch_update_irq_def only_line_def split: if_splits)

lemma only_line_apart:
  "only_line n log log' \<Longrightarrow> n \<in> S \<Longrightarrow> \<forall>k. k \<notin> S \<longrightarrow> line_level k log' = line_level k log"
  by (auto simp: only_line_def)

section \<open>The bus\<close>

lemma update_split:
  assumes "distinct (map fst xs)" and "map_of xs k = Some d"
  obtains ys zs where "xs = ys @ (k, d) # zs" "AList.update k d' xs = ys @ (k, d') # zs"
proof -
  obtain ys zs where xs: "xs = ys @ (k, d) # zs"
    using split_list [OF map_of_SomeD [OF assms(2)]] by blast
  then have "k \<notin> fst ` set ys" using assms(1) by auto
  then have "AList.update k d' xs = ys @ (k, d') # zs"
    unfolding xs by (induction ys) auto
  with xs show thesis by (rule that)
qed

text \<open>
  Each device has a line of its own, \<open>line d\<close>; \<open>ok d log\<close> is what it keeps true of its line. On a sound
  bus no two devices share a page or a line.
\<close>

definition bus_ok :: "('d \<Rightarrow> u32) \<Rightarrow> ('d \<Rightarrow> irq_log \<Rightarrow> bool) \<Rightarrow> 'd bus \<Rightarrow> irq_log \<Rightarrow> bool" where
  "bus_ok line ok bus log \<longleftrightarrow>
     distinct (map fst bus) \<and> distinct (map (line \<circ> snd) bus) \<and> (\<forall>x\<in>set bus. ok (snd x) log)"

definition bus_lines :: "('d \<Rightarrow> u32) \<Rightarrow> 'd bus \<Rightarrow> u32 set" where
  "bus_lines line bus = (line \<circ> snd) ` set bus"

definition line_at :: "('d \<Rightarrow> u32) \<Rightarrow> 'd bus \<Rightarrow> u64 \<Rightarrow> u32 option" where
  "line_at line bus page = map_option line (map_of bus page)"

locale mmio_bus =
  fixes handle :: "'d mmio_handler"
    and poll :: "'d mmio_poller"
    and line :: "'d \<Rightarrow> u32"
    and ok :: "'d \<Rightarrow> irq_log \<Rightarrow> bool"
  assumes handle_line: "handle (mmio, d, m, out, log) = Some (r, mmio', d', m', out', log') \<Longrightarrow>
      only_line (line d) log log' \<and> line d' = line d"
    and handle_ok: "handle (mmio, d, m, out, log) = Some (Inr (), mmio', d', m', out', log') \<Longrightarrow>
      ok d log \<Longrightarrow> ok d' log'"
    and poll_line: "poll (d, m, out, log) = Some (r, d', m', out', log') \<Longrightarrow>
      only_line (line d) log log' \<and> line d' = line d"
    and poll_ok: "poll (d, m, out, log) = Some (Inr (), d', m', out', log') \<Longrightarrow> ok d log \<Longrightarrow> ok d' log'"
    and ok_other: "only_line n log log' \<Longrightarrow> n \<noteq> line d \<Longrightarrow> ok d log \<Longrightarrow> ok d log'"
begin

lemma bus_ok_other:
  "bus_ok line ok bus log \<Longrightarrow> only_line n log log' \<Longrightarrow> n \<notin> bus_lines line bus \<Longrightarrow> bus_ok line ok bus log'"
  unfolding bus_ok_def bus_lines_def using ok_other by force

lemma bus_ok_put:
  assumes inv: "bus_ok line ok bus log" and d: "map_of bus page = Some d"
    and l: "only_line (line d) log log'" and o: "ok d' log'" and same: "line d' = line d"
  shows "bus_ok line ok (AList.update page d' bus) log' \<and>
    bus_lines line (AList.update page d' bus) = bus_lines line bus \<and>
    line_at line (AList.update page d' bus) = line_at line bus \<and> line d \<in> bus_lines line bus"
proof -
  obtain ys zs where xs: "bus = ys @ (page, d) # zs" and up: "AList.update page d' bus = ys @ (page, d') # zs"
    using inv d update_split [of bus page d d'] by (auto simp: bus_ok_def)
  have "\<forall>x\<in>set (ys @ zs). line d \<noteq> line (snd x) \<and> ok (snd x) log"
    using inv xs by (auto simp: bus_ok_def)
  then have "\<forall>x\<in>set (ys @ zs). ok (snd x) log'" using ok_other [OF l] by blast
  moreover have "line_at line (AList.update page d' bus) = line_at line bus"
    using d same by (auto simp: fun_eq_iff line_at_def update_conv')
  ultimately show ?thesis using inv xs up o same by (auto simp: bus_ok_def bus_lines_def)
qed

text \<open>An access or a poll keeps the bus sound, its lines the same, and every other line where it was.\<close>

lemma handle_mmio_ok:
  assumes h: "handle_mmio handle (mmio, bus, m, out, log) = Some (Inr (), mmio', bus', m', out', log')"
    and inv: "bus_ok line ok bus log"
  shows "bus_ok line ok bus' log' \<and> bus_lines line bus' = bus_lines line bus \<and> line_at line bus' = line_at line bus \<and>
    (\<forall>n. n \<notin> bus_lines line bus \<longrightarrow> line_level n log' = line_level n log)"
proof (cases "map_of bus (mmio_page (mm_phys_addr mmio))")
  case None
  with h inv show ?thesis by (simp add: handle_mmio_def Let_def)
next
  case (Some d)
  with h obtain d' where d: "handle (mmio, d, m, out, log) = Some (Inr (), mmio', d', m', out', log')"
      and bus': "bus' = AList.update (mmio_page (mm_phys_addr mmio)) d' bus"
    by (auto simp: handle_mmio_def Let_def)
  have "ok d log" using inv map_of_SomeD [OF Some] by (fastforce simp: bus_ok_def)
  with handle_line [OF d] handle_ok [OF d]
  have put: "bus_ok line ok bus' log' \<and> bus_lines line bus' = bus_lines line bus \<and>
      line_at line bus' = line_at line bus \<and> line d \<in> bus_lines line bus"
    unfolding bus' by (intro bus_ok_put [OF inv Some]) auto
  with only_line_apart [of "line d" log log'] handle_line [OF d] show ?thesis by blast
qed

lemma poll_pages_ok:
  "poll_pages poll xs (bus, m, out, log) = Some (Inr (), bus', m', out', log') \<Longrightarrow> bus_ok line ok bus log \<Longrightarrow>
    distinct (map fst xs) \<Longrightarrow> \<forall>x\<in>set xs. map_of bus (fst x) = Some (snd x) \<Longrightarrow>
    bus_ok line ok bus' log' \<and> bus_lines line bus' = bus_lines line bus \<and> line_at line bus' = line_at line bus \<and>
      (\<forall>n. n \<notin> bus_lines line bus \<longrightarrow> line_level n log' = line_level n log)"
proof (induction xs arbitrary: bus m out log)
  case (Cons x xs)
  obtain page d where x: "x = (page, d)" by force
  have at: "map_of bus page = Some d" using Cons.prems(4) x by simp
  from Cons.prems(1) obtain d' m1 out1 log1 where p: "poll (d, m, out, log) = Some (Inr (), d', m1, out1, log1)"
      and r: "poll_pages poll xs (AList.update page d' bus, m1, out1, log1) = Some (Inr (), bus', m', out', log')"
    by (auto simp: x split: option.splits sum.splits)
  have "ok d log" using Cons.prems(2) map_of_SomeD [OF at] by (fastforce simp: bus_ok_def)
  then have put: "bus_ok line ok (AList.update page d' bus) log1 \<and>
      bus_lines line (AList.update page d' bus) = bus_lines line bus \<and>
      line_at line (AList.update page d' bus) = line_at line bus \<and> line d \<in> bus_lines line bus"
    using bus_ok_put [OF Cons.prems(2) at] poll_line [OF p] poll_ok [OF p] by blast
  moreover have "\<forall>y\<in>set xs. map_of (AList.update page d' bus) (fst y) = Some (snd y)"
    using Cons.prems(3,4) x by (auto simp: update_conv')
  ultimately have "bus_ok line ok bus' log' \<and> bus_lines line bus' = bus_lines line bus \<and> line_at line bus' = line_at line bus \<and>
      (\<forall>n. n \<notin> bus_lines line bus \<longrightarrow> line_level n log' = line_level n log1)"
    using Cons.IH [OF r] Cons.prems(3) by simp
  then show ?case using only_line_apart [of "line d" log log1 "bus_lines line bus"] poll_line [OF p] put by simp
qed simp

lemma poll_mmio_devices_ok:
  assumes "poll_mmio_devices poll (bus, m, out, log) = Some (Inr (), bus', m', out', log')" and "bus_ok line ok bus log"
  shows "bus_ok line ok bus' log' \<and> bus_lines line bus' = bus_lines line bus \<and> line_at line bus' = line_at line bus \<and>
    (\<forall>n. n \<notin> bus_lines line bus \<longrightarrow> line_level n log' = line_level n log)"
  using assms poll_pages_ok [of bus bus m out log] by (auto simp: poll_mmio_devices_def bus_ok_def)

end

text \<open>An access reaches the device of its page only, and nothing when there is none.\<close>

lemma handle_mmio_frame:
  assumes "handle_mmio handle (mmio, bus, w) = Some (r, mmio', bus', w')"
  shows "(\<forall>page. page \<noteq> mmio_page (mm_phys_addr mmio) \<longrightarrow> map_of bus' page = map_of bus page) \<and>
    (map_of bus (mmio_page (mm_phys_addr mmio)) = None \<longrightarrow> r = Inr () \<and> mmio' = mmio \<and> bus' = bus \<and> w' = w)"
  using assms by (auto simp: handle_mmio_def Let_def update_conv' split: option.splits)

section \<open>Virtio devices on a bus\<close>

lemma notify_step_line:
  "notify_step A V env mem ops qi (v, m, log) = (r, v', m', log') \<Longrightarrow>
    only_line (vio_irq v) log log' \<and> vio_irq v' = vio_irq v"
  by (auto simp: notify_step_def Let_def dest!: only_line_update
      split: if_splits sum.splits option.splits prod.splits)

lemma notify_loop_line_aux:
  "notify_loop A V env mem ops qi w = Some x \<Longrightarrow>
     only_line (vio_irq (fst w)) (snd (snd w)) (snd (snd (snd x))) \<and> vio_irq (fst (snd x)) = vio_irq (fst w)"
proof (induction rule: notify_loop.raw_induct [rotated 1, consumes 1])
  case (1 f A V env mem ops qi w x)
  obtain v m log where w: "w = (v, m, log)" by (cases w)
  obtain r1 v1 m1 log1 where st: "notify_step A V env mem ops qi (v, m, log) = (r1, v1, m1, log1)"
    by (cases "notify_step A V env mem ops qi (v, m, log)")
  note s = notify_step_line [OF st]
  from 1(2) have x: "(case (r1, v1, m1, log1) of (Inl e, w') \<Rightarrow> Some (Inl e, w')
      | (Inr b, w') \<Rightarrow> if b then f A V env mem ops qi w' else Some (Inr (), w')) = Some x"
    unfolding w st .
  show ?case
  proof (cases "r1 = Inr True")
    case True
    with x have "f A V env mem ops qi (v1, m1, log1) = Some x" by simp
    from 1(1) [OF this] s show ?thesis by (auto simp: w intro: only_line_trans)
  next
    case False
    with x have "snd x = (v1, m1, log1)" by (auto split: sum.splits if_splits)
    with s show ?thesis by (simp add: w)
  qed
qed

lemma queue_notify_line:
  "queue_notify A V env mem ops qi (v, m, log) = Some (r, v', m', log') \<Longrightarrow>
    only_line (vio_irq v) log log' \<and> vio_irq v' = vio_irq v"
  using notify_loop_line_aux [of A V env mem ops qi "(v, m, log)" "(r, v', m', log')"]
  by (auto simp: queue_notify_def Let_def split: if_splits)

lemma notify_all_line:
  "notify_all A V env mem ops qs (v, m, log) = Some (r, v', m', log') \<Longrightarrow>
    only_line (vio_irq v) log log' \<and> vio_irq v' = vio_irq v"
proof (induction qs arbitrary: v m log)
  case (Cons qi qs)
  from Cons.prems obtain r1 v1 m1 log1 where
    n: "queue_notify A V env mem ops qi (v, m, log) = Some (r1, v1, m1, log1)"
    by (auto split: option.splits)
  note irq = queue_notify_line [OF n]
  show ?case
  proof (cases r1)
    case (Inl e)
    with Cons.prems n irq show ?thesis by simp
  next
    case (Inr u)
    with Cons.prems n irq Cons.IH [of v1 m1 log1] show ?thesis by (auto intro: only_line_trans)
  qed
qed simp

lemma virtio_poll_line:
  "virtio_poll A V env mem ops (v, m, log) = Some (r, v', m', log') \<Longrightarrow>
    only_line (vio_irq v) log log' \<and> vio_irq v' = vio_irq v"
  unfolding virtio_poll_def by (rule notify_all_line)

lemma virtio_write_reg_line:
  "virtio_write_reg A env addr val (v, log) = (r, v', log') \<Longrightarrow>
    only_line (vio_irq v) log log' \<and> vio_irq v' = vio_irq v"
  by (auto simp: virtio_write_reg_def Let_def dest!: only_line_update split: if_splits prod.splits)

lemma virtio_handle_line:
  assumes "virtio_handle A V env mem ops (mmio, v, m, log) = Some (r, mmio', v', m', log')"
  shows "only_line (vio_irq v) log log' \<and> vio_irq v' = vio_irq v"
proof (cases "mm_is_write mmio = 0")
  case True
  with assms obtain data where
    "virtio_read_reg A ops (ucast (mm_phys_addr mmio AND 0xfff)) (v, mm_data mmio) = (r, v', data)" "log' = log"
    by (auto simp: virtio_handle_def Let_def split: prod.splits)
  with virtio_read_reg_irq [OF this(1)] show ?thesis by simp
next
  case False
  with assms consider "v' = v" "log' = log"
    | val where "queue_notify A V env mem ops val (v, m, log) = Some (r, v', m', log')"
    | addr val where "virtio_write_reg A env addr val (v, log) = (r, v', log')"
    by (auto simp: virtio_handle_def Let_def split: sum.splits if_splits prod.splits)
  then show ?thesis by cases (auto dest: queue_notify_line virtio_write_reg_line)
qed

end
