(* ===== verification/Machine.thy ===== *)
theory Machine
  imports I8042 Uart16550 Vga Virtio_Blk Virtio_Net Device_Bus
begin

text \<open>
  The x86 machine: which device a port access reaches (\<open>arch_handle_io\<close> of
  \<open>src/src/arch/x86_64/io.rs\<close>), its MMIO devices on the bus of \<open>Device_Bus\<close>, and the setup of the devices
  (\<open>arch_init_io_devices\<close>, \<open>src/src/arch/x86_64/mmio.rs\<close>, \<open>src/src/virtio/mod.rs\<close>). All devices share
  the guest RAM, the log of the interrupt calls and the standard output; each access holds its
  device's lock and is one step.
\<close>

section \<open>Devices and their state\<close>

abbreviation (input) VIRTIO_BLK_MMIO_ADDR :: u64 where "VIRTIO_BLK_MMIO_ADDR \<equiv> 0xd0000000"
abbreviation (input) VIRTIO_BLK_IRQ :: u32 where "VIRTIO_BLK_IRQ \<equiv> 0x5"
abbreviation (input) VIRTIO_NET_MMIO_ADDR :: u64 where "VIRTIO_NET_MMIO_ADDR \<equiv> 0xd0010000"
abbreviation (input) VIRTIO_NET_IRQ :: u32 where "VIRTIO_NET_IRQ \<equiv> 0x6"

datatype device_id = DevUart | DevI8042 | DevVga | DevUnknown

text \<open>The devices behind \<open>dyn MMIODevice\<close>.\<close>

datatype mmio_device = MmioBlk "virtio_blk virtio_mmio" | MmioNet "virtio_net virtio_mmio"

text \<open>
  \<open>VM\<close>: \<open>mc_mmio\<close> is the map of MMIO devices by page, \<open>mc_uart\<close>, \<open>mc_kbd\<close> and \<open>mc_vga\<close> the map of port I/O devices.
\<close>

record machine =
  mc_mem :: vm_mem
  mc_ram :: ram
  mc_irqs :: irq_log
  mc_out :: "u8 list"
  mc_control :: vm_control
  mc_mmio :: "mmio_device bus"
  mc_uart :: "uart option"
  mc_kbd :: "i8042 option"
  mc_vga :: "vga option"

text \<open>What comes from outside: constants of the bindings, outcomes of calls, the clock.\<close>

record machine_env =
  me_mmio :: mmio_abi
  me_vring :: vring_abi
  me_blk :: blk_abi
  me_net :: net_abi
  me_disk :: disk_env
  me_tap :: tap_env
  me_irq :: irq_env
  me_entries :: u32
  me_clk :: "nat \<Rightarrow> nat"

text \<open>\<open>KvmDev::create_vm\<close>.\<close>

definition machine_new :: "ram \<Rightarrow> machine" where
  "machine_new m =
     \<lparr>mc_mem = \<lparr>vm_regions = [], vm_next_slot = 0, vm_calls = []\<rparr>, mc_ram = m, mc_irqs = [], mc_out = [],
      mc_control = vm_control_new, mc_mmio = [], mc_uart = None, mc_kbd = None, mc_vga = None\<rparr>"

section \<open>Port I/O\<close>

definition port_device :: "u16 \<Rightarrow> device_id" where
  "port_device port =
     (if 0x3f8 \<le> port \<and> port \<le> 0x3ff then DevUart
      else if port = I8042_DATA \<or> port = I8042_COMMAND then DevI8042
      else if vga_port port then DevVga
      else DevUnknown)"

text \<open>A port without a device leaves the bytes as they are.\<close>

definition arch_handle_io ::
    "machine_env \<Rightarrow> io_exit \<Rightarrow> u8 list \<times> machine \<Rightarrow> (unit res \<times> u8 list \<times> machine) option" where
  "arch_handle_io E io = (\<lambda>(data, mc).
     case port_device (io_port io) of
       DevUart \<Rightarrow>
         (case mc_uart mc of
            None \<Rightarrow> Some (Inr (), data, mc)
          | Some u \<Rightarrow>
              (case uart_handle (me_irq E) io (data, u, mc_out mc, mc_irqs mc) of
                 (r, data', u', out', log') \<Rightarrow>
                   Some (r, data', mc\<lparr>mc_uart := Some u', mc_out := out', mc_irqs := log'\<rparr>)))
     | DevI8042 \<Rightarrow>
         (case mc_kbd mc of
            None \<Rightarrow> Some (Inr (), data, mc)
          | Some k \<Rightarrow>
              (case i8042_handle (me_irq E) io (data, k, mc_control mc, mc_irqs mc) of
                 (r, data', k', c', log') \<Rightarrow>
                   Some (r, data', mc\<lparr>mc_kbd := Some k', mc_control := c', mc_irqs := log'\<rparr>)))
     | DevVga \<Rightarrow>
         (case mc_vga mc of
            None \<Rightarrow> Some (Inr (), data, mc)
          | Some v \<Rightarrow>
              map_option (\<lambda>(r, data', v'). (r, data', mc\<lparr>mc_vga := Some v'\<rparr>))
                (vga_handle (me_entries E) (me_clk E) io (data, v)))
     | DevUnknown \<Rightarrow> Some (Inr (), data, mc))"

section \<open>MMIO\<close>

text \<open>\<open>handle\<close> and \<open>poll\<close> by the device, on RAM that the regions \<open>mem\<close> give access to.\<close>

definition mmio_device_handle :: "machine_env \<Rightarrow> guest_memory \<Rightarrow> mmio_device mmio_handler" where
  "mmio_device_handle E mem = (\<lambda>(mmio, d, m, out, log).
     case d of
       MmioBlk v \<Rightarrow>
         map_option (\<lambda>(r, mmio', v', m', log'). (r, mmio', MmioBlk v', m', out, log'))
           (virtio_handle (me_mmio E) (me_vring E) (me_irq E) mem (blk_ops (me_blk E) (me_disk E)) (mmio, v, m, log))
     | MmioNet v \<Rightarrow>
         map_option (\<lambda>(r, mmio', v', m', log'). (r, mmio', MmioNet v', m', out, log'))
           (virtio_handle (me_mmio E) (me_vring E) (me_irq E) mem (net_ops (me_net E) (me_tap E)) (mmio, v, m, log)))"

definition mmio_device_poll :: "machine_env \<Rightarrow> guest_memory \<Rightarrow> mmio_device mmio_poller" where
  "mmio_device_poll E mem = (\<lambda>(d, m, out, log).
     case d of
       MmioBlk v \<Rightarrow>
         map_option (\<lambda>(r, v', m', log'). (r, MmioBlk v', m', out, log'))
           (virtio_poll (me_mmio E) (me_vring E) (me_irq E) mem (blk_ops (me_blk E) (me_disk E)) (v, m, log))
     | MmioNet v \<Rightarrow>
         map_option (\<lambda>(r, v', m', log'). (r, MmioNet v', m', out, log'))
           (virtio_poll (me_mmio E) (me_vring E) (me_irq E) mem (net_ops (me_net E) (me_tap E)) (v, m, log)))"

definition machine_mmio :: "machine_env \<Rightarrow> mmio_exit \<times> machine \<Rightarrow> (unit res \<times> mmio_exit \<times> machine) option" where
  "machine_mmio E = (\<lambda>(mmio, mc).
     map_option (\<lambda>(r, mmio', bus, m, out, log). (r, mmio', mc\<lparr>mc_mmio := bus, mc_ram := m, mc_out := out, mc_irqs := log\<rparr>))
       (handle_mmio (mmio_device_handle E (vm_regions (mc_mem mc))) (mmio, mc_mmio mc, mc_ram mc, mc_out mc, mc_irqs mc)))"

definition machine_poll :: "machine_env \<Rightarrow> machine \<Rightarrow> (unit res \<times> machine) option" where
  "machine_poll E mc =
     map_option (\<lambda>(r, bus, m, out, log). (r, mc\<lparr>mc_mmio := bus, mc_ram := m, mc_out := out, mc_irqs := log\<rparr>))
       (poll_mmio_devices (mmio_device_poll E (vm_regions (mc_mem mc))) (mc_mmio mc, mc_ram mc, mc_out mc, mc_irqs mc))"

section \<open>Setup\<close>

definition arch_init_mmio_devices :: "u8 list res option \<Rightarrow> unit res option \<Rightarrow> (machine, unit) oper" where
  "arch_init_mmio_devices disk tap mc =
     (case then_op (init_virtio_blk MmioBlk disk VIRTIO_BLK_MMIO_ADDR VIRTIO_BLK_IRQ)
        (\<lambda>_. init_virtio_net MmioNet tap VIRTIO_NET_MMIO_ADDR VIRTIO_NET_IRQ) (mc_mmio mc) of
        (r, bus) \<Rightarrow> (r, mc\<lparr>mc_mmio := bus\<rparr>))"

text \<open>
  \<open>coalesce_pio\<close>: \<open>supported\<close>, \<open>registered\<close> and \<open>mapped\<close> are the outcomes of its three calls, the
  last with the ring the page then holds.
\<close>

definition coalesce_pio :: "bool \<Rightarrow> bool \<Rightarrow> coalesced_ring option \<Rightarrow> coalesced_ring option res" where
  "coalesce_pio supported registered mapped =
     (if \<not> supported then Inr None
      else if \<not> registered then Inl (IoError OsError)
      else case mapped of None \<Rightarrow> Inl (IoError OsError) | Some ring \<Rightarrow> Inr (Some ring))"

text \<open>The call that logs the dirty pages of the framebuffer is \<open>dirty\<close>, see \<open>log_dirty_pages\<close>.\<close>

definition arch_init_io_devices ::
    "(vm_mem, u32 \<times> nat) oper \<Rightarrow> coalesced_ring option res \<Rightarrow> (machine, unit) oper" where
  "arch_init_io_devices dirty ring mc =
     (let mc = mc\<lparr>mc_uart := Some uart_new, mc_kbd := Some i8042_new\<rparr>;
          fb = gpa_to_host (vm_regions (mc_mem mc)) VGA_FRAMEBUFFER VGA_FRAMEBUFFER_SIZE
      in case (case fb of None \<Rightarrow> (Inr False, mc_mem mc)
               | Some _ \<Rightarrow> (case dirty (mc_mem mc) of (Inl e, vm) \<Rightarrow> (Inl e, vm) | (Inr _, vm) \<Rightarrow> (Inr True, vm))) of
           (Inl e, vm) \<Rightarrow> (Inl e, mc\<lparr>mc_mem := vm\<rparr>)
         | (Inr logged, vm) \<Rightarrow>
             (case ring of
                Inl e \<Rightarrow> (Inl e, mc\<lparr>mc_mem := vm\<rparr>)
              | Inr r \<Rightarrow> (Inr (), mc\<lparr>mc_mem := vm, mc_vga := Some (vga_new fb logged r)\<rparr>)))"

section \<open>Interrupt lines of one machine\<close>

lemma uart_handle_line:
  "uart_handle env io (data, s, out, log) = (r, data', s', out', log') \<Longrightarrow> only_line UART_IRQ log log'"
  using uart_irq.update_other_lines unfolding only_line_def
  by (fastforce simp: uart_handle_def split: prod.splits sum.splits)

lemma uart_send_char_line: "uart_send_char env ch (s, log) = (r, s', log') \<Longrightarrow> only_line UART_IRQ log log'"
  using uart_irq.update_other_lines unfolding only_line_def by (fastforce simp: uart_send_char_def)

lemma i8042_update_line: "i8042_update_irq env (k, log) = (r, k', log') \<Longrightarrow> only_line I8042_IRQ log log'"
  using kbd_irq.update_other_lines unfolding only_line_def by blast

lemma i8042_read_data_line: "i8042_read_data env (k, log) = (r, k', log') \<Longrightarrow> only_line I8042_IRQ log log'"
  by (auto simp: i8042_read_data_def Let_def then_op_def dest!: i8042_update_line split: prod.splits sum.splits)

lemma i8042_access_line:
  "i8042_access env dir port (buf, k, c, log) = (r, buf', k', c', log') \<Longrightarrow> only_line I8042_IRQ log log'"
  by (auto simp: i8042_access_def Let_def dest: i8042_read_data_line
      split: io_direction.splits prod.splits sum.splits option.splits if_splits)

lemma i8042_handle_line:
  assumes "i8042_handle env io (data, k, c, log) = (r, data', k', c', log')"
  shows "only_line I8042_IRQ log log'"
proof -
  obtain r1 buf k1 c1 log1 where a: "i8042_access env (io_direction io) (io_port io)
      (take (io_size io) data, k, c, log) = (r1, buf, k1, c1, log1)"
    by (cases "i8042_access env (io_direction io) (io_port io) (take (io_size io) data, k, c, log)")
  have "only_line I8042_IRQ log log1" by (rule i8042_access_line [OF a])
  moreover have "only_line I8042_IRQ log1 log'"
    using assms a by (auto simp: i8042_handle_def then_op_def dest!: i8042_update_line split: sum.splits prod.splits)
  ultimately show ?thesis by (rule only_line_trans)
qed

lemma i8042_key_event_line: "i8042_key_event env down s (k, log) = (r, k', log') \<Longrightarrow> only_line I8042_IRQ log log'"
  by (auto simp: i8042_key_event_def Let_def dest!: i8042_update_line split: if_splits option.splits prod.splits)

section \<open>All runs of the machine\<close>

fun dev_irq :: "mmio_device \<Rightarrow> u32" where
  "dev_irq (MmioBlk v) = vio_irq v"
| "dev_irq (MmioNet v) = vio_irq v"

fun dev_irq_status :: "mmio_device \<Rightarrow> u32" where
  "dev_irq_status (MmioBlk v) = vio_irq_status v"
| "dev_irq_status (MmioNet v) = vio_irq_status v"

fun dev_ok :: "mmio_abi \<Rightarrow> mmio_device \<Rightarrow> irq_log \<Rightarrow> bool" where
  "dev_ok A (MmioBlk v) log = vio_irq_ok A v log"
| "dev_ok A (MmioNet v) log = vio_irq_ok A v log"

text \<open>A frame the receive thread queues, in whichever device has it.\<close>

fun dev_receive :: "frame \<Rightarrow> mmio_device \<Rightarrow> mmio_device" where
  "dev_receive f (MmioBlk v) = MmioBlk v"
| "dev_receive f (MmioNet v) = MmioNet (v\<lparr>vio_device := net_push f (vio_device v)\<rparr>)"

text \<open>
  What happens to a machine once it is set up: exits of the guest, polls, keys and characters of
  the frontends, received frames, renders, whatever the guest does to its RAM, and whatever threads
  do to the control block. A call that fails ends the VM.
\<close>

inductive machine_reach :: "machine_env \<Rightarrow> machine \<Rightarrow> bool" for E where
  init: "arch_init_mmio_devices disk tap ((machine_new m)\<lparr>mc_mem := vm\<rparr>) = (Inr (), mc1) \<Longrightarrow>
    arch_init_io_devices dirty ring mc1 = (Inr (), mc) \<Longrightarrow> machine_reach E mc"
| port_exit: "machine_reach E mc \<Longrightarrow> arch_handle_io E io (data, mc) = Some (Inr (), data', mc') \<Longrightarrow>
    machine_reach E mc'"
| mmio_exit: "machine_reach E mc \<Longrightarrow> machine_mmio E (mmio, mc) = Some (Inr (), mmio', mc') \<Longrightarrow>
    machine_reach E mc'"
| poll: "machine_reach E mc \<Longrightarrow> machine_poll E mc = Some (Inr (), mc') \<Longrightarrow> machine_reach E mc'"
| key: "machine_reach E mc \<Longrightarrow> mc_kbd mc = Some k \<Longrightarrow>
    i8042_key_event (me_irq E) down keysym (k, mc_irqs mc) = (Inr (), k', log') \<Longrightarrow>
    machine_reach E (mc\<lparr>mc_kbd := Some k', mc_irqs := log'\<rparr>)"
| char: "machine_reach E mc \<Longrightarrow> mc_uart mc = Some u \<Longrightarrow>
    uart_send_char (me_irq E) ch (u, mc_irqs mc) = (Inr (), u', log') \<Longrightarrow>
    machine_reach E (mc\<lparr>mc_uart := Some u', mc_irqs := log'\<rparr>)"
| receive: "machine_reach E mc \<Longrightarrow> map_of (mc_mmio mc) page = Some d \<Longrightarrow>
    machine_reach E (mc\<lparr>mc_mmio := AList.update page (dev_receive f d) (mc_mmio mc)\<rparr>)"
| render: "machine_reach E mc \<Longrightarrow> mc_vga mc = Some v \<Longrightarrow>
    vga_render (me_entries E) fetched (mc_ram mc) pic seen v = Some (Inr shown, v') \<Longrightarrow>
    machine_reach E (mc\<lparr>mc_vga := Some v'\<rparr>)"
| guest: "machine_reach E mc \<Longrightarrow> machine_reach E (mc\<lparr>mc_ram := m\<rparr>)"
| control: "machine_reach E mc \<Longrightarrow> machine_reach E (mc\<lparr>mc_control := c\<rparr>)"

definition machine_inv :: "mmio_abi \<Rightarrow> machine \<Rightarrow> bool" where
  "machine_inv A mc \<longleftrightarrow>
     (\<exists>u. mc_uart mc = Some u \<and> uart_synced u (mc_irqs mc)) \<and>
     (\<exists>k. mc_kbd mc = Some k \<and> i8042_synced k (mc_irqs mc)) \<and>
     bus_ok dev_irq (dev_ok A) (mc_mmio mc) (mc_irqs mc) \<and>
     bus_lines dev_irq (mc_mmio mc) \<subseteq> {VIRTIO_BLK_IRQ, VIRTIO_NET_IRQ}"

text \<open>The two virtio devices on the bus, when there is a bit for the used ring in the interrupt status.\<close>

interpretation x86_bus: mmio_bus "mmio_device_handle E mem" "mmio_device_poll E mem" dev_irq
  "\<lambda>d log. virtio_mmio_int_vring (me_mmio E) \<noteq> 0 \<longrightarrow> dev_ok (me_mmio E) d log" for E mem
proof (unfold_locales, goal_cases)
  case (1 mmio d m out log r mmio' d' m' out' log')
  then show ?case by (cases d) (auto simp: mmio_device_handle_def dest!: virtio_handle_line)
next
  case (2 mmio d m out log mmio' d' m' out' log')
  then show ?case by (cases d) (auto simp: mmio_device_handle_def dest!: virtio_handle_irq)
next
  case (3 d m out log r d' m' out' log')
  then show ?case by (cases d) (auto simp: mmio_device_poll_def dest!: virtio_poll_line)
next
  case (4 d m out log d' m' out' log')
  then show ?case by (cases d) (auto simp: mmio_device_poll_def virtio_poll_def dest!: notify_all_irq)
next
  case (5 n log log' d)
  then show ?case by (cases d) (auto simp: vio_irq_ok_def only_line_def)
qed

lemma synced_apart:
  "\<forall>n. n \<notin> S \<longrightarrow> line_level n log' = line_level n log \<Longrightarrow> UART_IRQ \<notin> S \<Longrightarrow> uart_synced u log \<Longrightarrow> uart_synced u log'"
  "\<forall>n. n \<notin> S \<longrightarrow> line_level n log' = line_level n log \<Longrightarrow> I8042_IRQ \<notin> S \<Longrightarrow> i8042_synced k log \<Longrightarrow> i8042_synced k log'"
  by (auto simp: uart_synced_def uart_tracked_def i8042_synced_def i8042_tracked_def)

lemma dev_ok_other: "only_line n log log' \<Longrightarrow> n \<noteq> dev_irq d \<Longrightarrow> dev_ok A d log \<Longrightarrow> dev_ok A d log'"
  by (cases d) (auto simp: only_line_def vio_irq_ok_def)

lemma bus_ok_apart:
  "bus_ok dev_irq (dev_ok A) bus log \<Longrightarrow> only_line n log log' \<Longrightarrow> n \<notin> bus_lines dev_irq bus \<Longrightarrow>
    bus_ok dev_irq (dev_ok A) bus log'"
  unfolding bus_ok_def bus_lines_def using dev_ok_other by force

lemma machine_inv_lines:
  "machine_inv A mc \<Longrightarrow> UART_IRQ \<notin> bus_lines dev_irq (mc_mmio mc) \<and> I8042_IRQ \<notin> bus_lines dev_irq (mc_mmio mc)"
  unfolding machine_inv_def by fastforce

text \<open>A step of a device with its own line keeps the invariants of all others.\<close>

lemma machine_inv_uart:
  assumes "machine_inv A mc" and "only_line UART_IRQ (mc_irqs mc) log'" and "uart_synced u' log'"
  shows "machine_inv A (mc\<lparr>mc_uart := Some u', mc_out := out', mc_irqs := log'\<rparr>)"
  using assms synced_apart(2) [OF only_line_apart [OF assms(2), of "{UART_IRQ}"]]
    bus_ok_apart [of A "mc_mmio mc" "mc_irqs mc", OF _ assms(2)] machine_inv_lines [OF assms(1)]
  by (auto simp: machine_inv_def)

lemma machine_inv_kbd:
  assumes "machine_inv A mc" and "only_line I8042_IRQ (mc_irqs mc) log'" and "i8042_synced k' log'"
  shows "machine_inv A (mc\<lparr>mc_kbd := Some k', mc_control := c', mc_irqs := log'\<rparr>)"
  using assms synced_apart(1) [OF only_line_apart [OF assms(2), of "{I8042_IRQ}"]]
    bus_ok_apart [of A "mc_mmio mc" "mc_irqs mc", OF _ assms(2)] machine_inv_lines [OF assms(1)]
  by (auto simp: machine_inv_def)

lemma machine_inv_bus:
  assumes "machine_inv A mc" and "bus_ok dev_irq (dev_ok A) bus log'" and "bus_lines dev_irq bus = bus_lines dev_irq (mc_mmio mc)"
    and "\<forall>n. n \<notin> bus_lines dev_irq (mc_mmio mc) \<longrightarrow> line_level n log' = line_level n (mc_irqs mc)"
  shows "machine_inv A (mc\<lparr>mc_mmio := bus, mc_ram := m, mc_out := out, mc_irqs := log'\<rparr>)"
  using assms synced_apart [OF assms(4)] machine_inv_lines [OF assms(1)] by (auto simp: machine_inv_def)

lemma dev_receive_keeps [simp]:
  "dev_irq (dev_receive f d) = dev_irq d" "dev_ok A (dev_receive f d) log = dev_ok A d log"
  by (cases d; simp add: vio_irq_ok_def)+

lemma machine_inv_init:
  assumes "arch_init_mmio_devices disk tap ((machine_new m)\<lparr>mc_mem := vm\<rparr>) = (Inr (), mc1)"
    and "arch_init_io_devices dirty ring mc1 = (Inr (), mc)"
  shows "machine_inv A mc"
proof -
  have new: "uart_synced uart_new []" "i8042_synced i8042_new []"
    by (simp_all add: uart_synced_def uart_tracked_def uart_new_def uart_level_def
        i8042_synced_def i8042_tracked_def i8042_new_def i8042_invar_def i8042_level_def)
  have "mc_irqs mc1 = []" and
    "mc_mmio mc1 = [] \<or>
     (\<exists>d. mc_mmio mc1 = [(0xd0000, MmioBlk (virtio_mmio_new d VIRTIO_BLK_IRQ))]) \<or>
     mc_mmio mc1 = [(0xd0010, MmioNet (virtio_mmio_new virtio_net_new VIRTIO_NET_IRQ))] \<or>
     (\<exists>d. mc_mmio mc1 = [(0xd0000, MmioBlk (virtio_mmio_new d VIRTIO_BLK_IRQ)),
        (0xd0010, MmioNet (virtio_mmio_new virtio_net_new VIRTIO_NET_IRQ))])"
    using assms(1)
    by (auto simp: arch_init_mmio_devices_def init_virtio_blk_def init_virtio_net_def then_op_def machine_new_def
        add_mmio_device_def mmio_page_def split: option.splits sum.splits prod.splits)
  moreover have "mc_mmio mc = mc_mmio mc1" "mc_irqs mc = mc_irqs mc1" "mc_uart mc = Some uart_new" "mc_kbd mc = Some i8042_new"
    using assms(2) by (auto simp: arch_init_io_devices_def Let_def split: option.splits sum.splits prod.splits)
  ultimately show ?thesis
    using new by (auto simp: machine_inv_def bus_ok_def bus_lines_def vio_irq_ok_def virtio_mmio_new_def)
qed

lemma arch_handle_io_inv:
  assumes h: "arch_handle_io E io (data, mc) = Some (Inr (), data', mc')" and inv: "machine_inv A mc"
  shows "machine_inv A mc'"
proof -
  obtain u k where u: "mc_uart mc = Some u" "uart_synced u (mc_irqs mc)" and k: "mc_kbd mc = Some k" "i8042_synced k (mc_irqs mc)"
    using inv by (auto simp: machine_inv_def)
  show ?thesis
  proof (cases "port_device (io_port io)")
    case DevUart
    with h u obtain u' out' log' where uh: "uart_handle (me_irq E) io (data, u, mc_out mc, mc_irqs mc) = (Inr (), data', u', out', log')"
        and mc': "mc' = mc\<lparr>mc_uart := Some u', mc_out := out', mc_irqs := log'\<rparr>"
      by (auto simp: arch_handle_io_def split: prod.splits)
    show ?thesis
      using machine_inv_uart [OF inv uart_handle_line [OF uh] uart_handle_synced [OF uh u(2)], of out'] by (simp add: mc')
  next
    case DevI8042
    with h k obtain k' c' log' where kh: "i8042_handle (me_irq E) io (data, k, mc_control mc, mc_irqs mc) = (Inr (), data', k', c', log')"
        and mc': "mc' = mc\<lparr>mc_kbd := Some k', mc_control := c', mc_irqs := log'\<rparr>"
      by (auto simp: arch_handle_io_def split: prod.splits)
    have "i8042_synced k' log'" using i8042_handle_synced [OF kh] k(2) by (simp add: i8042_synced_def)
    then show ?thesis
      using machine_inv_kbd [OF inv i8042_handle_line [OF kh], of k' c'] by (simp add: mc')
  next
    case DevVga
    with h inv show ?thesis by (fastforce simp: arch_handle_io_def machine_inv_def split: option.splits)
  next
    case DevUnknown
    with h inv show ?thesis by (auto simp: arch_handle_io_def)
  qed
qed

lemma machine_mmio_inv:
  assumes int: "virtio_mmio_int_vring (me_mmio E) \<noteq> 0"
    and h: "machine_mmio E (mmio, mc) = Some (Inr (), mmio', mc')" and inv: "machine_inv (me_mmio E) mc"
  shows "machine_inv (me_mmio E) mc'"
proof -
  obtain bus m out log where
    h': "handle_mmio (mmio_device_handle E (vm_regions (mc_mem mc))) (mmio, mc_mmio mc, mc_ram mc, mc_out mc, mc_irqs mc) =
      Some (Inr (), mmio', bus, m, out, log)"
    and mc': "mc' = mc\<lparr>mc_mmio := bus, mc_ram := m, mc_out := out, mc_irqs := log\<rparr>"
    using h by (auto simp: machine_mmio_def)
  show ?thesis unfolding mc'
    using x86_bus.handle_mmio_ok [OF h'] inv int by (intro machine_inv_bus) (auto simp: machine_inv_def)
qed

lemma machine_poll_inv:
  assumes int: "virtio_mmio_int_vring (me_mmio E) \<noteq> 0"
    and h: "machine_poll E mc = Some (Inr (), mc')" and inv: "machine_inv (me_mmio E) mc"
  shows "machine_inv (me_mmio E) mc'"
proof -
  obtain bus m out log where
    h': "poll_mmio_devices (mmio_device_poll E (vm_regions (mc_mem mc))) (mc_mmio mc, mc_ram mc, mc_out mc, mc_irqs mc) =
      Some (Inr (), bus, m, out, log)"
    and mc': "mc' = mc\<lparr>mc_mmio := bus, mc_ram := m, mc_out := out, mc_irqs := log\<rparr>"
    using h by (auto simp: machine_poll_def)
  show ?thesis unfolding mc'
    using x86_bus.poll_mmio_devices_ok [OF h'] inv int by (intro machine_inv_bus) (auto simp: machine_inv_def)
qed

lemma machine_reach_inv:
  assumes int: "virtio_mmio_int_vring (me_mmio E) \<noteq> 0" and "machine_reach E mc"
  shows "machine_inv (me_mmio E) mc"
  using assms(2)
proof (induction rule: machine_reach.induct)
  case (init disk tap m vm mc1 dirty ring mc)
  then show ?case by (rule machine_inv_init)
next
  case (port_exit mc io data data' mc')
  then show ?case using arch_handle_io_inv by blast
next
  case (mmio_exit mc mmio mmio' mc')
  then show ?case using machine_mmio_inv [OF int] by blast
next
  case (poll mc mc')
  then show ?case using machine_poll_inv [OF int] by blast
next
  case (key mc k down s k' log')
  then have "i8042_synced k' log'" using i8042_key_event_synced by (auto simp: machine_inv_def)
  then show ?case
    using machine_inv_kbd [OF key.IH i8042_key_event_line [OF key.hyps(3)], of k' "mc_control mc"] by simp
next
  case (char mc u ch u' log')
  then have "uart_synced u' log'" using uart_send_char_synced by (auto simp: machine_inv_def)
  then show ?case
    using machine_inv_uart [OF char.IH uart_send_char_line [OF char.hyps(3)], of u' "mc_out mc"] by simp
next
  case (receive mc page d f)
  then have bus: "bus_ok dev_irq (dev_ok (me_mmio E)) (mc_mmio mc) (mc_irqs mc)" by (simp add: machine_inv_def)
  then have "dev_ok (me_mmio E) d (mc_irqs mc)" using map_of_SomeD [OF receive.hyps(2)] by (fastforce simp: bus_ok_def)
  then show ?case
    using x86_bus.bus_ok_put [of E "mc_mmio mc" "mc_irqs mc" page d "mc_irqs mc" "dev_receive f d"] bus receive.hyps(2) int
      machine_inv_bus [OF receive.IH, where log' = "mc_irqs mc" and m = "mc_ram mc" and out = "mc_out mc"] by simp
qed (simp_all add: machine_inv_def)


definition demo_env :: machine_env where
  "demo_env = \<lparr>me_mmio = linux_mmio, me_vring = linux_vring, me_blk = linux_blk, me_net = linux_net,
     me_disk = (\<lambda>_ _. DiskOk), me_tap = (\<lambda>_ _. True), me_irq = (\<lambda>_ _ _. True), me_entries = 1, me_clk = (\<lambda>_. 0)\<rparr>"

definition demo_machine :: machine where
  "demo_machine = (machine_new (\<lambda>_ _. 0))\<lparr>mc_uart := Some uart_new, mc_kbd := Some i8042_new,
     mc_vga := Some (vga_new None False None)\<rparr>"

lemma demo_machine_reach: "machine_reach demo_env demo_machine"
proof (rule machine_reach.init)
  show "arch_init_mmio_devices None None ((machine_new (\<lambda>_ _. 0))\<lparr>mc_mem := \<lparr>vm_regions = [], vm_next_slot = 0, vm_calls = []\<rparr>\<rparr>) =
      (Inr (), machine_new (\<lambda>_ _. 0))"
    by (simp add: arch_init_mmio_devices_def init_virtio_blk_def init_virtio_net_def then_op_def machine_new_def)
  show "arch_init_io_devices (\<lambda>vm. (Inr (0, 0), vm)) (Inr None) (machine_new (\<lambda>_ _. 0)) = (Inr (), demo_machine)"
    by (simp add: arch_init_io_devices_def demo_machine_def machine_new_def gpa_to_host_def Let_def)
qed




end
