(* ===== verification/X86_Vcpu.thy ===== *)
theory X86_Vcpu
  imports Hearth_Prelude
begin

text \<open>
  The registers of an x86 vcpu and the calls that get and set them: \<open>src/src/arch/x86_64/vcpu.rs\<close> and
  the two setup functions of \<open>src/src/arch/x86_64/init.rs\<close>. The ioctls are the kernel's: whether one
  succeeds is an argument, a function of the calls before it. Printing is left out.
\<close>

section \<open>Registers\<close>

text \<open>The generated structs, without their padding.\<close>

record kvm_segment =
  sg_base :: u64
  sg_limit :: u32
  sg_selector :: u16
  sg_type :: u8
  sg_present :: u8
  sg_dpl :: u8
  sg_db :: u8
  sg_s :: u8
  sg_l :: u8
  sg_g :: u8
  sg_avl :: u8
  sg_unusable :: u8

record kvm_sregs2 =
  sr_cs :: kvm_segment
  sr_ds :: kvm_segment
  sr_es :: kvm_segment
  sr_fs :: kvm_segment
  sr_gs :: kvm_segment
  sr_ss :: kvm_segment
  sr_tr :: kvm_segment
  sr_ldt :: kvm_segment
  sr_gdt :: "u64 \<times> u16"
  sr_idt :: "u64 \<times> u16"
  sr_cr0 :: u64
  sr_cr2 :: u64
  sr_cr3 :: u64
  sr_cr4 :: u64
  sr_cr8 :: u64
  sr_efer :: u64
  sr_apic_base :: u64
  sr_flags :: u64
  sr_pdptrs :: "u64 list"

record kvm_regs =
  rg_rax :: u64
  rg_rbx :: u64
  rg_rcx :: u64
  rg_rdx :: u64
  rg_rsi :: u64
  rg_rdi :: u64
  rg_rsp :: u64
  rg_rbp :: u64
  rg_r8 :: u64
  rg_r9 :: u64
  rg_r10 :: u64
  rg_r11 :: u64
  rg_r12 :: u64
  rg_r13 :: u64
  rg_r14 :: u64
  rg_r15 :: u64
  rg_rip :: u64
  rg_rflags :: u64

section \<open>Calls\<close>

datatype vcpu_call = GetSregs | SetSregs kvm_sregs2 | GetRegs | SetRegs kvm_regs

type_synonym vcpu_env = "vcpu_call list \<Rightarrow> vcpu_call \<Rightarrow> bool"

record x86_vcpu =
  xv_regs :: kvm_regs
  xv_sregs2 :: kvm_sregs2
  xv_calls :: "vcpu_call list"

definition vcpu_ioctl :: "vcpu_env \<Rightarrow> vcpu_call \<Rightarrow> (x86_vcpu, unit) oper" where
  "vcpu_ioctl env call v =
     (if env (xv_calls v) call then (Inr (), v\<lparr>xv_calls := xv_calls v @ [call]\<rparr>)
      else (Inl (IoError OsError), v\<lparr>xv_calls := xv_calls v @ [call]\<rparr>))"

definition get_sregs2 :: "vcpu_env \<Rightarrow> (x86_vcpu, kvm_sregs2) oper" where
  "get_sregs2 env = then_op (vcpu_ioctl env GetSregs) (\<lambda>_ v. (Inr (xv_sregs2 v), v))"

definition set_sregs2 :: "vcpu_env \<Rightarrow> kvm_sregs2 \<Rightarrow> (x86_vcpu, unit) oper" where
  "set_sregs2 env s = then_op (vcpu_ioctl env (SetSregs s)) (\<lambda>_ v. (Inr (), v\<lparr>xv_sregs2 := s\<rparr>))"

definition get_regs :: "vcpu_env \<Rightarrow> (x86_vcpu, kvm_regs) oper" where
  "get_regs env = then_op (vcpu_ioctl env GetRegs) (\<lambda>_ v. (Inr (xv_regs v), v))"

definition set_regs :: "vcpu_env \<Rightarrow> kvm_regs \<Rightarrow> (x86_vcpu, unit) oper" where
  "set_regs env r = then_op (vcpu_ioctl env (SetRegs r)) (\<lambda>_ v. (Inr (), v\<lparr>xv_regs := r\<rparr>))"

text \<open>\<open>usize\<close> and \<open>u64\<close> have the same width.\<close>

definition set_ip :: "vcpu_env \<Rightarrow> u64 \<Rightarrow> (x86_vcpu, unit) oper" where
  "set_ip env ip = then_op (get_regs env) (\<lambda>r. set_regs env (r\<lparr>rg_rip := ip\<rparr>))"

definition get_ip :: "vcpu_env \<Rightarrow> (x86_vcpu, u64) oper" where
  "get_ip env = then_op (get_regs env) (\<lambda>r v. (Inr (rg_rip r), v))"

definition print_regs :: "vcpu_env \<Rightarrow> (x86_vcpu, unit) oper" where
  "print_regs env = then_op (get_regs env) (\<lambda>_. then_op (get_sregs2 env) (\<lambda>_ v. (Inr (), v)))"

section \<open>Protected mode\<close>

definition pm_code :: kvm_segment where
  "pm_code = \<lparr>sg_base = 0, sg_limit = 0xffffffff, sg_selector = push_bit 3 1, sg_type = 0b1010,
     sg_present = 1, sg_dpl = 0, sg_db = 1, sg_s = 1, sg_l = 0, sg_g = 1, sg_avl = 0, sg_unusable = 0\<rparr>"

definition pm_data :: kvm_segment where
  "pm_data = pm_code\<lparr>sg_selector := push_bit 3 2, sg_type := 0b0010\<rparr>"

definition pm_task :: kvm_segment where
  "pm_task = pm_code\<lparr>sg_base := 0, sg_limit := 0x67, sg_g := 0, sg_s := 0\<rparr>"

definition protected_mode_setup :: "vcpu_env \<Rightarrow> (x86_vcpu, unit) oper" where
  "protected_mode_setup env =
     then_op (get_sregs2 env) (\<lambda>s. set_sregs2 env
       (s\<lparr>sr_cs := pm_code, sr_ds := pm_data, sr_es := pm_data, sr_fs := pm_data, sr_gs := pm_data,
          sr_ss := pm_data, sr_tr := pm_task, sr_cr0 := 0x1, sr_cr4 := 0x0\<rparr>))"

section \<open>Setup\<close>

text \<open>The two calls that create the interrupt chips and the timer.\<close>

definition arch_pre_vcpu_init :: "bool \<Rightarrow> bool \<Rightarrow> unit res" where
  "arch_pre_vcpu_init irqchip pit =
     (if \<not> irqchip then Inl (IoError OsError) else if \<not> pit then Inl (IoError OsError) else Inr ())"

text \<open>The CPUID of the host is passed to the vcpu; the code segment starts at 0.\<close>

definition arch_init :: "bool \<Rightarrow> bool \<Rightarrow> vcpu_env \<Rightarrow> (x86_vcpu, unit) oper" where
  "arch_init supported set_cpuid env v =
     (if \<not> supported then (Inl (IoError OsError), v)
      else if \<not> set_cpuid then (Inl (IoError OsError), v)
      else then_op (get_sregs2 env) (\<lambda>s. set_sregs2 env
        (s\<lparr>sr_cs := (sr_cs s)\<lparr>sg_base := 0, sg_selector := 0\<rparr>\<rparr>)) v)"

lemmas vcpu_call_defs = vcpu_ioctl_def get_sregs2_def set_sregs2_def get_regs_def set_regs_def then_op_def

lemma protected_mode_setup_ok:
  assumes "protected_mode_setup env v = (Inr (), v')"
  shows "xv_regs v' = xv_regs v \<and> sr_cr0 (xv_sregs2 v') = 1 \<and> sr_cr4 (xv_sregs2 v') = 0 \<and>
    sr_cs (xv_sregs2 v') = pm_code \<and> sr_tr (xv_sregs2 v') = pm_task \<and>
    (\<forall>seg\<in>{sr_ds, sr_es, sr_fs, sr_gs, sr_ss}. seg (xv_sregs2 v') = pm_data)"
  using assms by (auto simp: protected_mode_setup_def vcpu_call_defs split: if_splits)

lemma set_get_ip:
  assumes "set_ip env ip v = (Inr (), v')" and "get_ip env v' = (Inr ip', v'')"
  shows "ip' = ip"
  using assms by (auto simp: set_ip_def get_ip_def vcpu_call_defs split: if_splits)

end
