(* ===== verification/Cli_Args.thy ===== *)
theory Cli_Args
  imports Hearth_Prelude
begin

text \<open>
  The command line of \<open>src/src/main.rs\<close>: the parsed options (the parser itself is the \<open>clap\<close> crate's)
  and \<open>parse_mem_size\<close>. Strings are their UTF-8 bytes; a byte below 128 is a character of its own.
\<close>

section \<open>Numbers as text\<close>

text \<open>The decimal digits of a number, as \<open>format!\<close> prints them, and hexadecimal ones in lower case.\<close>

fun dec_digits :: "nat \<Rightarrow> u8 list" where
  "dec_digits n = (if n < 10 then [word_of_nat (48 + n)]
     else dec_digits (n div 10) @ [word_of_nat (48 + n mod 10)])"

definition hex_digit :: "nat \<Rightarrow> u8" where
  "hex_digit d = word_of_nat (if d < 10 then 48 + d else 87 + d)"

fun hex_digits :: "nat \<Rightarrow> u8 list" where
  "hex_digits n = (if n < 16 then [hex_digit n] else hex_digits (n div 16) @ [hex_digit (n mod 16)])"

declare dec_digits.simps [simp del] hex_digits.simps [simp del]

text \<open>A literal of the source, which is ASCII.\<close>

definition str_bytes :: "string \<Rightarrow> u8 list" where
  "str_bytes s = map (\<lambda>c. word_of_nat (of_char c)) s"

text \<open>\<open>str::parse::<usize>\<close>: digits only, after at most one plus sign; at least one; no overflow.\<close>

fun parse_digits :: "u64 \<Rightarrow> u8 list \<Rightarrow> u64 option" where
  "parse_digits acc [] = Some acc"
| "parse_digits acc (b # bs) =
     (if 48 \<le> b \<and> b \<le> 57 then
        (case checked_mul acc 10 of
           None \<Rightarrow> None
         | Some x \<Rightarrow> (case checked_add x (ucast (b - 48)) of None \<Rightarrow> None | Some y \<Rightarrow> parse_digits y bs))
      else None)"

definition parse_usize :: "u8 list \<Rightarrow> u64 option" where
  "parse_usize bs =
     (case bs of
        [] \<Rightarrow> None
      | b # rest \<Rightarrow> if b = 43 then (if rest = [] then None else parse_digits 0 rest) else parse_digits 0 bs)"

section \<open>Options\<close>

record args =
  ar_binary :: "u8 list option"
  ar_linux :: "u8 list option"
  ar_memory :: "u64 option"
  ar_load_addr :: u64
  ar_dtb :: "u8 list option"
  ar_initramfs :: "u8 list option"
  ar_disk :: "u8 list option"
  ar_tap :: "u8 list option"
  ar_append :: "u8 list option"
  ar_vnc :: "u8 list option"

section \<open>The memory size\<close>

definition is_ascii_alphabetic :: "u8 \<Rightarrow> bool" where
  "is_ascii_alphabetic b \<longleftrightarrow> 65 \<le> b \<and> b \<le> 90 \<or> 97 \<le> b \<and> b \<le> 122"

definition to_ascii_uppercase :: "u8 \<Rightarrow> u8" where
  "to_ascii_uppercase b = (if 97 \<le> b \<and> b \<le> 122 then b - 32 else b)"

datatype size_error = UnknownSuffix u8 | BadNumber | InvalidSize

text \<open>The size of a number and a shift, when there is one.\<close>

definition size_of :: "nat \<Rightarrow> u64 \<Rightarrow> size_error + u64" where
  "size_of k n = (case checked_mul n (push_bit k 1) of
     Some sz \<Rightarrow> if 0 < sz then Inr sz else Inl InvalidSize | None \<Rightarrow> Inl InvalidSize)"

definition parse_mem_size :: "u8 list \<Rightarrow> size_error + u64" where
  "parse_mem_size arg =
     (let (num, u) = (if arg \<noteq> [] \<and> is_ascii_alphabetic (last arg)
                      then (butlast arg, to_ascii_uppercase (last arg)) else (arg, 75));
          shift = (if u = 75 then Some 10 else if u = 77 then Some 20 else if u = 71 then Some (30 :: nat) else None)
      in case shift of
           None \<Rightarrow> Inl (UnknownSuffix u)
         | Some k \<Rightarrow>
             (case parse_usize num of
                None \<Rightarrow> Inl BadNumber
              | Some n \<Rightarrow> size_of k n))"

section \<open>Printing and parsing\<close>

lemma digit_byte:
  assumes "d < 10"
  shows "48 \<le> (word_of_nat (48 + d) :: u8)" "(word_of_nat (48 + d) :: u8) \<le> 57"
    "ucast ((word_of_nat (48 + d) :: u8) - 48) = (word_of_nat d :: u64)"
    "\<not> is_ascii_alphabetic (word_of_nat (48 + d))" "(word_of_nat (48 + d) :: u8) \<noteq> 43"
proof -
  have d: "d \<in> {0, 1, 2, 3, 4, 5, 6, 7, 8, 9}" using assms by auto
  show "48 \<le> (word_of_nat (48 + d) :: u8)" "(word_of_nat (48 + d) :: u8) \<le> 57"
    "ucast ((word_of_nat (48 + d) :: u8) - 48) = (word_of_nat d :: u64)"
    "\<not> is_ascii_alphabetic (word_of_nat (48 + d))" "(word_of_nat (48 + d) :: u8) \<noteq> 43"
    using d by (auto simp: is_ascii_alphabetic_def)
qed

lemma parse_digits_append:
  "parse_digits acc (xs @ ys) = Option.bind (parse_digits acc xs) (\<lambda>a. parse_digits a ys)"
  by (induction acc xs rule: parse_digits.induct) (auto split: option.splits)

lemma dec_digits_induct:
  assumes "\<And>n. n < 10 \<Longrightarrow> P n" and "\<And>n. 10 \<le> n \<Longrightarrow> P (n div 10) \<Longrightarrow> P n"
  shows "P (n :: nat)"
  using assms by (induction n rule: less_induct) (metis div_less_dividend not_le one_less_numeral_iff
      semiring_norm(76) zero_less_iff_neq_zero not_less_zero le_zero_eq zero_neq_numeral)

lemma parse_dec_digits:
  "n < 2 ^ 64 \<Longrightarrow> parse_digits 0 (dec_digits n) = Some (word_of_nat n)"
proof (induction n rule: dec_digits_induct)
  case (1 n)
  then show ?case using digit_byte [of n] unsigned_less [of "word_of_nat n :: u64", where 'a = nat]
    by (simp add: dec_digits.simps checked_mul_def checked_add_def)
next
  case (2 n)
  have b: "n div 10 * 10 + n mod 10 < 2 ^ 64" using 2(3) by simp
  have u: "unat (word_of_nat (n div 10) :: u64) = n div 10" "unat (word_of_nat (n mod 10) :: u64) = n mod 10"
    using 2(3) by (simp_all add: unsigned_of_nat take_bit_nat_eq_self)
  have "parse_digits 0 (dec_digits n) =
      Option.bind (parse_digits 0 (dec_digits (n div 10))) (\<lambda>a. parse_digits a [word_of_nat (48 + n mod 10)])"
    using 2(1) by (subst dec_digits.simps) (simp add: parse_digits_append)
  also have "\<dots> = parse_digits (word_of_nat (n div 10)) [word_of_nat (48 + n mod 10)]"
    using 2(2,3) by simp
  also have "\<dots> = Some (word_of_nat (n div 10) * 10 + word_of_nat (n mod 10))"
    using digit_byte [of "n mod 10"] u b by (simp add: checked_mul_def checked_add_def unat_word_ariths)
  also have "(word_of_nat (n div 10) * 10 + word_of_nat (n mod 10) :: u64) = word_of_nat n"
    by (metis div_mult_mod_eq of_nat_add of_nat_mult of_nat_numeral)
  finally show ?case .
qed

lemma dec_digits_last: "dec_digits n \<noteq> [] \<and> \<not> is_ascii_alphabetic (last (dec_digits n))"
  by (cases "n < 10") (use digit_byte(4) in \<open>simp_all add: dec_digits.simps [of n] del: of_nat_add\<close>)

lemma dec_digits_hd: "hd (dec_digits n) \<noteq> 43"
proof (induction n rule: dec_digits_induct)
  case (1 n) then show ?case using digit_byte(5) [of n] by (subst dec_digits.simps) simp
next
  case (2 n)
  then show ?case using dec_digits_last [of "n div 10"] by (subst dec_digits.simps) simp
qed

lemma parse_usize_dec: "n < 2 ^ 64 \<Longrightarrow> parse_usize (dec_digits n) = Some (word_of_nat n)"
  using parse_dec_digits [of n] dec_digits_last [of n] dec_digits_hd [of n]
  by (auto simp: parse_usize_def split: list.splits)

lemma parse_usize_bound: "parse_usize bs = Some n \<Longrightarrow> unat n < 2 ^ 64"
  using unsigned_less [of n, where 'a = nat] by simp

definition unit_shift :: "u8 \<Rightarrow> nat option" where
  "unit_shift u = (if u \<in> {75, 107} then Some 10 else if u \<in> {77, 109} then Some 20
     else if u \<in> {71, 103} then Some 30 else None)"

lemma unat_shift:
  assumes "k \<in> {10, 20, 30}" shows "unat (push_bit k (1 :: u64)) = 2 ^ k"
  using assms by auto

lemma unit_shift_eqs:
  assumes "is_ascii_alphabetic u"
  shows "(if to_ascii_uppercase u = 75 then Some 10 else if to_ascii_uppercase u = 77 then Some 20
     else if to_ascii_uppercase u = 71 then Some (30 :: nat) else None) = unit_shift u"
  using assms by (auto simp: to_ascii_uppercase_def unit_shift_def is_ascii_alphabetic_def diff_eq_eq)

lemma unit_shift_alphabetic: "unit_shift u = Some k \<Longrightarrow> is_ascii_alphabetic u \<and> k \<in> {10, 20, 30}"
  by (auto simp: unit_shift_def is_ascii_alphabetic_def split: if_splits)

lemma parse_mem_size_suffix:
  assumes "unit_shift u = Some k"
  shows "parse_mem_size (num @ [u]) = (case parse_usize num of None \<Rightarrow> Inl BadNumber | Some n \<Rightarrow> size_of k n)"
  using assms unit_shift_alphabetic [OF assms] unit_shift_eqs [of u]
  by (simp add: parse_mem_size_def)

lemma parse_mem_size_plain:
  assumes "num = [] \<or> \<not> is_ascii_alphabetic (last num)"
  shows "parse_mem_size num = (case parse_usize num of None \<Rightarrow> Inl BadNumber | Some n \<Rightarrow> size_of 10 n)"
  using assms by (auto simp: parse_mem_size_def)

lemma size_of_nat:
  assumes "n < 2 ^ 64" "k \<in> {10, 20, 30}"
  shows "size_of k (word_of_nat n) =
    (if 0 < n \<and> n * 2 ^ k < 2 ^ 64 then Inr (word_of_nat (n * 2 ^ k)) else Inl InvalidSize)"
proof -
  have n: "unat (word_of_nat n :: u64) = n"
    using assms(1) by (simp add: unsigned_of_nat take_bit_nat_eq_self)
  have m: "word_of_nat n * push_bit k 1 = (word_of_nat (n * 2 ^ k) :: u64)"
    by (simp add: push_bit_eq_mult)
  show ?thesis
  proof (cases "n * 2 ^ k < 2 ^ 64")
    case True
    then have "unat (word_of_nat (n * 2 ^ k) :: u64) = n * 2 ^ k"
      by (simp add: unsigned_of_nat take_bit_nat_eq_self del: of_nat_mult)
    then have "0 < (word_of_nat (n * 2 ^ k) :: u64) \<longleftrightarrow> 0 < n"
      by (simp only: word_less_nat_alt unat_0) simp
    then show ?thesis using True by (simp only: size_of_def checked_mul_def n unat_shift [OF assms(2)] m) simp
  next
    case False
    then show ?thesis by (simp only: size_of_def checked_mul_def n unat_shift [OF assms(2)]) simp
  qed
qed

lemma size_of_bounds:
  assumes "size_of k n = Inr sz" "k \<in> {10, 20, 30}"
  shows "0 < sz \<and> 1024 dvd unat sz"
proof -
  have "0 < sz" "unat sz = unat n * 2 ^ k"
    using assms(1) unat_shift [OF assms(2)]
    by (auto simp: size_of_def checked_mul_def unat_mult_lem [THEN iffD1] split: if_splits option.splits)
  moreover have "(1024 :: nat) dvd 2 ^ k" using assms(2) by auto
  ultimately show ?thesis by simp
qed

text \<open>
  The memory option means what its documentation says: a decimal number with a suffix K, M or G
  in either case, or with none for kilobytes, gives that many bytes whenever they fit in 64 bits and
  are not zero, and is refused otherwise; and whatever is accepted is a positive number of whole
  kilobytes.
\<close>

theorem parse_mem_size_correct:
  assumes "n < 2 ^ 64" and "unit_shift u = Some k"
  shows "parse_mem_size (dec_digits n @ [u]) =
      (if 0 < n \<and> n * 2 ^ k < 2 ^ 64 then Inr (word_of_nat (n * 2 ^ k)) else Inl InvalidSize)
    \<and> parse_mem_size (dec_digits n) =
      (if 0 < n \<and> n * 1024 < 2 ^ 64 then Inr (word_of_nat (n * 1024)) else Inl InvalidSize)
    \<and> (\<forall>arg sz. parse_mem_size arg = Inr sz \<longrightarrow> 0 < sz \<and> 1024 dvd unat sz)"
proof (intro conjI allI impI)
  have k: "k \<in> {10, 20, 30}" using unit_shift_alphabetic [OF assms(2)] by simp
  show "parse_mem_size (dec_digits n @ [u]) =
      (if 0 < n \<and> n * 2 ^ k < 2 ^ 64 then Inr (word_of_nat (n * 2 ^ k)) else Inl InvalidSize)"
    using parse_mem_size_suffix [OF assms(2)] parse_usize_dec [OF assms(1)] size_of_nat [OF assms(1) k] by simp
  show "parse_mem_size (dec_digits n) =
      (if 0 < n \<and> n * 1024 < 2 ^ 64 then Inr (word_of_nat (n * 1024)) else Inl InvalidSize)"
    using parse_mem_size_plain [of "dec_digits n"] parse_usize_dec [OF assms(1)] size_of_nat [OF assms(1), of 10]
      dec_digits_last [of n] by simp
next
  fix arg sz assume p: "parse_mem_size arg = Inr sz"
  have "\<exists>k n. k \<in> {10, 20, 30} \<and> size_of k n = Inr sz"
    using p unfolding parse_mem_size_def Let_def
    by (auto split: if_splits option.splits prod.splits)
  then show "0 < sz" "1024 dvd unat sz" using size_of_bounds by blast+
qed

theorem parse_mem_size_correct_witness:
  "parse_mem_size [50, 48, 52, 56, 109] = Inr 0x80000000"
proof -
  have d: "dec_digits 2048 = [50, 48, 52, 56]" by (simp add: dec_digits.simps)
  have "unit_shift 109 = Some 20" by (simp add: unit_shift_def)
  from parse_mem_size_correct [of 2048 109 20, OF _ this] show ?thesis unfolding d by simp
qed

end
