(* ===== verification/Pvh_Boot.thy ===== *)
theory Pvh_Boot
  imports X86_Vcpu Guest_Memory Util_Binary Cli_Args
begin

text \<open>
  Booting a PVH kernel: \<open>linux_pvh_boot\<close> of \<open>src/src/arch/x86_64/init.rs\<close> and \<open>load_elf\<close> of
  \<open>src/src/util/elf.rs\<close>. The ELF file is read by the \<open>object\<close> crate: its notes and program headers,
  as parsed, and the outcome of parsing are arguments, and so are the files read and the mappings
  made. What is proved is what the guest finds in its memory and registers when it starts.
\<close>

section \<open>The ELF file\<close>

record elf_segment =
  ph_type :: u32
  ph_offset :: u64
  ph_filesz :: u64
  ph_paddr :: u64
  ph_memsz :: u64

record elf_note =
  note_type :: u32
  note_desc :: "u8 list"

text \<open>
  What looking for the section \<open>.notes\<close> and reading its notes gives: a note of \<open>None\<close> is one the
  iterator fails on.
\<close>

datatype elf_notes = NoNotesSection | NotesUnreadable | Notes "elf_note option list"

record elf_file =
  elf_data :: "u8 list"
  elf_notes :: elf_notes
  elf_segments :: "elf_segment list"

fun pvh_entry :: "elf_note option list \<Rightarrow> u64 res" where
  "pvh_entry [] = Inl (IoError Other)"
| "pvh_entry (None # rest) = Inl (Panicked UnwrapNone)"
| "pvh_entry (Some n # rest) =
     (if note_type n = 18 then
        (if length (note_desc n) = 4 then try_res (read_le32 (note_desc n) 0) (\<lambda>x. Inr (ucast x))
         else if length (note_desc n) = 8 then read_le64 (note_desc n) 0
         else Inl (IoError Other))
      else pvh_entry rest)"

definition try_pvh_entrypoint :: "elf_file \<Rightarrow> u64 res" where
  "try_pvh_entrypoint elf =
     (case elf_notes elf of
        NoNotesSection \<Rightarrow> Inl (IoError Other)
      | NotesUnreadable \<Rightarrow> Inl (Panicked UnwrapNone)
      | Notes ns \<Rightarrow> pvh_entry ns)"

text \<open>\<open>load_elf\<close>; \<open>pt_load\<close> is the crate's constant. A slice of the file out of range panics.\<close>

fun load_segments :: "u32 \<Rightarrow> guest_memory \<Rightarrow> nat \<Rightarrow> u8 list \<Rightarrow> elf_segment list \<Rightarrow> u64 \<Rightarrow> (ram, u64) oper" where
  "load_segments pt_load mem idx data [] last_addr m = (Inr last_addr, m)"
| "load_segments pt_load mem idx data (ph # phs) last_addr m =
     (if ph_type ph \<noteq> pt_load then load_segments pt_load mem idx data phs last_addr m
      else case try_res (add_ov (ph_offset ph) (ph_filesz ph)) (\<lambda>elf_end.
                try_res (add_ov (ph_paddr ph) (ph_memsz ph)) (\<lambda>mem_end.
                try_res (slice_at data (unat (ph_offset ph)) (unat (ph_filesz ph))) (\<lambda>bytes.
                  Inr (mem_end, bytes)))) of
             Inl e \<Rightarrow> (Inl e, m)
           | Inr (mem_end, bytes) \<Rightarrow>
               then_op (load_data_to_memory mem idx bytes (ph_paddr ph))
                 (\<lambda>_. load_segments pt_load mem idx data phs (if last_addr < mem_end then mem_end else last_addr)) m)"

definition load_elf :: "u32 \<Rightarrow> guest_memory \<Rightarrow> elf_file \<Rightarrow> nat \<Rightarrow> (ram, u64) oper" where
  "load_elf pt_load mem elf idx = load_segments pt_load mem idx (elf_data elf) (elf_segments elf) 0"

section \<open>The structures passed to the guest\<close>

record hvm_start_info =
  si_magic :: u32
  si_version :: u32
  si_flags :: u32
  si_nr_modules :: u32
  si_modlist_paddr :: u64
  si_cmdline_paddr :: u64
  si_rsdp_paddr :: u64
  si_memmap_paddr :: u64
  si_memmap_entries :: u32
  si_reserved :: u32

record hvm_modlist_entry =
  ml_paddr :: u64
  ml_size :: u64
  ml_cmdline_paddr :: u64
  ml_reserved :: u64

record hvm_memmap_entry =
  mm_addr :: u64
  mm_size :: u64
  mm_type :: u32
  mm_reserved :: u32

text \<open>
  Their bytes: the entries field by field, as the code does; the start info as \<open>#[repr(C)]\<close> lays it
  out on a little-endian machine, where no field needs padding.
\<close>

definition memmap_bytes :: "hvm_memmap_entry \<Rightarrow> u8 list" where
  "memmap_bytes e = to_le64 (mm_addr e) @ to_le64 (mm_size e) @ to_le32 (mm_type e) @ to_le32 (mm_reserved e)"

definition modlist_bytes :: "hvm_modlist_entry \<Rightarrow> u8 list" where
  "modlist_bytes e = to_le64 (ml_paddr e) @ to_le64 (ml_size e) @ to_le64 (ml_cmdline_paddr e) @ to_le64 (ml_reserved e)"

definition start_info_bytes :: "hvm_start_info \<Rightarrow> u8 list" where
  "start_info_bytes s =
     to_le32 (si_magic s) @ to_le32 (si_version s) @ to_le32 (si_flags s) @ to_le32 (si_nr_modules s) @
     to_le64 (si_modlist_paddr s) @ to_le64 (si_cmdline_paddr s) @ to_le64 (si_rsdp_paddr s) @
     to_le64 (si_memmap_paddr s) @ to_le32 (si_memmap_entries s) @ to_le32 (si_reserved s)"

section \<open>Memory\<close>

abbreviation (input) EBDA_START :: u64 where "EBDA_START \<equiv> 0x9fc00"
abbreviation (input) HIMEM_START :: u64 where "HIMEM_START \<equiv> 0x100000"
abbreviation (input) MMIO_START :: u64 where "MMIO_START \<equiv> 0xc0000000"
abbreviation (input) HIGH_RAM_START :: u64 where "HIGH_RAM_START \<equiv> 0x100000000"
abbreviation (input) HVM_BASE :: u64 where "HVM_BASE \<equiv> 0x10000"

text \<open>\<open>map\<close> gives the outcome of the mapping of each region.\<close>

definition add_ram :: "region_env \<Rightarrow> (nat \<Rightarrow> u64 option) \<Rightarrow> u64 \<Rightarrow> (vm_mem, nat) oper" where
  "add_ram env mapped ram_size =
     then_op (add_mem_region env (mapped 0) (unat (min ram_size MMIO_START)) 0x0)
       (\<lambda>idx. if MMIO_START < ram_size
               then then_op (add_mem_region env (mapped 1) (unat (ram_size - MMIO_START)) HIGH_RAM_START)
                      (\<lambda>_ vm. (Inr idx, vm))
               else (\<lambda>vm. (Inr idx, vm)))"

definition memmap_of :: "u64 \<Rightarrow> hvm_memmap_entry list res" where
  "memmap_of ram_size =
     try_res (sub_ov (min ram_size MMIO_START) HIMEM_START) (\<lambda>himem. Inr (
       [\<lparr>mm_addr = 0x0, mm_size = EBDA_START, mm_type = 1, mm_reserved = 0\<rparr>,
        \<lparr>mm_addr = EBDA_START, mm_size = HIMEM_START - EBDA_START, mm_type = 2, mm_reserved = 0\<rparr>,
        \<lparr>mm_addr = HIMEM_START, mm_size = himem, mm_type = 1, mm_reserved = 0\<rparr>] @
       (if MMIO_START < ram_size
        then [\<lparr>mm_addr = HIGH_RAM_START, mm_size = ram_size - MMIO_START, mm_type = 1, mm_reserved = 0\<rparr>]
        else [])))"

section \<open>The boot\<close>

text \<open>\<open>(x + 0xfff) & !0xfff\<close>, with the sum checked.\<close>

definition page_up :: "u64 \<Rightarrow> u64 res" where
  "page_up x = try_res (add_ov x 0xfff) (\<lambda>y. Inr (y AND NOT 0xfff))"

definition pvh_cmdline :: "u8 list option \<Rightarrow> u8 list" where
  "pvh_cmdline extra =
     (let dev = (\<lambda>addr irq. str_bytes ''virtio_mmio.device=4K@0x'' @ hex_digits (unat addr) @ str_bytes '':'' @ dec_digits (unat irq));
          cmdline = str_bytes ''console=ttyS0,115200 root=/dev/vda '' @ dev (0xd0000000 :: u64) (5 :: u32) @
            str_bytes '' '' @ dev 0xd0010000 6
      in case extra of None \<Rightarrow> cmdline | Some a \<Rightarrow> cmdline @ str_bytes '' '' @ a)"

text \<open>
  The module: its file name with a zero at a page after the kernel, the file at the page after that.
  A failing load of the file panics.
\<close>

definition load_module ::
    "guest_memory \<Rightarrow> nat \<Rightarrow> u64 \<Rightarrow> (u8 list \<times> u8 list res) option \<Rightarrow> (ram, hvm_modlist_entry list) oper" where
  "load_module mem idx last_addr initramfs m =
     (case initramfs of
        None \<Rightarrow> (Inr [], m)
      | Some (name, file) \<Rightarrow>
          (let text = name @ [0]
           in case page_up last_addr of
                Inl e \<Rightarrow> (Inl e, m)
              | Inr name_start \<Rightarrow>
                  then_op (load_data_to_memory mem idx text name_start) (\<lambda>_ m.
                    case try_res (add_ov (word_of_nat (length text)) name_start) page_up of
                      Inl e \<Rightarrow> (Inl e, m)
                    | Inr start \<Rightarrow>
                        (case load_file_to_memory mem idx file start m of
                           (Inl e, m) \<Rightarrow> (unwrap_res (Inl e), m)
                         | (Inr n, m) \<Rightarrow>
                             (Inr [\<lparr>ml_paddr = start, ml_size = word_of_nat n, ml_cmdline_paddr = name_start,
                                ml_reserved = 0\<rparr>], m))) m))"

text \<open>\<open>start + size\<close> up to a page, where the next table goes.\<close>

definition next_table :: "u64 \<Rightarrow> nat \<Rightarrow> u64 res" where
  "next_table start n = try_res (add_ov start (word_of_nat n)) page_up"

definition start_info_of :: "nat \<Rightarrow> nat \<Rightarrow> u64 \<Rightarrow> u64 \<Rightarrow> u64 \<Rightarrow> hvm_start_info" where
  "start_info_of nmods nmaps modlist cmdline memmap =
     \<lparr>si_magic = from_le32 [0x78, 0x45 OR 0x80, 0x6e, 0x33], si_version = 1, si_flags = 0,
      si_nr_modules = word_of_nat nmods, si_modlist_paddr = modlist, si_cmdline_paddr = cmdline,
      si_rsdp_paddr = 0, si_memmap_paddr = memmap, si_memmap_entries = word_of_nat nmaps, si_reserved = 0\<rparr>"

text \<open>From the command line on: the tables, each on the page after the one before.\<close>

definition write_tables ::
    "guest_memory \<Rightarrow> nat \<Rightarrow> u8 list \<Rightarrow> hvm_memmap_entry list \<Rightarrow> hvm_modlist_entry list \<Rightarrow> (ram, unit) oper" where
  "write_tables mem idx cmdline maps mods m =
     (case next_table HVM_BASE 56 of
        Inl e \<Rightarrow> (Inl e, m)
      | Inr cmdline_start \<Rightarrow>
          then_op (load_data_to_memory mem idx cmdline cmdline_start) (\<lambda>_ m.
          case next_table cmdline_start (length cmdline) of
            Inl e \<Rightarrow> (Inl e, m)
          | Inr memmap_start \<Rightarrow>
              then_op (load_data_to_memory mem idx (concat (map memmap_bytes maps)) memmap_start) (\<lambda>_ m.
              case next_table memmap_start (length maps * 24) of
                Inl e \<Rightarrow> (Inl e, m)
              | Inr modlist_start \<Rightarrow>
                  then_op (load_data_to_memory mem idx (concat (map modlist_bytes mods)) modlist_start) (\<lambda>_.
                  then_op (load_data_to_memory mem idx (start_info_bytes
                      (start_info_of (length mods) (length maps) modlist_start cmdline_start memmap_start)) HVM_BASE)
                    (\<lambda>_ m. (Inr (), m))) m) m) m)"

definition boot_regs :: "vcpu_env \<Rightarrow> u64 \<Rightarrow> (x86_vcpu, unit) oper" where
  "boot_regs env entry =
     then_op (get_regs env) (\<lambda>r.
       then_op (set_regs env (r\<lparr>rg_rip := entry, rg_rbx := HVM_BASE, rg_rflags := 0x2\<rparr>))
         (\<lambda>_. protected_mode_setup env))"

record pvh_env =
  pe_region :: region_env
  pe_mapped :: "nat \<Rightarrow> u64 option"
  pe_pt_load :: u32
  pe_vcpu :: vcpu_env

text \<open>
  \<open>linux\<close> is the outcome of reading and parsing the kernel, \<open>initramfs\<close> the module's name and the
  outcome of reading it.
\<close>

definition linux_pvh_boot ::
    "pvh_env \<Rightarrow> elf_file res \<Rightarrow> args \<Rightarrow> (u8 list \<times> u8 list res) option \<Rightarrow> (vm_mem \<times> ram \<times> x86_vcpu, unit) oper" where
  "linux_pvh_boot E linux args initramfs = (\<lambda>(vm, m, vcpu).
     case try_res linux (\<lambda>elf. try_res (try_pvh_entrypoint elf) (\<lambda>entry. Inr (elf, entry))) of
       Inl e \<Rightarrow> (Inl e, vm, m, vcpu)
     | Inr (elf, entry) \<Rightarrow>
         (let ram_size = (case ar_memory args of None \<Rightarrow> 0x40000000 | Some s \<Rightarrow> s)
          in case add_ram (pe_region E) (pe_mapped E) ram_size vm of
               (Inl e, vm) \<Rightarrow> (Inl e, vm, m, vcpu)
             | (Inr idx, vm) \<Rightarrow>
                 (let mem = vm_regions vm
                  in case then_op (load_elf (pe_pt_load E) mem elf idx) (\<lambda>last_addr.
                            then_op (load_module mem idx last_addr initramfs) (\<lambda>mods m.
                              case memmap_of ram_size of
                                Inl e \<Rightarrow> (Inl e, m)
                              | Inr maps \<Rightarrow> write_tables mem idx (pvh_cmdline (ar_append args)) maps mods m)) m of
                       (Inl e, m) \<Rightarrow> (Inl e, vm, m, vcpu)
                     | (Inr _, m) \<Rightarrow>
                         (case boot_regs (pe_vcpu E) entry vcpu of (r, vcpu) \<Rightarrow> (r, vm, m, vcpu)))))"

section \<open>Pages\<close>

lemma page_up_ok:
  assumes "page_up x = Inr y"
  shows "unat x \<le> unat y" "unat y < unat x + 4096" "4096 dvd unat y"
proof -
  from assms have y: "y = (x + 0xfff) AND NOT 0xfff" and b: "unat x + 4095 < 2 ^ 64"
    by (auto simp: page_up_def checked_add_def overflow_panic_def res_simps split: if_splits)
  have "unat (x + 0xfff) = unat x + 4095" using b by (simp add: unat_add_no_overflow)
  then have "unat y = (unat x + 4095) div 4096 * 4096" using and_not_page [of "x + 0xfff"] by (simp add: y)
  then show "unat x \<le> unat y" "unat y < unat x + 4096" "4096 dvd unat y" by (linarith, linarith, simp)
qed

lemma next_table_ok:
  assumes "next_table start n = Inr y" and "n < 2 ^ 64"
  shows "unat start + n \<le> unat y" "unat y < unat start + n + 4096" "4096 dvd unat y"
proof -
  have n: "unat (word_of_nat n :: u64) = n" using assms(2) by (simp add: unsigned_of_nat take_bit_nat_eq_self)
  obtain z where z: "checked_add start (word_of_nat n) = Some z" and y: "page_up z = Inr y"
    using assms(1) by (auto simp: next_table_def res_simps)
  have "unat z = unat start + n" using z n by (auto simp: checked_add_def unat_add_no_overflow split: if_splits)
  with page_up_ok [OF y] show "unat start + n \<le> unat y" "unat y < unat start + n + 4096" "4096 dvd unat y"
    by simp_all
qed

section \<open>Loading\<close>

lemma length_tables [simp]:
  "length (memmap_bytes e) = 24" "length (modlist_bytes l) = 32" "length (start_info_bytes s) = 56"
  by (simp_all add: memmap_bytes_def modlist_bytes_def start_info_bytes_def)

lemma length_concat_tables [simp]:
  "length (concat (map memmap_bytes es)) = length es * 24" "length (concat (map modlist_bytes ls)) = length ls * 32"
  by (induction es; simp) (induction ls; simp)

lemma memmap_first: "mm_addr e = 0 \<Longrightarrow> (memmap_bytes e @ bs) ! 0 = 0"
proof -
  have "to_le64 0 = 0 # replicate 7 0" by code_simp
  then show "mm_addr e = 0 \<Longrightarrow> (memmap_bytes e @ bs) ! 0 = 0" by (simp add: memmap_bytes_def)
qed

text \<open>What \<open>write_tables\<close> leaves in RAM.\<close>

definition tables_at :: "nat \<Rightarrow> ram \<Rightarrow> u8 list \<Rightarrow> hvm_memmap_entry list \<Rightarrow> hvm_modlist_entry list \<Rightarrow> hvm_start_info \<Rightarrow> bool" where
  "tables_at idx m cmdline maps mods info \<longleftrightarrow>
     ram_read m (idx, 0x10000) 56 = start_info_bytes info \<and>
     si_magic info = 0x336ec578 \<and> si_version info = 1 \<and>
     unat (si_nr_modules info) = length mods \<and> unat (si_memmap_entries info) = length maps \<and>
     ram_read m (idx, unat (si_cmdline_paddr info)) (length cmdline + 1) = cmdline @ [0] \<and>
     ram_read m (idx, unat (si_memmap_paddr info)) (length maps * 24) = concat (map memmap_bytes maps) \<and>
     ram_read m (idx, unat (si_modlist_paddr info)) (length mods * 32) = concat (map modlist_bytes mods)"

lemma start_info_magic: "from_le32 [0x78, 0x45 OR 0x80, 0x6e, 0x33] = 0x336ec578"
proof -
  have "0x45 OR 0x80 = (0xc5 :: u8)" by simp
  then show ?thesis unfolding from_le32_def by (simp only:) simp
qed

lemma write_tables_ok:
  assumes w: "write_tables mem idx cmdline maps mods m = (Inr (), m')"
    and l: "length cmdline < 2 ^ 63" "length maps \<le> 4" "length mods \<le> 1"
    and z: "maps \<noteq> []" "mm_addr (hd maps) = 0" "\<forall>off<0x20000 + length cmdline. m idx off = 0"
  shows "\<exists>info. tables_at idx m' cmdline maps mods info
    \<and> same_outside (ptr_bytes (idx, 0x10000) (0x1000 + length cmdline + 0x2000 + 128)) m m'"
proof -
  obtain cs ms ls m1 m2 m3 where
    cs: "next_table HVM_BASE 56 = Inr cs" and ms: "next_table cs (length cmdline) = Inr ms"
    and ls: "next_table ms (length maps * 24) = Inr ls"
    and m1: "load_data_to_memory mem idx cmdline cs m = (Inr (length cmdline), m1)"
    and m2: "load_data_to_memory mem idx (concat (map memmap_bytes maps)) ms m1 = (Inr (length maps * 24), m2)"
    and m3: "load_data_to_memory mem idx (concat (map modlist_bytes mods)) ls m2 = (Inr (length mods * 32), m3)"
    and m4: "load_data_to_memory mem idx (start_info_bytes (start_info_of (length mods) (length maps) ls cs ms)) HVM_BASE m3
      = (Inr 56, m')"
    using w unfolding write_tables_def
    by (auto simp: then_op_def load_data_ok split: sum.splits prod.splits)
  let ?info = "start_info_of (length mods) (length maps) ls cs ms"
  note b1 = next_table_ok [OF cs] and b2 = next_table_ok [OF ms] and b3 = next_table_ok [OF ls]
  have cs': "unat cs = 0x11000" using b1 by (auto elim!: dvdE)
  have ord: "unat cs + length cmdline \<le> unat ms" "unat ms < unat cs + length cmdline + 4096"
      "unat ms + length maps * 24 \<le> unat ls" "unat ls < unat ms + length maps * 24 + 4096"
    using b2 b3 l by simp_all
  note ms' = m1 [unfolded load_data_ok] m2 [unfolded load_data_ok] m3 [unfolded load_data_ok] m4 [unfolded load_data_ok]
  let ?t = "concat (map memmap_bytes maps)" and ?l = "concat (map modlist_bytes mods)"
  let ?s = "start_info_bytes ?info"
  have m': "m' = ram_write (idx, 0x10000) ?s (ram_write (idx, unat ls) ?l (ram_write (idx, unat ms) ?t
      (ram_write (idx, unat cs) cmdline m)))"
    using ms' by simp
  have si: "ram_read m' (idx, 0x10000) 56 = ?s"
    using ram_read_write_same [of "(idx, 0x10000)" ?s] by (simp add: m')
  have r0: "ram_read m' (idx, unat cs) (length cmdline) = cmdline"
    unfolding m' using ord cs' by (simp add: ram_read_write_apart)
  have t: "?t ! 0 = 0" "0 < length maps" using z(1,2) by (cases maps; simp add: memmap_first)+
  have "m' idx (unat cs + length cmdline) = 0"
  proof (cases "unat ms = unat cs + length cmdline")
    case True
    have "\<not> unat ls \<le> 0x11000 + length cmdline" using True ord(3) t(2) cs' by linarith
    then show ?thesis unfolding m' using True cs' t(1) z(1) by (simp add: ram_write_def)
  next
    case False
    then have "m' idx (unat cs + length cmdline) = m idx (unat cs + length cmdline)"
      unfolding m' using ord cs' l by (simp add: ram_write_def)
    then show ?thesis using z(3) cs' l by simp
  qed
  then have r1: "ram_read m' (idx, unat cs) (length cmdline + 1) = cmdline @ [0]"
    using r0 by (simp add: ram_read_def)
  have r2: "ram_read m' (idx, unat ms) (length maps * 24) = ?t"
    unfolding m' using ord cs' ram_read_write_same [of "(idx, unat ms)" ?t]
    by (simp add: ram_read_write_apart del: ram_read_write_same)
  have r3: "ram_read m' (idx, unat ls) (length mods * 32) = ?l"
    unfolding m' using ord cs' ram_read_write_same [of "(idx, unat ls)" ?l]
    by (simp add: ram_read_write_apart del: ram_read_write_same)
  have "si_modlist_paddr ?info = ls" "si_cmdline_paddr ?info = cs" "si_memmap_paddr ?info = ms"
      "si_version ?info = 1" "si_magic ?info = 0x336ec578"
      "unat (si_nr_modules ?info) = length mods" "unat (si_memmap_entries ?info) = length maps"
    using l(2,3) start_info_magic by (simp_all add: start_info_of_def unsigned_of_nat take_bit_nat_eq_self)
  then have "tables_at idx m' cmdline maps mods ?info"
    unfolding tables_at_def using si r1 r2 r3 by metis
  moreover have "same_outside (ptr_bytes (idx, 0x10000) (0x1000 + length cmdline + 0x2000 + 128)) m m'"
    unfolding m' same_outside_def using ord cs' l by (auto simp: ram_write_def ptr_bytes_def)
  ultimately show ?thesis by blast
qed

section \<open>The memory map\<close>

definition in_entry :: "nat \<Rightarrow> hvm_memmap_entry \<Rightarrow> bool" where
  "in_entry a e \<longleftrightarrow> unat (mm_addr e) \<le> a \<and> a < unat (mm_addr e) + unat (mm_size e)"

definition in_region :: "nat \<Rightarrow> mem_region \<Rightarrow> bool" where
  "in_region a r \<longleftrightarrow> unat (guest_phys_addr r) \<le> a \<and> a < unat (guest_phys_addr r) + mem_size r"

lemma add_ram_ok:
  assumes "add_ram env mapped ram vm = (Inr idx, vm')" and "vm_regions vm = []"
  shows "idx = 0 \<and> (\<exists>r rs. vm_regions vm' = r # rs \<and> guest_phys_addr r = 0 \<and> mem_size r = min (unat ram) 0xc0000000) \<and>
    (\<forall>a. (\<exists>r\<in>set (vm_regions vm'). in_region a r) \<longleftrightarrow>
      a < min (unat ram) 0xc0000000 \<or> 0x100000000 \<le> a \<and> a + 0xc0000000 < 0x100000000 + unat ram)"
proof -
  obtain vm1 where a1: "add_mem_region env (mapped 0) (unat (min ram MMIO_START)) 0x0 vm = (Inr idx, vm1)"
    using assms(1) by (auto simp: add_ram_def then_op_def split: prod.splits sum.splits if_splits)
  obtain p1 s1 where r1: "vm_regions vm1 = [\<lparr>mem_ptr = p1, mem_size = unat (min ram MMIO_START), guest_phys_addr = 0, slot = Some s1\<rparr>]"
    and i: "idx = 0"
    using add_mem_region_ok [OF a1] assms(2) by auto
  have mn: "unat (min ram MMIO_START) = min (unat ram) 0xc0000000"
    by (simp add: min_def word_le_nat_alt)
  show ?thesis
  proof (cases "MMIO_START < ram")
    case True
    then obtain j where a2: "add_mem_region env (mapped 1) (unat (ram - MMIO_START)) HIGH_RAM_START vm1 = (Inr j, vm')"
      using assms(1) a1 by (auto simp: add_ram_def then_op_def split: prod.splits sum.splits)
    obtain p2 s2 where r2: "vm_regions vm' = vm_regions vm1 @
        [\<lparr>mem_ptr = p2, mem_size = unat (ram - MMIO_START), guest_phys_addr = HIGH_RAM_START, slot = Some s2\<rparr>]"
      using add_mem_region_ok [OF a2] by auto
    have "unat (ram - MMIO_START) = unat ram - 0xc0000000" "0xc0000000 < unat ram"
      using True by (simp_all add: unat_sub_no_borrow word_less_nat_alt)
    then show ?thesis using r1 r2 i mn by (auto simp: in_region_def)
  next
    case False
    then have "vm' = vm1" using assms(1) a1 by (simp add: add_ram_def then_op_def)
    then show ?thesis using r1 i mn False by (auto simp: in_region_def word_less_nat_alt)
  qed
qed

text \<open>The map read as addresses: those in an entry of RAM, and those in any entry.\<close>

lemma memmap_of_entries:
  assumes "\<not> ram < HIMEM_START"
  obtains maps where "memmap_of ram = Inr maps"
    and "sorted_wrt (\<lambda>d e. unat (mm_addr d) + unat (mm_size d) \<le> unat (mm_addr e)) maps"
    and "\<And>a. (\<exists>e\<in>set maps. mm_type e = 1 \<and> in_entry a e) \<longleftrightarrow> a < 0x9fc00 \<or>
      0x100000 \<le> a \<and> a < min (unat ram) 0xc0000000 \<or> 0xc0000000 < unat ram \<and> 0x100000000 \<le> a \<and> a < 0x100000000 + (unat ram - 0xc0000000)"
    and "\<And>a. (\<exists>e\<in>set maps. in_entry a e) \<longleftrightarrow> a < min (unat ram) 0xc0000000 \<or> 0xc0000000 < unat ram \<and> 0x100000000 \<le> a \<and> a < 0x100000000 + (unat ram - 0xc0000000)"
proof -
  have r: "0x100000 \<le> unat ram" using assms by (simp add: word_less_nat_alt)
  have mn: "unat (min ram MMIO_START) = min (unat ram) 0xc0000000" by (simp add: min_def word_le_nat_alt)
  have hm: "checked_sub (min ram MMIO_START) HIMEM_START = Some (min ram MMIO_START - HIMEM_START)"
      "unat (min ram MMIO_START - HIMEM_START) = min (unat ram) 0xc0000000 - 0x100000"
    using r mn by (simp_all add: checked_sub_def unat_sub_no_borrow)
  have hi: "MMIO_START < ram \<Longrightarrow> unat (ram - MMIO_START) = unat ram - 0xc0000000"
    by (simp add: unat_sub_no_borrow word_less_nat_alt)
  let ?e1 = "\<lparr>mm_addr = 0x0, mm_size = EBDA_START, mm_type = 1, mm_reserved = 0\<rparr>"
  let ?e2 = "\<lparr>mm_addr = EBDA_START, mm_size = HIMEM_START - EBDA_START, mm_type = 2, mm_reserved = 0\<rparr>"
  let ?e3 = "\<lparr>mm_addr = HIMEM_START, mm_size = min ram MMIO_START - HIMEM_START, mm_type = 1, mm_reserved = 0\<rparr>"
  let ?e4 = "\<lparr>mm_addr = HIGH_RAM_START, mm_size = ram - MMIO_START, mm_type = 1, mm_reserved = 0\<rparr>"
  let ?maps = "[?e1, ?e2, ?e3] @ (if MMIO_START < ram then [?e4] else [])"
  have m: "memmap_of ram = Inr ?maps" using hm(1) by (simp add: memmap_of_def)
  have i3: "in_entry a ?e3 \<longleftrightarrow> 0x100000 \<le> a \<and> a < min (unat ram) 0xc0000000" for a
    using hm(2) r by (simp add: in_entry_def)
  have i4: "MMIO_START < ram \<Longrightarrow> in_entry a ?e4 \<longleftrightarrow> 0x100000000 \<le> a \<and> a < 0x100000000 + (unat ram - 0xc0000000)" for a
    using hi by (simp add: in_entry_def)
  have i12: "in_entry a ?e1 \<longleftrightarrow> a < 0x9fc00" "in_entry a ?e2 \<longleftrightarrow> 0x9fc00 \<le> a \<and> a < 0x100000" for a
    by (simp_all add: in_entry_def)
  have lt: "MMIO_START < ram \<longleftrightarrow> 0xc0000000 < unat ram" by (simp add: word_less_nat_alt)
  have ex: "(\<exists>e\<in>set ?maps. P e) \<longleftrightarrow> P ?e1 \<or> P ?e2 \<or> P ?e3 \<or> MMIO_START < ram \<and> P ?e4" for P
    by (cases "MMIO_START < ram") (simp_all only: if_True if_False set_append set_simps append_Nil2, blast+)
  have ram_entry: "(\<exists>e\<in>set ?maps. mm_type e = 1 \<and> in_entry a e) \<longleftrightarrow> a < 0x9fc00 \<or>
      0x100000 \<le> a \<and> a < min (unat ram) 0xc0000000 \<or>
      0xc0000000 < unat ram \<and> 0x100000000 \<le> a \<and> a < 0x100000000 + (unat ram - 0xc0000000)" for a
    using i12 [of a] i3 [of a] i4 [of a] lt unfolding ex by auto
  have any_entry: "(\<exists>e\<in>set ?maps. in_entry a e) \<longleftrightarrow> a < min (unat ram) 0xc0000000 \<or>
      0xc0000000 < unat ram \<and> 0x100000000 \<le> a \<and> a < 0x100000000 + (unat ram - 0xc0000000)" for a
  proof -
    have "in_entry a ?e1 \<or> in_entry a ?e2 \<or> in_entry a ?e3 \<longleftrightarrow> a < min (unat ram) 0xc0000000"
      unfolding i12 i3 using r by (cases "a < 0x100000") auto
    then show ?thesis unfolding ex using i4 [of a] lt by blast
  qed
  have "0x100000 + unat (min ram MMIO_START - HIMEM_START) \<le> 0x100000000" using hm(2) r by linarith
  then have srt: "sorted_wrt (\<lambda>d e. unat (mm_addr d) + unat (mm_size d) \<le> unat (mm_addr e)) ?maps"
    by (cases "MMIO_START < ram") simp_all
  show ?thesis by (rule that [OF m srt ram_entry any_entry])
qed

text \<open>
  C38. The memory map tells the truth: with at least one megabyte of RAM, its entries are sorted and
  disjoint, every address it calls RAM is backed by a region, every backed address from one megabyte
  on is in an entry of RAM, and none of them is in the window of the MMIO devices from 3 to 4
  gigabytes. With less RAM the boot panics.
\<close>

theorem pvh_memmap_correct:
  assumes "add_ram env mapped ram vm = (Inr idx, vm')" and "vm_regions vm = []"
  shows "if ram < HIMEM_START then memmap_of ram = Inl (Panicked ArithOverflow)
    else \<exists>maps. memmap_of ram = Inr maps \<and>
      sorted_wrt (\<lambda>d e. unat (mm_addr d) + unat (mm_size d) \<le> unat (mm_addr e)) maps \<and>
      (\<forall>a. (\<exists>e\<in>set maps. mm_type e = 1 \<and> in_entry a e) \<longrightarrow> (\<exists>r\<in>set (vm_regions vm'). in_region a r)) \<and>
      (\<forall>a. (\<exists>r\<in>set (vm_regions vm'). in_region a r) \<and> 0x100000 \<le> a \<longrightarrow> (\<exists>e\<in>set maps. mm_type e = 1 \<and> in_entry a e)) \<and>
      (\<forall>a. 0xc0000000 \<le> a \<and> a < 0x100000000 \<longrightarrow> (\<forall>e\<in>set maps. \<not> in_entry a e))"
proof (cases "ram < HIMEM_START")
  case True
  then have "\<not> MMIO_START < ram" "unat ram < 0x100000" by (simp_all add: word_less_nat_alt)
  then show ?thesis using True
    by (simp add: memmap_of_def checked_sub_def min_def word_le_nat_alt)
next
  case False
  have r: "0x100000 \<le> unat ram" using False by (simp add: word_less_nat_alt)
  note reg = conjunct2 [OF add_ram_ok [OF assms], THEN conjunct2, rule_format]
  obtain maps where m: "memmap_of ram = Inr maps"
      "sorted_wrt (\<lambda>d e. unat (mm_addr d) + unat (mm_size d) \<le> unat (mm_addr e)) maps"
    and ram_entry: "\<And>a. (\<exists>e\<in>set maps. mm_type e = 1 \<and> in_entry a e) \<longleftrightarrow> a < 0x9fc00 \<or>
      0x100000 \<le> a \<and> a < min (unat ram) 0xc0000000 \<or> 0xc0000000 < unat ram \<and> 0x100000000 \<le> a \<and> a < 0x100000000 + (unat ram - 0xc0000000)"
    and any_entry: "\<And>a. (\<exists>e\<in>set maps. in_entry a e) \<longleftrightarrow> a < min (unat ram) 0xc0000000 \<or> 0xc0000000 < unat ram \<and> 0x100000000 \<le> a \<and> a < 0x100000000 + (unat ram - 0xc0000000)"
    by (rule memmap_of_entries [OF False]) (rule that)
  have "\<exists>r\<in>set (vm_regions vm'). in_region a r" if "\<exists>e\<in>set maps. mm_type e = 1 \<and> in_entry a e" for a
    using that r unfolding ram_entry reg by linarith
  moreover have "\<exists>e\<in>set maps. mm_type e = 1 \<and> in_entry a e"
    if "(\<exists>r\<in>set (vm_regions vm'). in_region a r) \<and> 0x100000 \<le> a" for a
    using that r unfolding ram_entry reg by linarith
  moreover have "\<not> in_entry a e" if "0xc0000000 \<le> a \<and> a < 0x100000000" "e \<in> set maps" for a e
  proof -
    have "\<not> (\<exists>e\<in>set maps. in_entry a e)" using that(1) unfolding any_entry by linarith
    then show ?thesis using that(2) by blast
  qed
  ultimately show ?thesis using m False by (simp only: if_False) blast
qed


theorem pvh_memmap_correct_witness:
  "\<exists>maps. memmap_of 0x100000000 = Inr maps \<and>
    sorted_wrt (\<lambda>d e. unat (mm_addr d) + unat (mm_size d) \<le> unat (mm_addr e)) maps"
proof -
  let ?vm = "\<lparr>vm_regions = [], vm_next_slot = 0, vm_calls = []\<rparr>"
  have "\<exists>vm'. add_ram (\<lambda>_ _. True) (\<lambda>_. Some 0x7000) 0x100000000 ?vm = (Inr 0, vm')"
    by (simp add: add_ram_def add_mem_region_def set_user_memory_region_def then_op_def Let_def checked_add_def)
  then obtain vm' where "add_ram (\<lambda>_ _. True) (\<lambda>_. Some 0x7000) 0x100000000 ?vm = (Inr 0, vm')" by blast
  from pvh_memmap_correct [OF this] show ?thesis by auto
qed

section \<open>What the boot leaves\<close>

definition loads :: "u32 \<Rightarrow> elf_file \<Rightarrow> elf_segment list" where
  "loads pt elf = filter (\<lambda>s. ph_type s = pt) (elf_segments elf)"

definition seg_bytes :: "nat \<Rightarrow> elf_segment \<Rightarrow> (nat \<times> nat) set" where
  "seg_bytes idx s = ptr_bytes (idx, unat (ph_paddr s)) (unat (ph_filesz s))"

definition seg_at :: "nat \<Rightarrow> ram \<Rightarrow> u8 list \<Rightarrow> elf_segment \<Rightarrow> bool" where
  "seg_at idx m data s \<longleftrightarrow> ram_read m (idx, unat (ph_paddr s)) (unat (ph_filesz s)) =
     take (unat (ph_filesz s)) (drop (unat (ph_offset s)) data)"

lemma seg_at_same_outside:
  "seg_at idx m data s \<Longrightarrow> same_outside A m m' \<Longrightarrow> A \<inter> seg_bytes idx s = {} \<Longrightarrow> seg_at idx m' data s"
  by (simp add: seg_at_def seg_bytes_def ram_read_same_outside)

lemma load_segments_ok:
  assumes "load_segments pt mem idx data phs last_addr m = (Inr last', m')"
  shows "last_addr \<le> last' \<and> (\<forall>s\<in>set phs. ph_type s = pt \<longrightarrow> unat (ph_paddr s) + unat (ph_memsz s) \<le> unat last') \<and>
    same_outside (\<Union>s\<in>set (filter (\<lambda>s. ph_type s = pt) phs). seg_bytes idx s) m m' \<and>
    (sorted_wrt (\<lambda>s t. seg_bytes idx s \<inter> seg_bytes idx t = {}) (filter (\<lambda>s. ph_type s = pt) phs) \<longrightarrow>
      (\<forall>s\<in>set phs. ph_type s = pt \<longrightarrow> seg_at idx m' data s))"
  using assms
proof (induction phs arbitrary: last_addr m)
  case Nil
  then show ?case by simp
next
  case (Cons ph phs)
  show ?case
  proof (cases "ph_type ph = pt")
    case False
    then show ?thesis using Cons.IH Cons.prems by simp
  next
    case True
    obtain mem_end bytes m1 where
      me: "checked_add (ph_paddr ph) (ph_memsz ph) = Some mem_end"
      and sl: "slice_at data (unat (ph_offset ph)) (unat (ph_filesz ph)) = Inr bytes"
      and ld: "load_data_to_memory mem idx bytes (ph_paddr ph) m = (Inr (length bytes), m1)"
      and rest: "load_segments pt mem idx data phs (if last_addr < mem_end then mem_end else last_addr) m1 = (Inr last', m')"
      using Cons.prems True by (auto simp: res_simps load_data_ok split: sum.splits prod.splits)
    note IH = Cons.IH [OF rest]
    have u: "unat mem_end = unat (ph_paddr ph) + unat (ph_memsz ph)"
      using me by (auto simp: checked_add_def unat_add_no_overflow split: if_splits)
    have b: "bytes = take (unat (ph_filesz ph)) (drop (unat (ph_offset ph)) data)" "length bytes = unat (ph_filesz ph)"
      using sl by (auto simp: res_simps)
    have m1: "m1 = ram_write (idx, unat (ph_paddr ph)) bytes m" using ld by (simp add: load_data_ok)
    have so: "same_outside (seg_bytes idx ph) m m1"
      unfolding m1 seg_bytes_def b(2) [symmetric] by (rule ram_write_outside)
    have at1: "seg_at idx m1 data ph"
      unfolding seg_at_def m1 b(1) [symmetric] unfolding b(2) [symmetric] by simp
    have le: "last_addr \<le> last'" "unat mem_end \<le> unat last'"
      using IH by (auto simp: word_le_nat_alt word_less_nat_alt split: if_splits)
    let ?U = "\<Union>s\<in>set (filter (\<lambda>s. ph_type s = pt) phs). seg_bytes idx s"
    have so2: "same_outside ?U m1 m'" using IH by blast
    have "same_outside (seg_bytes idx ph \<union> ?U) m m'"
      using same_outside_trans [OF same_outside_mono [OF so] same_outside_mono [OF so2]] by blast
    moreover have "seg_at idx m' data ph"
      if "sorted_wrt (\<lambda>s t. seg_bytes idx s \<inter> seg_bytes idx t = {}) (filter (\<lambda>s. ph_type s = pt) (ph # phs))"
      using that True by (intro seg_at_same_outside [OF at1 so2]) auto
    ultimately show ?thesis using IH True le u by auto
  qed
qed


definition module_at :: "nat \<Rightarrow> ram \<Rightarrow> u8 list \<Rightarrow> u8 list \<Rightarrow> hvm_modlist_entry \<Rightarrow> bool" where
  "module_at idx m name file e \<longleftrightarrow>
     ram_read m (idx, unat (ml_cmdline_paddr e)) (length name + 1) = name @ [0] \<and>
     ram_read m (idx, unat (ml_paddr e)) (length file) = file \<and> unat (ml_size e) = length file"

lemma load_module_ok:
  assumes "load_module mem idx last_addr (Some (name, fl)) m = (Inr mods, m')"
    and "mem_size (mem ! idx) < 2 ^ 63"
  shows "\<exists>contents e. fl = Inr contents \<and> mods = [e] \<and> module_at idx m' name contents e \<and>
    unat last_addr \<le> unat (ml_cmdline_paddr e) \<and> unat last_addr \<le> unat (ml_paddr e) \<and>
    same_outside {(i, off). unat last_addr \<le> off} m m'"
proof -
  obtain ns z st bytes n where
    ns: "page_up last_addr = Inr ns"
    and ld: "load_data_to_memory mem idx (name @ [0]) ns m = (Inr (length (name @ [0])), ram_write (idx, unat ns) (name @ [0]) m)"
    and z: "checked_add (word_of_nat (Suc (length name))) ns = Some z" and st: "page_up z = Inr st"
    and fl: "fl = Inr bytes"
    and ld2: "load_data_to_memory mem idx bytes st (ram_write (idx, unat ns) (name @ [0]) m) = (Inr n, m')"
    and mods: "mods = [\<lparr>ml_paddr = st, ml_size = word_of_nat n, ml_cmdline_paddr = ns, ml_reserved = 0\<rparr>]"
    using assms(1)
    by (auto simp: load_module_def Let_def res_simps load_data_ok load_file_to_memory_def unwrap_res_def
        split: sum.splits prod.splits fault.splits if_splits)
  have len: "length name + 1 < 2 ^ 63" "length bytes < 2 ^ 63"
    using ld ld2 assms(2) by (auto simp: load_data_ok)
  have "unat z = length name + 1 + unat ns"
    using z len by (auto simp: checked_add_def unat_add_no_overflow unsigned_of_nat take_bit_nat_eq_self split: if_splits)
  with page_up_ok [OF ns] page_up_ok [OF st] have o: "unat last_addr \<le> unat ns" "unat ns + (length name + 1) \<le> unat st"
    by linarith+
  have m': "m' = ram_write (idx, unat st) bytes (ram_write (idx, unat ns) (name @ [0]) m)" and n: "n = length bytes"
    using ld2 by (simp_all add: load_data_ok)
  have "ram_read m' (idx, unat ns) (length name + 1) = name @ [0]"
    unfolding m' using o ram_read_write_same [of "(idx, unat ns)" "name @ [0]" m]
    by (simp add: ram_read_write_apart del: ram_read_write_same)
  moreover have "ram_read m' (idx, unat st) (length bytes) = bytes" unfolding m' by simp
  moreover have "unat (word_of_nat n :: u64) = length bytes"
    using n len by (simp add: unsigned_of_nat take_bit_nat_eq_self)
  moreover have "same_outside {(i, off). unat last_addr \<le> off} m m'"
    unfolding m' using o by (auto simp: same_outside_def ram_write_def)
  ultimately show ?thesis using fl mods o by (auto simp: module_at_def)
qed

lemma module_at_same_outside:
  assumes "module_at idx m name file e" and "same_outside (ptr_bytes (idx, a) n) m m'"
    and "a + n \<le> unat (ml_cmdline_paddr e)" and "a + n \<le> unat (ml_paddr e)"
  shows "module_at idx m' name file e"
proof -
  have "ptr_bytes (idx, a) n \<inter> ptr_bytes (idx, unat (ml_cmdline_paddr e)) (length name + 1) = {}"
      "ptr_bytes (idx, a) n \<inter> ptr_bytes (idx, unat (ml_paddr e)) (length file) = {}"
    using assms(3,4) by (auto simp: ptr_bytes_def)
  with assms(1) show ?thesis
    by (simp add: module_at_def ram_read_same_outside [OF assms(2)])
qed

lemma boot_regs_ok:
  assumes "boot_regs env entry v = (Inr (), v')"
  shows "rg_rip (xv_regs v') = entry \<and> rg_rbx (xv_regs v') = 0x10000 \<and> rg_rflags (xv_regs v') = 2 \<and>
    sr_cr0 (xv_sregs2 v') = 1 \<and> sr_cr4 (xv_sregs2 v') = 0 \<and> sr_cs (xv_sregs2 v') = pm_code \<and>
    sr_tr (xv_sregs2 v') = pm_task \<and> (\<forall>seg\<in>{sr_ds, sr_es, sr_fs, sr_gs, sr_ss}. seg (xv_sregs2 v') = pm_data)"
proof -
  obtain v1 where "set_regs env ((xv_regs v)\<lparr>rg_rip := entry, rg_rbx := HVM_BASE, rg_rflags := 0x2\<rparr>)
      (v\<lparr>xv_calls := xv_calls v @ [GetRegs]\<rparr>) = (Inr (), v1)" and p: "protected_mode_setup env v1 = (Inr (), v')"
    using assms by (auto simp: boot_regs_def res_simps get_regs_def vcpu_ioctl_def split: if_splits)
  then have "xv_regs v1 = (xv_regs v)\<lparr>rg_rip := entry, rg_rbx := HVM_BASE, rg_rflags := 0x2\<rparr>"
    by (auto simp: vcpu_call_defs split: if_splits)
  with protected_mode_setup_ok [OF p] show ?thesis by simp
qed


lemma memmap_of_shape:
  "memmap_of ram = Inr maps \<Longrightarrow> maps \<noteq> [] \<and> mm_addr (hd maps) = 0 \<and> length maps \<le> 4"
  by (auto simp: memmap_of_def res_simps)

lemma load_module_cases:
  assumes "load_module mem idx last_addr initramfs m = (Inr mods, m')" and "mem_size (mem ! idx) < 2 ^ 63"
  shows "(initramfs = None \<and> mods = [] \<and> m' = m) \<or>
    (\<exists>name contents e. initramfs = Some (name, Inr contents) \<and> mods = [e] \<and> module_at idx m' name contents e \<and>
      unat last_addr \<le> unat (ml_cmdline_paddr e) \<and> unat last_addr \<le> unat (ml_paddr e) \<and>
      same_outside {(i, off). unat last_addr \<le> off} m m')"
proof (cases initramfs)
  case None
  then show ?thesis using assms(1) by (simp add: load_module_def)
next
  case (Some p)
  then obtain name fl where "initramfs = Some (name, fl)" by (cases p) auto
  then show ?thesis using load_module_ok [of mem idx last_addr name fl m mods m'] assms by auto
qed

text \<open>The hypotheses on the kernel: its segments are disjoint, from one megabyte on, and hold their bytes.\<close>

definition kernel_ok :: "u32 \<Rightarrow> elf_file \<Rightarrow> bool" where
  "kernel_ok pt elf \<longleftrightarrow> loads pt elf \<noteq> [] \<and>
     (\<forall>s\<in>set (loads pt elf). 0x100000 \<le> unat (ph_paddr s) \<and> ph_filesz s \<le> ph_memsz s) \<and>
     sorted_wrt (\<lambda>s t. seg_bytes 0 s \<inter> seg_bytes 0 t = {}) (loads pt elf)"

text \<open>What the guest finds: the kernel, the tables and, when there is one, the module.\<close>

definition boot_image :: "u32 \<Rightarrow> elf_file \<Rightarrow> args \<Rightarrow> (u8 list \<times> u8 list res) option \<Rightarrow> hvm_memmap_entry list \<Rightarrow> ram \<Rightarrow> bool" where
  "boot_image pt elf args initramfs maps m \<longleftrightarrow>
     (\<forall>s\<in>set (loads pt elf). seg_at 0 m (elf_data elf) s) \<and>
     (\<exists>mods info. tables_at 0 m (pvh_cmdline (ar_append args)) maps mods info \<and>
        (case initramfs of
           None \<Rightarrow> mods = []
         | Some (name, contents) \<Rightarrow> \<exists>bs e. contents = Inr bs \<and> mods = [e] \<and> module_at 0 m name bs e))"

lemma boot_memory_ok:
  assumes kernel: "kernel_ok pt elf"
    and ld: "load_elf pt mem elf 0 m = (Inr last_addr, m1)"
    and md: "load_module mem 0 last_addr initramfs m1 = (Inr mods, m2)"
    and wt: "write_tables mem 0 (pvh_cmdline (ar_append args)) maps mods m2 = (Inr (), m')"
    and maps: "memmap_of ram = Inr maps"
    and sz: "mem_size (mem ! 0) < 2 ^ 63" "length (pvh_cmdline (ar_append args)) \<le> 0x80000"
    and zero: "\<forall>off<0x100000. m 0 off = 0"
  shows "boot_image pt elf args initramfs maps m'"
proof -
  let ?c = "pvh_cmdline (ar_append args)" and ?U = "\<Union>s\<in>set (loads pt elf). seg_bytes 0 s"
  let ?T = "ptr_bytes (0, 0x10000) (0x1000 + length ?c + 0x2000 + 128)"
  have L: "\<forall>s\<in>set (loads pt elf). unat (ph_paddr s) + unat (ph_memsz s) \<le> unat last_addr"
      "same_outside ?U m m1" "\<forall>s\<in>set (loads pt elf). seg_at 0 m1 (elf_data elf) s"
    using load_segments_ok [OF ld [unfolded load_elf_def]] kernel by (auto simp: kernel_ok_def loads_def)
  have K: "\<forall>s\<in>set (loads pt elf). 0x100000 \<le> unat (ph_paddr s) \<and> unat (ph_filesz s) \<le> unat (ph_memsz s)"
    using kernel by (simp add: kernel_ok_def word_le_nat_alt)
  obtain s0 where "s0 \<in> set (loads pt elf)" using kernel list.set_sel(1) unfolding kernel_ok_def by blast
  then have high: "0x100000 \<le> unat last_addr" using L(1) K by fastforce
  have segs: "seg_bytes 0 s \<subseteq> {(i, off). 0x100000 \<le> off \<and> off < unat last_addr}" if "s \<in> set (loads pt elf)" for s
    using L(1) K that by (fastforce simp: seg_bytes_def ptr_bytes_def)
  have M: "same_outside {(i, off). unat last_addr \<le> off} m1 m2" "length mods \<le> 1"
    using load_module_cases [OF md sz(1)] by auto
  have "m2 0 off = 0" if "off < 0x100000" for off
  proof -
    have "(0, off) \<notin> ?U" using segs that by fastforce
    then have "m1 0 off = m 0 off" using L(2) by (simp add: same_outside_def)
    moreover have "m2 0 off = m1 0 off" using M(1) that high by (simp add: same_outside_def)
    ultimately show ?thesis using zero that by simp
  qed
  then obtain info where info: "tables_at 0 m' ?c maps mods info" and W: "same_outside ?T m2 m'"
    using write_tables_ok [OF wt] memmap_of_shape [OF maps] M(2) sz(2) by auto
  have "seg_at 0 m' (elf_data elf) s" if s: "s \<in> set (loads pt elf)" for s
  proof (rule seg_at_same_outside [OF seg_at_same_outside [OF _ M(1)] W])
    show "seg_at 0 m1 (elf_data elf) s" using L(3) s by blast
    show "{(i, off). unat last_addr \<le> off} \<inter> seg_bytes 0 s = {}" using segs [OF s] by fastforce
    show "?T \<inter> seg_bytes 0 s = {}" using segs [OF s] sz(2) by (fastforce simp: ptr_bytes_def)
  qed
  moreover have "case initramfs of None \<Rightarrow> mods = []
      | Some (name, contents) \<Rightarrow> \<exists>bs e. contents = Inr bs \<and> mods = [e] \<and> module_at 0 m' name bs e"
    using load_module_cases [OF md sz(1)] module_at_same_outside [OF _ W] high sz(2) by fastforce
  ultimately show ?thesis using info unfolding boot_image_def by blast
qed

lemma linux_pvh_bootE:
  assumes "linux_pvh_boot E (Inr elf) args initramfs (vm, m, vcpu) = (Inr (), vm', m', vcpu')"
  obtains entry idx last_addr mods maps m1 m2 where "try_pvh_entrypoint elf = Inr entry"
    "add_ram (pe_region E) (pe_mapped E) (case ar_memory args of None \<Rightarrow> 0x40000000 | Some s \<Rightarrow> s) vm = (Inr idx, vm')"
    "load_elf (pe_pt_load E) (vm_regions vm') elf idx m = (Inr last_addr, m1)"
    "load_module (vm_regions vm') idx last_addr initramfs m1 = (Inr mods, m2)"
    "memmap_of (case ar_memory args of None \<Rightarrow> 0x40000000 | Some s \<Rightarrow> s) = Inr maps"
    "write_tables (vm_regions vm') idx (pvh_cmdline (ar_append args)) maps mods m2 = (Inr (), m')"
    "boot_regs (pe_vcpu E) entry vcpu = (Inr (), vcpu')"
proof -
  define ram where "ram = (case ar_memory args of None \<Rightarrow> 0x40000000 | Some s \<Rightarrow> s)"
  note boot = assms [unfolded linux_pvh_boot_def Let_def prod.case ram_def [symmetric]]
  show thesis
  proof (cases "memmap_of ram")
    case (Inl e)
    then show thesis using boot by (auto simp: res_simps split: sum.splits prod.splits)
  next
    case (Inr maps)
    show thesis
      using that boot unfolding ram_def [symmetric] Inr sum.case
      by (auto simp: res_simps split: sum.splits prod.splits)
  qed
qed

text \<open>
  A boot that succeeds hands the guest what PVH promises, with a VM that had no memory, zeroed
  RAM and a command line of at most 512 KiB: the kernel's segments are in RAM as the file has them
  (nothing loaded later touches them), the start info at \<open>rbx\<close> has the magic and the addresses at
  which the memory map, the command line (ended by a zero) and the module with its name are found,
  the vcpu is at the kernel's entry point, in protected mode with flat segments.
\<close>

theorem pvh_boot_hands_over:
  assumes boot: "linux_pvh_boot E (Inr elf) args initramfs (vm, m, vcpu) = (Inr (), vm', m', vcpu')"
    and vm: "vm_regions vm = []" and kernel: "kernel_ok (pe_pt_load E) elf"
    and len: "length (pvh_cmdline (ar_append args)) \<le> 0x80000" and zero: "\<forall>off<0x100000. m 0 off = 0"
  shows "\<exists>maps. memmap_of (case ar_memory args of None \<Rightarrow> 0x40000000 | Some s \<Rightarrow> s) = Inr maps \<and>
    boot_image (pe_pt_load E) elf args initramfs maps m' \<and>
    try_pvh_entrypoint elf = Inr (rg_rip (xv_regs vcpu')) \<and>
    rg_rbx (xv_regs vcpu') = 0x10000 \<and> rg_rflags (xv_regs vcpu') = 2 \<and>
    sr_cr0 (xv_sregs2 vcpu') = 1 \<and> sr_cr4 (xv_sregs2 vcpu') = 0 \<and> sr_cs (xv_sregs2 vcpu') = pm_code \<and>
    sr_tr (xv_sregs2 vcpu') = pm_task \<and> (\<forall>seg\<in>{sr_ds, sr_es, sr_fs, sr_gs, sr_ss}. seg (xv_sregs2 vcpu') = pm_data)"
proof -
  let ?ram = "case ar_memory args of None \<Rightarrow> 0x40000000 | Some s \<Rightarrow> s"
  obtain entry idx last_addr mods maps m1 m2 where
    entry: "try_pvh_entrypoint elf = Inr entry"
    and ar: "add_ram (pe_region E) (pe_mapped E) ?ram vm = (Inr idx, vm')"
    and ld: "load_elf (pe_pt_load E) (vm_regions vm') elf idx m = (Inr last_addr, m1)"
    and md: "load_module (vm_regions vm') idx last_addr initramfs m1 = (Inr mods, m2)"
    and maps: "memmap_of ?ram = Inr maps"
    and wt: "write_tables (vm_regions vm') idx (pvh_cmdline (ar_append args)) maps mods m2 = (Inr (), m')"
    and regs: "boot_regs (pe_vcpu E) entry vcpu = (Inr (), vcpu')"
    using boot by (rule linux_pvh_bootE)
  obtain r rs where "idx = 0" and rs: "vm_regions vm' = r # rs" "mem_size r = min (unat ?ram) 0xc0000000"
    using add_ram_ok [OF ar vm] by blast
  then have sz: "mem_size (vm_regions vm' ! 0) < 2 ^ 63" by (simp del: option.case)
  have "boot_image (pe_pt_load E) elf args initramfs maps m'"
    by (rule boot_memory_ok [OF kernel ld [unfolded \<open>idx = 0\<close>] md [unfolded \<open>idx = 0\<close>] wt [unfolded \<open>idx = 0\<close>] maps sz len zero])
  moreover have "try_pvh_entrypoint elf = Inr (rg_rip (xv_regs vcpu'))" using entry boot_regs_ok [OF regs] by simp
  ultimately show ?thesis
    using maps boot_regs_ok [OF regs] by (intro exI [of _ maps] conjI) (elim conjE; assumption)+
qed

definition wit_env :: pvh_env where
  "wit_env = \<lparr>pe_region = (\<lambda>_ _. True), pe_mapped = (\<lambda>_. Some 0x7000), pe_pt_load = 1, pe_vcpu = (\<lambda>_ _. True)\<rparr>"

definition wit_elf :: elf_file where
  "wit_elf = \<lparr>elf_data = [1, 2, 3, 4], elf_notes = Notes [Some \<lparr>note_type = 18, note_desc = [0, 0, 0x10, 0]\<rparr>],
     elf_segments = [\<lparr>ph_type = 1, ph_offset = 1, ph_filesz = 2, ph_paddr = 0x100000, ph_memsz = 8\<rparr>]\<rparr>"

definition wit_args :: args where
  "wit_args = \<lparr>ar_binary = None, ar_linux = Some [], ar_memory = Some 0x200000, ar_load_addr = 0, ar_dtb = None,
     ar_initramfs = Some [0x69], ar_disk = None, ar_tap = None, ar_append = None, ar_vnc = None\<rparr>"

definition wit_mem :: guest_memory where
  "wit_mem = [\<lparr>mem_ptr = 0x7000, mem_size = 0x200000, guest_phys_addr = 0, slot = Some 0\<rparr>]"

lemma wit_lengths:
  "length (pvh_cmdline (ar_append wit_args)) = 104"
proof -
  have "dec_digits 5 = [53]" "dec_digits 6 = [54]" by (subst dec_digits.simps; simp)+
  moreover have "length (hex_digits 0xd0000000) = 8" "length (hex_digits 0xd0010000) = 8"
    by (simp_all add: hex_digits.simps)
  ultimately show ?thesis by (simp add: pvh_cmdline_def str_bytes_def Let_def wit_args_def)
qed

lemma wit_entry: "try_pvh_entrypoint wit_elf = Inr 0x100000"
  by (simp add: try_pvh_entrypoint_def wit_elf_def read_le32_def slice_at_def from_le32_def)

lemma wit_pages: "next_table 0x10000 56 = Inr 0x11000" "next_table 0x11000 104 = Inr 0x12000"
    "next_table 0x12000 72 = Inr 0x13000" "page_up 0x100008 = Inr 0x101000" "page_up 0x101002 = Inr 0x102000"
  by (simp_all add: next_table_def page_up_def checked_add_def)

lemma wit_ram:
  "\<exists>vm1. add_ram (pe_region wit_env) (pe_mapped wit_env) 0x200000 \<lparr>vm_regions = [], vm_next_slot = 0, vm_calls = []\<rparr> =
    (Inr 0, vm1) \<and> vm_regions vm1 = wit_mem \<and> vm_next_slot vm1 = 1"
  by (simp add: add_ram_def add_mem_region_def set_user_memory_region_def then_op_def Let_def checked_add_def
      wit_env_def wit_mem_def)

lemma wit_maps: "\<exists>maps. memmap_of 0x200000 = Inr maps \<and> length maps = 3"
  by (simp add: memmap_of_def checked_sub_def)

lemma wit_load: "load_elf (pe_pt_load wit_env) wit_mem wit_elf 0 m = (Inr 0x100008, ram_write (0, 0x100000) [2, 3] m)"
  by (simp add: load_elf_def wit_elf_def wit_env_def wit_mem_def load_data_to_memory_def checked_add_def slice_at_def then_op_def word_less_nat_alt)

lemma wit_module: "\<exists>e m'. load_module wit_mem 0 0x100008 (Some ([0x69], Inr [7])) m = (Inr [e], m')"
  by (simp add: load_module_def Let_def wit_pages wit_mem_def load_data_to_memory_def load_file_to_memory_def checked_add_def then_op_def)

lemma wit_tables: "length maps = 3 \<Longrightarrow> \<exists>m'. write_tables wit_mem 0 (pvh_cmdline (ar_append wit_args)) maps [e] m = (Inr (), m')"
  by (simp add: write_tables_def wit_lengths wit_pages wit_mem_def load_data_to_memory_def then_op_def)

lemma wit_regs: "\<exists>v'. boot_regs (pe_vcpu wit_env) entry v = (Inr (), v')"
  by (simp add: boot_regs_def protected_mode_setup_def vcpu_call_defs wit_env_def)

lemma wit_memory: "ar_memory wit_args = Some 0x200000"
  by (simp add: wit_args_def)

lemma wit_boot:
  "\<exists>vm' m' v'. linux_pvh_boot wit_env (Inr wit_elf) wit_args (Some ([0x69], Inr [7]))
      (\<lparr>vm_regions = [], vm_next_slot = 0, vm_calls = []\<rparr>, \<lambda>_ _. 0, v) = (Inr (), vm', m', v') \<and>
    vm_regions vm' = wit_mem \<and> vm_next_slot vm' = 1"
proof -
  let ?vm = "\<lparr>vm_regions = [], vm_next_slot = 0, vm_calls = []\<rparr>"
  obtain maps where maps: "memmap_of 0x200000 = Inr maps" "length maps = 3" using wit_maps by blast
  obtain vm1 where vm1: "add_ram (pe_region wit_env) (pe_mapped wit_env) 0x200000 ?vm = (Inr 0, vm1)" "vm_regions vm1 = wit_mem"
      "vm_next_slot vm1 = 1"
    using wit_ram by blast
  obtain e m2 where m2: "load_module wit_mem 0 0x100008 (Some ([0x69], Inr [7])) (ram_write (0, 0x100000) [2, 3] (\<lambda>_ _. 0)) = (Inr [e], m2)"
    using wit_module by blast
  obtain m' where m': "write_tables wit_mem 0 (pvh_cmdline (ar_append wit_args)) maps [e] m2 = (Inr (), m')"
    using wit_tables [OF maps(2)] by blast
  obtain v' where v': "boot_regs (pe_vcpu wit_env) 0x100000 v = (Inr (), v')" using wit_regs by blast
  have "linux_pvh_boot wit_env (Inr wit_elf) wit_args (Some ([0x69], Inr [7])) (?vm, \<lambda>_ _. 0, v) = (Inr (), vm1, m', v')"
    using vm1 by (simp add: linux_pvh_boot_def wit_entry maps(1) wit_load m2 m' v' wit_memory)
  then show ?thesis using vm1 by blast
qed

lemma wit_kernel: "kernel_ok (pe_pt_load wit_env) wit_elf"
  by (simp add: kernel_ok_def loads_def wit_elf_def wit_env_def word_le_nat_alt)

theorem pvh_boot_hands_over_witness:
  "\<forall>v. \<exists>vm' m' v' maps. linux_pvh_boot wit_env (Inr wit_elf) wit_args (Some ([0x69], Inr [7]))
      (\<lparr>vm_regions = [], vm_next_slot = 0, vm_calls = []\<rparr>, \<lambda>_ _. 0, v) = (Inr (), vm', m', v') \<and>
    boot_image 1 wit_elf wit_args (Some ([0x69], Inr [7])) maps m' \<and> try_pvh_entrypoint wit_elf = Inr (rg_rip (xv_regs v'))"
proof
  fix v
  let ?vm = "\<lparr>vm_regions = [], vm_next_slot = 0, vm_calls = []\<rparr>"
  obtain vm' m' v' where run: "linux_pvh_boot wit_env (Inr wit_elf) wit_args (Some ([0x69], Inr [7])) (?vm, \<lambda>_ _. 0, v) = (Inr (), vm', m', v')"
    using wit_boot by blast
  from pvh_boot_hands_over [OF run _ wit_kernel] have
    "\<exists>maps. boot_image 1 wit_elf wit_args (Some ([0x69], Inr [7])) maps m' \<and> try_pvh_entrypoint wit_elf = Inr (rg_rip (xv_regs v'))"
    by (simp add: wit_lengths) (auto simp: wit_env_def)
  with run show "\<exists>vm' m' v' maps. linux_pvh_boot wit_env (Inr wit_elf) wit_args (Some ([0x69], Inr [7]))
      (?vm, \<lambda>_ _. 0, v) = (Inr (), vm', m', v') \<and>
    boot_image 1 wit_elf wit_args (Some ([0x69], Inr [7])) maps m' \<and> try_pvh_entrypoint wit_elf = Inr (rg_rip (xv_regs v'))"
    by blast
qed

end
