(* ===== verification/Kvm_Slots.thy ===== *)
theory Kvm_Slots
  imports Guest_Memory
begin

text \<open>
  What the guest sees of the memory: the slots KVM holds after the calls that \<open>add_mem_region\<close> and
  \<open>log_dirty_pages\<close> of \<open>src/src/main.rs\<close> made, as KVM documents
  \<open>KVM_SET_USER_MEMORY_REGION\<close>, against the regions, through which the VMM reaches the same bytes.
\<close>

section \<open>The slots of KVM\<close>

text \<open>A call that succeeds sets its slot, or deletes it when the size is 0.\<close>

type_synonym kvm_slots = "u32 \<rightharpoonup> region_call"

definition kvm_apply :: "region_env \<Rightarrow> region_call list \<times> kvm_slots \<Rightarrow> region_call \<Rightarrow> region_call list \<times> kvm_slots" where
  "kvm_apply env = (\<lambda>(before, S) c.
     (before @ [c], if env before c then S(rc_slot c := (if rc_size c = 0 then None else Some c)) else S))"

definition kvm_slots_after :: "region_env \<Rightarrow> region_call list \<Rightarrow> kvm_slots" where
  "kvm_slots_after env calls = snd (foldl (kvm_apply env) ([], Map.empty) calls)"

lemma kvm_slots_after_Nil [simp]: "kvm_slots_after env [] = Map.empty"
  by (simp add: kvm_slots_after_def)

lemma kvm_slots_after_snoc [simp]:
  "kvm_slots_after env (calls @ [c]) =
    (if env calls c then (kvm_slots_after env calls)(rc_slot c := (if rc_size c = 0 then None else Some c))
     else kvm_slots_after env calls)"
proof -
  have "fst (foldl (kvm_apply env) ([], Map.empty) calls) = calls"
    by (induction calls rule: rev_induct) (auto simp: kvm_apply_def split: prod.splits)
  then show ?thesis
    by (cases "foldl (kvm_apply env) ([], Map.empty) calls") (simp add: kvm_slots_after_def, simp add: kvm_apply_def)
qed

text \<open>Guest address \<open>g\<close> is at host address \<open>a\<close>, by a slot, by some slot of KVM and by a region.\<close>

definition call_maps :: "region_call \<Rightarrow> nat \<Rightarrow> nat \<Rightarrow> bool" where
  "call_maps c g a \<longleftrightarrow> unat (rc_gpa c) \<le> g \<and> g < unat (rc_gpa c) + unat (rc_size c) \<and>
     a = unat (rc_uaddr c) + (g - unat (rc_gpa c))"

definition kvm_maps :: "kvm_slots \<Rightarrow> nat \<Rightarrow> nat \<Rightarrow> bool" where
  "kvm_maps S g a \<longleftrightarrow> (\<exists>s c. S s = Some c \<and> call_maps c g a)"

definition region_maps :: "mem_region \<Rightarrow> nat \<Rightarrow> nat \<Rightarrow> bool" where
  "region_maps r g a \<longleftrightarrow> unat (guest_phys_addr r) \<le> g \<and> g < unat (guest_phys_addr r) + mem_size r \<and>
     a = unat (mem_ptr r) + (g - unat (guest_phys_addr r))"

lemma kvm_maps_insert:
  "S s = None \<Longrightarrow> kvm_maps (S(s \<mapsto> c)) g a \<longleftrightarrow> kvm_maps S g a \<or> call_maps c g a"
  unfolding kvm_maps_def by (metis fun_upd_apply option.distinct(1) option.inject)

lemma kvm_maps_delete:
  "S s = Some c \<Longrightarrow> kvm_maps S g a \<longleftrightarrow> kvm_maps (S(s := None)) g a \<or> call_maps c g a"
  unfolding kvm_maps_def by (metis fun_upd_apply option.distinct(1) option.inject)

section \<open>The invariant\<close>

text \<open>The call that backs a whole region.\<close>

definition whole_call :: "mem_region \<Rightarrow> u32 \<Rightarrow> region_call" where
  "whole_call r s = \<lparr>rc_slot = s, rc_flags = 0, rc_gpa = guest_phys_addr r, rc_size = word_of_nat (mem_size r),
     rc_uaddr = mem_ptr r\<rparr>"

text \<open>
  Numbers from the next one on are free; a region that has a slot is backed by it, alone and whole;
  and the slots map exactly what the regions do.
\<close>

definition slots_below :: "kvm_slots \<Rightarrow> u32 \<Rightarrow> bool" where
  "slots_below S n \<longleftrightarrow> (\<forall>s. S s \<noteq> None \<longrightarrow> s < n)"

definition slots_whole :: "kvm_slots \<Rightarrow> guest_memory \<Rightarrow> bool" where
  "slots_whole S mem \<longleftrightarrow> (\<forall>i<length mem. \<forall>s. slot (mem ! i) = Some s \<longrightarrow>
     S s = Some (whole_call (mem ! i) s) \<and> (\<forall>j<length mem. slot (mem ! j) = Some s \<longrightarrow> j = i))"

definition kvm_ok :: "region_env \<Rightarrow> vm_mem \<Rightarrow> bool" where
  "kvm_ok env vm \<longleftrightarrow>
     (let S = kvm_slots_after env (vm_calls vm); mem = vm_regions vm
      in slots_below S (vm_next_slot vm) \<and> slots_whole S mem \<and> (\<forall>r\<in>set mem. mem_size r < 2 ^ 64) \<and>
         (\<forall>g a. kvm_maps S g a \<longleftrightarrow> (\<exists>r\<in>set mem. region_maps r g a)))"

lemma kvm_ok_new: "kvm_ok env \<lparr>vm_regions = [], vm_next_slot = 0, vm_calls = []\<rparr>"
  by (simp add: kvm_ok_def slots_below_def slots_whole_def kvm_maps_def)

lemma slots_below_None: "slots_below S n \<Longrightarrow> n \<le> s \<Longrightarrow> S s = None"
  unfolding slots_below_def by (metis leD)

lemma slots_below_insert: "slots_below S n \<Longrightarrow> add_ov n 1 = Inr n' \<Longrightarrow> slots_below (S(n \<mapsto> c)) n'"
  by (auto simp: slots_below_def res_simps word_less_nat_alt dest!: checked_add_SomeD intro: less_trans)

lemma set_user_ok:
  "set_user_memory_region env sl flags gpa sz uaddr vm = (Inr u, vm') \<longleftrightarrow>
    env (vm_calls vm) \<lparr>rc_slot = sl, rc_flags = flags, rc_gpa = gpa, rc_size = sz, rc_uaddr = uaddr\<rparr> \<and>
    vm' = vm\<lparr>vm_calls := vm_calls vm @ [\<lparr>rc_slot = sl, rc_flags = flags, rc_gpa = gpa, rc_size = sz, rc_uaddr = uaddr\<rparr>]\<rparr>"
  by (auto simp: set_user_memory_region_def Let_def)

lemma call_maps_whole: "mem_size r < 2 ^ 64 \<Longrightarrow> call_maps (whole_call r s) = region_maps r"
  by (auto simp: fun_eq_iff call_maps_def whole_call_def region_maps_def unsigned_of_nat take_bit_nat_eq_self)

text \<open>Adding a region of some size.\<close>

lemma add_mem_region_kvm_ok:
  assumes add: "add_mem_region env mapped sz gpa vm = (Inr i, vm')" and ok: "kvm_ok env vm" and sz: "0 < sz" "sz < 2 ^ 64"
  shows "kvm_ok env vm'"
proof -
  obtain ptr n' where m: "mapped = Some ptr" and n': "add_ov (vm_next_slot vm) 1 = Inr n'"
    using add by (auto simp: add_mem_region_def split: option.splits sum.splits)
  let ?n = "vm_next_slot vm" and ?S = "kvm_slots_after env (vm_calls vm)"
  let ?r = "\<lparr>mem_ptr = ptr, mem_size = sz, guest_phys_addr = gpa, slot = Some ?n\<rparr>"
  have e: "env (vm_calls vm) (whole_call ?r ?n)"
    and vm': "vm' = vm\<lparr>vm_next_slot := n', vm_calls := vm_calls vm @ [whole_call ?r ?n], vm_regions := vm_regions vm @ [?r]\<rparr>"
    using add by (auto simp: add_mem_region_def m n' then_op_Inr_iff set_user_ok whole_call_def Let_def)
  have "rc_size (whole_call ?r ?n) \<noteq> 0"
    using sz by (simp add: whole_call_def word_of_nat_eq_0_iff nat_dvd_not_less)
  then have S': "kvm_slots_after env (vm_calls vm') = ?S(?n \<mapsto> whole_call ?r ?n)"
    using e by (simp add: vm' whole_call_def)
  have below: "slots_below ?S ?n" and whole: "slots_whole ?S (vm_regions vm)"
    and maps: "\<forall>g a. kvm_maps ?S g a \<longleftrightarrow> (\<exists>r\<in>set (vm_regions vm). region_maps r g a)"
    using ok by (simp_all add: kvm_ok_def Let_def)
  have new: "?S ?n = None" by (rule slots_below_None [OF below]) simp
  have "slots_whole (?S(?n \<mapsto> whole_call ?r ?n)) (vm_regions vm @ [?r])"
    using whole new by (auto simp: slots_whole_def nth_append less_Suc_eq)
  then show ?thesis
    using slots_below_insert [OF below n'] ok sz(2) call_maps_whole [of ?r ?n]
    unfolding kvm_ok_def Let_def S' by (auto simp: vm' kvm_maps_insert [where S = ?S and s = ?n, OF new])
qed

section \<open>Splitting a region\<close>

lemma take_slot_ok:
  assumes "take_slot free vm = (Inr s, vm')" and "slots_below S (vm_next_slot vm)"
    and "\<forall>f. free = Some f \<longrightarrow> S f = None \<and> f < vm_next_slot vm"
  shows "S s = None \<and> slots_below (S(s \<mapsto> c)) (vm_next_slot vm') \<and> vm_next_slot vm \<le> vm_next_slot vm' \<and>
    vm_calls vm' = vm_calls vm \<and> vm_regions vm' = vm_regions vm"
proof (cases free)
  case None
  then obtain n' where n': "add_ov (vm_next_slot vm) 1 = Inr n'" "s = vm_next_slot vm" "vm' = vm\<lparr>vm_next_slot := n'\<rparr>"
    using assms(1) by (auto simp: take_slot_def split: sum.splits)
  then have "vm_next_slot vm \<le> n'" by (auto simp: res_simps word_le_nat_alt dest!: checked_add_SomeD)
  then show ?thesis using n' slots_below_insert [OF assms(2) n'(1)] slots_below_None [OF assms(2)] by simp
next
  case (Some f)
  then show ?thesis using assms by (auto simp: take_slot_def slots_below_def)
qed

text \<open>What a piece of a region maps; the pieces are the arguments of \<open>split_region\<close>.\<close>

definition piece_maps :: "u64 \<Rightarrow> u64 \<Rightarrow> u64 \<times> u64 \<times> u32 \<Rightarrow> nat \<Rightarrow> nat \<Rightarrow> bool" where
  "piece_maps base host = (\<lambda>(fr, to, flags) g a.
     unat fr \<le> g \<and> g < unat to \<and> a = unat host + (g - unat base))"

text \<open>
  What mapping the pieces leaves: every slot kept, the pieces mapped beside what was, and the slot to
  log, if one was added, whole.
\<close>

definition split_done ::
    "region_env \<Rightarrow> u64 \<Rightarrow> u64 \<Rightarrow> (u64 \<times> u64 \<times> u32) list \<Rightarrow> u32 option \<Rightarrow> guest_memory \<Rightarrow> kvm_slots \<Rightarrow> u32 option \<Rightarrow> vm_mem \<Rightarrow> bool" where
  "split_done env base host ps logged mem S logged' vm' \<longleftrightarrow>
     (let S' = kvm_slots_after env (vm_calls vm')
      in vm_regions vm' = mem \<and> slots_below S' (vm_next_slot vm') \<and>
         (\<forall>s c. S s = Some c \<longrightarrow> S' s = Some c) \<and>
         (\<forall>g a. kvm_maps S' g a \<longleftrightarrow> kvm_maps S g a \<or> (\<exists>p\<in>set ps. piece_maps base host p g a)) \<and>
         (logged' = logged \<or> (\<exists>fr to flags s c. (fr, to, flags) \<in> set ps \<and> flags \<noteq> 0 \<and> logged' = Some s \<and>
            S' s = Some c \<and> rc_flags c = flags \<and> rc_gpa c = fr \<and> unat fr + unat (rc_size c) = unat to)))"

lemma split_done_Cons:
  assumes rest: "split_done env base host ps (if flags \<noteq> 0 then Some s else logged) mem (S(s \<mapsto> c)) logged' vm'"
    and new: "S s = None" and maps: "\<And>g x. call_maps c g x \<longleftrightarrow> piece_maps base host (fr, to, flags) g x"
    and c: "rc_flags c = flags" "rc_gpa c = fr" "unat fr + unat (rc_size c) = unat to"
  shows "split_done env base host ((fr, to, flags) # ps) logged mem S logged' vm'"
  unfolding split_done_def Let_def
proof (intro conjI allI impI)
  let ?S = "kvm_slots_after env (vm_calls vm')"
  note r = rest [unfolded split_done_def Let_def]
  show "vm_regions vm' = mem" "slots_below ?S (vm_next_slot vm')" using r by blast+
  show "?S t = Some d" if "S t = Some d" for t d using r new that by (metis fun_upd_apply option.distinct(1))
  show "kvm_maps ?S g x \<longleftrightarrow> kvm_maps S g x \<or> (\<exists>p\<in>set ((fr, to, flags) # ps). piece_maps base host p g x)" for g x
    using r maps new kvm_maps_insert [of S s c] by auto
  have "?S s = Some c" using r by simp
  then show "logged' = logged \<or> (\<exists>fr' to' flags' s c. (fr', to', flags') \<in> set ((fr, to, flags) # ps) \<and> flags' \<noteq> 0 \<and>
      logged' = Some s \<and> ?S s = Some c \<and> rc_flags c = flags' \<and> rc_gpa c = fr' \<and> unat fr' + unat (rc_size c) = unat to')"
    using r c by (cases "flags = 0") auto
qed

lemma split_region_ok:
  "split_region env base host ps free logged vm = (Inr logged', vm') \<Longrightarrow>
    slots_below (kvm_slots_after env (vm_calls vm)) (vm_next_slot vm) \<Longrightarrow>
    \<forall>f. free = Some f \<longrightarrow> kvm_slots_after env (vm_calls vm) f = None \<and> f < vm_next_slot vm \<Longrightarrow>
    split_done env base host ps logged (vm_regions vm) (kvm_slots_after env (vm_calls vm)) logged' vm'"
proof (induction ps arbitrary: free logged vm)
  case (Cons p ps)
  obtain fr to flags where p: "p = (fr, to, flags)" by (cases p)
  let ?S = "kvm_slots_after env (vm_calls vm)"
  show ?case
  proof (cases "fr = to")
    case True
    then show ?thesis using Cons.IH [of free logged vm] Cons.prems by (auto simp: p piece_maps_def split_done_def Let_def)
  next
    case False
    then obtain s vm1 where s: "take_slot free vm = (Inr s, vm1)"
      and q: "(case try_res (sub_ov to fr) (\<lambda>sz. try_res (sub_ov fr base) (\<lambda>d. try_res (add_ov host d) (\<lambda>uaddr. Inr (sz, uaddr)))) of
          Inl e \<Rightarrow> (Inl e, vm1)
        | Inr (sz, uaddr) \<Rightarrow>
            then_op (set_user_memory_region env s flags fr sz uaddr)
              (\<lambda>_. split_region env base host ps None (if flags \<noteq> 0 then Some s else logged)) vm1) = (Inr logged', vm')"
      using Cons.prems(1) by (simp only: p split_region.simps if_False then_op_Inr_iff) blast
    then obtain sz uaddr where
      "try_res (sub_ov to fr) (\<lambda>sz. try_res (sub_ov fr base) (\<lambda>d. try_res (add_ov host d) (\<lambda>uaddr. Inr (sz, uaddr)))) = Inr (sz, uaddr)"
      by (auto split: sum.splits)
    then obtain d where a: "sub_ov to fr = Inr sz" "sub_ov fr base = Inr d" "add_ov host d = Inr uaddr"
      by (auto simp: res_simps)
    then obtain vm2 where u: "set_user_memory_region env s flags fr sz uaddr vm1 = (Inr (), vm2)"
      and r: "split_region env base host ps None (if flags \<noteq> 0 then Some s else logged) vm2 = (Inr logged', vm')"
      using q by (auto simp: then_op_Inr_iff)
    let ?c = "\<lparr>rc_slot = s, rc_flags = flags, rc_gpa = fr, rc_size = sz, rc_uaddr = uaddr\<rparr>"
    have sz: "unat sz = unat to - unat fr" "unat fr \<le> unat to" and d: "unat base \<le> unat fr"
      and ua: "unat uaddr = unat host + (unat fr - unat base)"
      using a by (auto simp: res_simps dest!: checked_sub_SomeD checked_add_SomeD)
    have "sz \<noteq> 0" using sz False by (auto simp: word_unat_eq_iff)
    note t = take_slot_ok [OF s Cons.prems(2,3), of ?c]
    have S2: "kvm_slots_after env (vm_calls vm2) = ?S(s \<mapsto> ?c)" and v2: "vm_next_slot vm2 = vm_next_slot vm1" "vm_regions vm2 = vm_regions vm"
      using u t \<open>sz \<noteq> 0\<close> by (auto simp: set_user_ok)
    have maps: "call_maps ?c g x \<longleftrightarrow> piece_maps base host (fr, to, flags) g x" for g x
      using sz d ua by (auto simp: call_maps_def piece_maps_def)
    have "split_done env base host ps (if flags \<noteq> 0 then Some s else logged) (vm_regions vm) (?S(s \<mapsto> ?c)) logged' vm'"
      by (rule Cons.IH [OF r, unfolded S2 v2]) (use t in \<open>blast, simp\<close>)
    then show ?thesis unfolding p by (rule split_done_Cons) (use t maps sz in simp_all)
  qed
qed (simp add: split_done_def)

section \<open>Logging the pages of a range\<close>

lemma covering_region_ok:
  "covering_region k start e mem = Inr (Some i) \<Longrightarrow> k \<le> i \<and> i < k + length mem \<and>
    region_covers start e (mem ! (i - k)) = Inr True"
proof (induction mem arbitrary: k)
  case (Cons r rs)
  then obtain b where b: "region_covers start e r = Inr b" "b \<and> i = k \<or> \<not> b \<and> covering_region (Suc k) start e rs = Inr (Some i)"
    by (auto simp: res_simps split: if_splits)
  then show ?case using Cons.IH [of "Suc k"] by (auto simp: nth_Cons')
qed simp

lemma next_multiple_of_ok:
  assumes "next_multiple_of a b = Inr c" and "b \<noteq> 0"
  shows "unat a \<le> unat c" "unat b dvd unat c" "unat c < unat a + unat b"
proof -
  have m: "unat (a mod b) = unat a mod unat b" by (simp add: unat_mod)
  have b: "unat b \<noteq> 0" using assms(2) by (simp add: unat_eq_0)
  show "unat a \<le> unat c" "unat b dvd unat c" "unat c < unat a + unat b"
  proof (atomize (full), cases "a mod b = 0")
    case True
    then have "c = a" "unat a mod unat b = 0" using assms(1) m by (simp_all add: next_multiple_of_def)
    then show "unat a \<le> unat c \<and> unat b dvd unat c \<and> unat c < unat a + unat b" using b by auto
  next
    case False
    then have r: "unat a mod unat b \<noteq> 0" using m by (metis unat_eq_0)
    then have c: "unat c = unat a + (unat b - unat a mod unat b)"
      using assms(1) m False b by (auto simp: next_multiple_of_def res_simps unat_sub_no_borrow dest!: checked_add_SomeD)
    have "unat a + (unat b - unat a mod unat b) = (unat a div unat b + 1) * unat b"
      unfolding distrib_right mult_1
      using b mod_less_divisor [of "unat b" "unat a"] div_mult_mod_eq [of "unat a" "unat b"] by linarith
    then have "unat b dvd unat c" unfolding c by simp
    moreover have "unat a \<le> unat c" "unat c < unat a + unat b"
      using c r b mod_less_divisor [of "unat b" "unat a"] by linarith+
    ultimately show "unat a \<le> unat c \<and> unat b dvd unat c \<and> unat c < unat a + unat b" by blast
  qed
qed

lemma log_dirty_pagesE:
  assumes "log_dirty_pages env flag unshared dup_ok gpa sz vm = (Inr (s, pages), vm')"
  obtains e end' idx region_end sl vm1 vm2 r u where
    "add_ov gpa sz = Inr e" "next_multiple_of e PAGE_SIZE = Inr end'"
    "covering_region 0 (gpa AND NOT (PAGE_SIZE - 1)) end' (vm_regions vm) = Inr (Some idx)" "r = vm_regions vm ! idx"
    "add_ov (guest_phys_addr r) (word_of_nat (mem_size r)) = Inr region_end" "slot r = Some sl"
    "set_user_memory_region env sl 0 (guest_phys_addr r) 0 (mem_ptr r) vm = (Inr u, vm1)"
    "split_region env (guest_phys_addr r) (mem_ptr r) [(guest_phys_addr r, gpa AND NOT (PAGE_SIZE - 1), 0),
      (gpa AND NOT (PAGE_SIZE - 1), end', flag), (end', region_end, 0)] (Some sl) None vm1 = (Inr (Some s), vm2)"
    "vm' = vm2\<lparr>vm_regions := (vm_regions vm2)[idx := (vm_regions vm2 ! idx)\<lparr>slot := None\<rparr>]\<rparr>"
    "pages = unat ((end' - (gpa AND NOT (PAGE_SIZE - 1))) div PAGE_SIZE)"
proof -
  let ?start = "gpa AND NOT (PAGE_SIZE - 1)" and ?mem = "vm_regions vm"
  let ?X = "try_res (add_ov gpa sz) (\<lambda>e. try_res (next_multiple_of e PAGE_SIZE) (\<lambda>end'.
                try_res (covering_region 0 ?start end' ?mem) (\<lambda>i.
                try_res (ok_or Other i) (\<lambda>idx.
                try_res (add_ov (guest_phys_addr (?mem ! idx)) (word_of_nat (mem_size (?mem ! idx)))) (\<lambda>region_end.
                try_res (ok_or Other (slot (?mem ! idx))) (\<lambda>sl. Inr (end', idx, region_end, sl)))))))"
  note log = assms [unfolded log_dirty_pages_def Let_def]
  obtain end' idx region_end sl where X: "?X = Inr (end', idx, region_end, sl)"
    using log by (cases ?X) auto
  then obtain e where 1: "add_ov gpa sz = Inr e" "next_multiple_of e PAGE_SIZE = Inr end'"
    "covering_region 0 ?start end' ?mem = Inr (Some idx)"
    "add_ov (guest_phys_addr (?mem ! idx)) (word_of_nat (mem_size (?mem ! idx))) = Inr region_end" "slot (?mem ! idx) = Some sl"
    by (auto simp only: try_res_Inr_iff ok_or_iff prod.inject sum.inject)
  from log obtain u vm1 vm2 logged where 2: "set_user_memory_region env sl 0 (guest_phys_addr (?mem ! idx)) 0 (mem_ptr (?mem ! idx)) vm = (Inr u, vm1)"
    "split_region env (guest_phys_addr (?mem ! idx)) (mem_ptr (?mem ! idx)) [(guest_phys_addr (?mem ! idx), ?start, 0),
      (?start, end', flag), (end', region_end, 0)] (Some sl) None vm1 = (Inr logged, vm2)"
    and l: "(if \<not> unshared idx then (Inl (IoError Other), vm2)
      else if \<not> dup_ok then (Inl (IoError OsError), vm2\<lparr>vm_regions := (vm_regions vm2)[idx := (vm_regions vm2 ! idx)\<lparr>slot := None\<rparr>]\<rparr>)
      else case logged of
             None \<Rightarrow> (Inl (Panicked UnwrapNone), vm2\<lparr>vm_regions := (vm_regions vm2)[idx := (vm_regions vm2 ! idx)\<lparr>slot := None\<rparr>]\<rparr>)
           | Some s \<Rightarrow> (Inr (s, unat ((end' - ?start) div PAGE_SIZE)),
               vm2\<lparr>vm_regions := (vm_regions vm2)[idx := (vm_regions vm2 ! idx)\<lparr>slot := None\<rparr>]\<rparr>)) = (Inr (s, pages), vm')"
    unfolding X sum.case prod.case by (simp only: then_op_Inr_iff) blast
  show thesis using that [OF 1(1-3) refl 1(4,5) 2(1)] 2(2) l by (auto split: if_splits option.splits)
qed

lemma bex_set_nth: "(\<exists>x\<in>set xs. P x) \<longleftrightarrow> (\<exists>i<length xs. P (xs ! i))"
  by (metis in_set_conv_nth)

text \<open>The pieces tile the region.\<close>

lemma pieces_tile:
  assumes "unat (guest_phys_addr r) \<le> unat a" "unat a \<le> unat b" "unat b \<le> unat c"
    and "unat c = unat (guest_phys_addr r) + mem_size r"
  shows "(\<exists>p\<in>set [(guest_phys_addr r, a, f1), (a, b, f2), (b, c, f3)]. piece_maps (guest_phys_addr r) (mem_ptr r) p g x) \<longleftrightarrow>
    region_maps r g x"
  using assms by (auto simp: piece_maps_def region_maps_def)

text \<open>
  The slots that replace the region's map every guest address to the host byte it was at, and one of
  them is exactly the pages of the range and has the flag.
\<close>

text \<open>The region that was split has no slot of its own any more; the others keep theirs.\<close>

lemma slots_whole_split:
  assumes whole: "slots_whole S mem" and idx: "idx < length mem" and sl: "slot (mem ! idx) = Some sl"
    and kept: "\<And>t c. (S(sl := None)) t = Some c \<Longrightarrow> S2 t = Some c"
  shows "slots_whole S2 (mem[idx := (mem ! idx)\<lparr>slot := None\<rparr>])"
  unfolding slots_whole_def
proof (intro allI impI)
  let ?mem = "mem[idx := (mem ! idx)\<lparr>slot := None\<rparr>]"
  fix i t assume i: "i < length ?mem" and t: "slot (?mem ! i) = Some t"
  then have ne: "i \<noteq> idx" "?mem ! i = mem ! i" using idx by (auto simp: nth_list_update split: if_splits)
  then have "t \<noteq> sl" "S t = Some (whole_call (mem ! i) t)" "\<forall>j<length mem. slot (mem ! j) = Some t \<longrightarrow> j = i"
    using whole i t idx sl unfolding slots_whole_def by auto
  moreover have "slot (?mem ! j) = Some t \<Longrightarrow> slot (mem ! j) = Some t" for j using idx by (cases "j = idx") simp_all
  ultimately show "S2 t = Some (whole_call (?mem ! i) t) \<and> (\<forall>j<length ?mem. slot (?mem ! j) = Some t \<longrightarrow> j = i)"
    using kept [of t] ne by simp
qed

lemma slot_none_same:
  fixes mem :: guest_memory
  defines "mem' idx \<equiv> mem[idx := (mem ! idx)\<lparr>slot := None\<rparr>]"
  shows "(\<exists>r\<in>set (mem' idx). region_maps r g a) \<longleftrightarrow> (\<exists>r\<in>set mem. region_maps r g a)"
    and "(\<forall>r\<in>set (mem' idx). mem_size r < n) \<longleftrightarrow> (\<forall>r\<in>set mem. mem_size r < n)"
proof -
  have len: "length (mem' idx) = length mem" by (simp add: mem'_def)
  have same: "region_maps (mem' idx ! i) = region_maps (mem ! i)" "mem_size (mem' idx ! i) = mem_size (mem ! i)"
    if "i < length mem" for i
    using that by (cases "i = idx"; simp add: mem'_def region_maps_def fun_eq_iff)+
  show "(\<exists>r\<in>set (mem' idx). region_maps r g a) \<longleftrightarrow> (\<exists>r\<in>set mem. region_maps r g a)"
    unfolding bex_set_nth len using same by auto
  show "(\<forall>r\<in>set (mem' idx). mem_size r < n) \<longleftrightarrow> (\<forall>r\<in>set mem. mem_size r < n)"
    unfolding all_set_conv_all_nth len using same by auto
qed

lemma log_dirty_pages_kvm_ok:
  assumes log: "log_dirty_pages env flag unshared dup_ok gpa sz vm = (Inr (s, pages), vm')" and ok: "kvm_ok env vm"
  shows "kvm_ok env vm' \<and>
    kvm_maps (kvm_slots_after env (vm_calls vm')) = kvm_maps (kvm_slots_after env (vm_calls vm)) \<and>
    (\<exists>c. kvm_slots_after env (vm_calls vm') s = Some c \<and> rc_flags c = flag \<and> unat (rc_gpa c) = unat gpa div 4096 * 4096 \<and>
      unat (rc_size c) = pages * 4096 \<and> unat gpa + unat sz \<le> unat (rc_gpa c) + pages * 4096 \<and>
      unat (rc_gpa c) + pages * 4096 < unat gpa + unat sz + 4096)"
proof -
  let ?start = "gpa AND NOT (PAGE_SIZE - 1)" and ?mem = "vm_regions vm" and ?S = "kvm_slots_after env (vm_calls vm)"
  obtain e end' idx region_end sl vm1 vm2 r u where
    e: "add_ov gpa sz = Inr e" and end': "next_multiple_of e PAGE_SIZE = Inr end'"
    and cov: "covering_region 0 ?start end' ?mem = Inr (Some idx)" and r: "r = ?mem ! idx"
    and re: "add_ov (guest_phys_addr r) (word_of_nat (mem_size r)) = Inr region_end" and sl: "slot r = Some sl"
    and del: "set_user_memory_region env sl 0 (guest_phys_addr r) 0 (mem_ptr r) vm = (Inr u, vm1)"
    and split: "split_region env (guest_phys_addr r) (mem_ptr r) [(guest_phys_addr r, ?start, 0),
      (?start, end', flag), (end', region_end, 0)] (Some sl) None vm1 = (Inr (Some s), vm2)"
    and vm': "vm' = vm2\<lparr>vm_regions := (vm_regions vm2)[idx := (vm_regions vm2 ! idx)\<lparr>slot := None\<rparr>]\<rparr>"
    and pages: "pages = unat ((end' - ?start) div PAGE_SIZE)"
    using log by (rule log_dirty_pagesE)
  have below: "slots_below ?S (vm_next_slot vm)" and whole: "slots_whole ?S ?mem" and sizes: "\<forall>r\<in>set ?mem. mem_size r < 2 ^ 64"
    and maps: "\<forall>g a. kvm_maps ?S g a \<longleftrightarrow> (\<exists>r\<in>set ?mem. region_maps r g a)"
    using ok by (simp_all add: kvm_ok_def Let_def)
  have idx: "idx < length ?mem" and c: "region_covers ?start end' r = Inr True" using covering_region_ok [OF cov] r by auto
  have rsz: "mem_size r < 2 ^ 64" using sizes idx r by simp
  have start: "unat ?start = unat gpa div 4096 * 4096" using and_not_page [of gpa] by simp
  have un: "unat e = unat gpa + unat sz" using e by (auto simp: res_simps dest!: checked_add_SomeD)
  note n = next_multiple_of_ok [OF end', simplified]
  have re': "unat region_end = unat (guest_phys_addr r) + mem_size r"
    using re rsz by (auto simp: res_simps unsigned_of_nat take_bit_nat_eq_self dest!: checked_add_SomeD)
  have b: "unat (guest_phys_addr r) \<le> unat ?start" "unat ?start \<le> unat end'" "unat end' \<le> unat region_end"
    using c re start un n(1) by (auto simp: region_covers_def res_simps word_le_nat_alt split: if_splits)
  note tile = pieces_tile [OF b re']
  have w: "?S sl = Some (whole_call r sl)" using whole idx sl r by (auto simp: slots_whole_def)
  have S1: "kvm_slots_after env (vm_calls vm1) = ?S(sl := None)" and v1: "vm_next_slot vm1 = vm_next_slot vm" "vm_regions vm1 = ?mem"
    using del by (auto simp: set_user_ok)
  define S2 where "S2 = kvm_slots_after env (vm_calls vm2)"
  have "slots_below (?S(sl := None)) (vm_next_slot vm)" using below by (simp add: slots_below_def)
  moreover have "sl < vm_next_slot vm" using below w by (auto simp: slots_below_def)
  ultimately have R: "vm_regions vm2 = ?mem" "slots_below S2 (vm_next_slot vm2)" "\<And>t c. (?S(sl := None)) t = Some c \<Longrightarrow> S2 t = Some c"
      "\<And>g a. kvm_maps S2 g a \<longleftrightarrow> kvm_maps (?S(sl := None)) g a \<or> region_maps r g a"
    and lg: "\<exists>c. S2 s = Some c \<and> rc_flags c = flag \<and> rc_gpa c = ?start \<and> unat ?start + unat (rc_size c) = unat end'"
    using split_region_ok [OF split, unfolded S1 v1 split_done_def Let_def tile] unfolding S2_def by auto
  have eq: "kvm_maps S2 = kvm_maps ?S"
    using kvm_maps_delete [of ?S, OF w] call_maps_whole [OF rsz, of sl] R(4) by (auto simp: fun_eq_iff)
  have regs: "vm_regions vm' = ?mem[idx := r\<lparr>slot := None\<rparr>]" "vm_calls vm' = vm_calls vm2" "vm_next_slot vm' = vm_next_slot vm2"
    using vm' R(1) r by simp_all
  have "slots_whole S2 (vm_regions vm')"
    using slots_whole_split [OF whole idx, of sl S2] sl r R(3) regs(1) by simp
  then have "kvm_ok env vm'"
    using R(2) maps eq sizes slot_none_same [of ?mem idx] r by (simp add: kvm_ok_def Let_def regs S2_def)
  moreover have "pages * 4096 = unat end' - unat ?start"
  proof -
    have "unat (end' - ?start) = unat end' - unat ?start" using b(2) by (simp add: unat_sub_no_borrow)
    moreover have "4096 dvd unat end' - unat ?start" using n(2) start by (intro dvd_diff_nat) auto
    ultimately show ?thesis by (simp add: pages unat_div)
  qed
  ultimately show ?thesis
    using eq lg b(2) start un n(1,3) unfolding S2_def regs(2) by auto
qed

section \<open>What the guest sees is what the VMM sees\<close>

text \<open>The memory of a VM as the program builds it. \<open>mmap\<close> makes no empty mapping.\<close>

inductive kvm_reach :: "region_env \<Rightarrow> vm_mem \<Rightarrow> bool" for env where
  new: "kvm_reach env \<lparr>vm_regions = [], vm_next_slot = 0, vm_calls = []\<rparr>"
| region: "kvm_reach env vm \<Longrightarrow> add_mem_region env mapped sz gpa vm = (Inr i, vm') \<Longrightarrow> 0 < sz \<Longrightarrow> sz < 2 ^ 64 \<Longrightarrow>
    kvm_reach env vm'"
| logged: "kvm_reach env vm \<Longrightarrow> log_dirty_pages env flag unshared dup_ok gpa sz vm = (Inr (s, pages), vm') \<Longrightarrow>
    kvm_reach env vm'"

lemma kvm_reach_ok: "kvm_reach env vm \<Longrightarrow> kvm_ok env vm"
proof (induction rule: kvm_reach.induct)
  case new
  show ?case by (rule kvm_ok_new)
next
  case (region vm mapped sz gpa i vm')
  then show ?case using add_mem_region_kvm_ok by blast
next
  case (logged vm flag unshared dup_ok gpa sz s pages vm')
  then show ?case using log_dirty_pages_kvm_ok by blast
qed

lemma kvm_ok_translates:
  assumes ok: "kvm_ok env vm" and p: "gpa_to_host (vm_regions vm) gpa len = Some p" and i: "i < len"
  shows "kvm_maps (kvm_slots_after env (vm_calls vm)) (unat gpa + i) (unat (mem_ptr (vm_regions vm ! fst p)) + snd p + i)"
proof -
  have "fst p < length (vm_regions vm)" "region_offset (vm_regions vm ! fst p) gpa len = Some (snd p)"
    using gpa_to_host_from_Some [OF p [unfolded gpa_to_host_def]] by simp_all
  then have "region_maps (vm_regions vm ! fst p) (unat gpa + i) (unat (mem_ptr (vm_regions vm ! fst p)) + snd p + i)"
    using i by (auto simp: region_offset_Some_iff region_maps_def)
  then show ?thesis using ok \<open>fst p < _\<close> nth_mem unfolding kvm_ok_def Let_def by blast
qed

lemma kvm_ok_found:
  assumes ok: "kvm_ok env vm" and g: "g < 2 ^ 64"
  shows "(\<exists>a. kvm_maps (kvm_slots_after env (vm_calls vm)) g a) \<longleftrightarrow> gpa_to_host (vm_regions vm) (word_of_nat g) 1 \<noteq> None"
proof -
  have u: "unat (word_of_nat g :: u64) = g" using g by (simp add: unsigned_of_nat take_bit_nat_eq_self)
  have "(\<exists>a. kvm_maps (kvm_slots_after env (vm_calls vm)) g a) \<longleftrightarrow> (\<exists>r\<in>set (vm_regions vm). \<exists>a. region_maps r g a)"
    using ok unfolding kvm_ok_def Let_def by blast
  also have "\<dots> \<longleftrightarrow> gpa_to_host (vm_regions vm) (word_of_nat g) 1 \<noteq> None"
  proof -
    have "(\<exists>a. region_maps r g a) \<longleftrightarrow> region_offset r (word_of_nat g) 1 \<noteq> None" if "mem_size r < 2 ^ 64" for r
      using that by (auto simp: region_offset_None_iff region_maps_def u)
    then show ?thesis using ok by (auto simp: gpa_to_host_def gpa_to_host_from_None kvm_ok_def Let_def)
  qed
  finally show ?thesis .
qed

text \<open>
  C9. The guest and the VMM see the same memory: however the program built it, a pointer the VMM
  translates a guest address to leads, for every byte, to the host byte KVM has mapped there for
  the guest, and translation finds a byte exactly when the guest has one. Logging the writes to a
  range changes nothing of the mapping, though it splits the region's slot, and exactly the pages of the
  range are in the slot whose log is read.
\<close>

theorem guest_sees_vmm_memory:
  assumes "kvm_reach env vm"
  shows "(\<forall>gpa len p i. gpa_to_host (vm_regions vm) gpa len = Some p \<and> i < len \<longrightarrow>
      kvm_maps (kvm_slots_after env (vm_calls vm)) (unat gpa + i) (unat (mem_ptr (vm_regions vm ! fst p)) + snd p + i)) \<and>
    (\<forall>g<2 ^ 64. (\<exists>a. kvm_maps (kvm_slots_after env (vm_calls vm)) g a) \<longleftrightarrow> gpa_to_host (vm_regions vm) (word_of_nat g) 1 \<noteq> None) \<and>
    (\<forall>flag unshared dup_ok gpa sz s pages vm'. log_dirty_pages env flag unshared dup_ok gpa sz vm = (Inr (s, pages), vm') \<longrightarrow>
      kvm_maps (kvm_slots_after env (vm_calls vm')) = kvm_maps (kvm_slots_after env (vm_calls vm)) \<and>
      (\<exists>c. kvm_slots_after env (vm_calls vm') s = Some c \<and> rc_flags c = flag \<and> unat (rc_gpa c) = unat gpa div 4096 * 4096 \<and>
        unat (rc_size c) = pages * 4096 \<and> unat gpa + unat sz \<le> unat (rc_gpa c) + pages * 4096 \<and>
        unat (rc_gpa c) + pages * 4096 < unat gpa + unat sz + 4096))"
  using kvm_ok_translates [OF kvm_reach_ok [OF assms]] kvm_ok_found [OF kvm_reach_ok [OF assms]]
    log_dirty_pages_kvm_ok [OF _ kvm_reach_ok [OF assms]] by blast

text \<open>Two megabytes with the framebuffer logged: the region is in three slots.\<close>

theorem guest_sees_vmm_memory_witness:
  "\<exists>vm vm'. kvm_reach (\<lambda>_ _. True) vm \<and> log_dirty_pages (\<lambda>_ _. True) 1 (\<lambda>_. True) True 0xa0000 0x10000 vm = (Inr (1, 16), vm') \<and>
    kvm_maps (kvm_slots_after (\<lambda>_ _. True) (vm_calls vm')) 0xa0010 0x7f0000aa0010"
proof -
  let ?env = "\<lambda>_ _. True" and ?r = "\<lparr>mem_ptr = 0x7f0000a00000, mem_size = 0x200000, guest_phys_addr = 0, slot = Some 0\<rparr>"
  let ?vm = "\<lparr>vm_regions = [?r], vm_next_slot = 1,
    vm_calls = [\<lparr>rc_slot = 0, rc_flags = 0, rc_gpa = 0, rc_size = 0x200000, rc_uaddr = 0x7f0000a00000\<rparr>]\<rparr>"
  have "add_mem_region ?env (Some 0x7f0000a00000) 0x200000 0 \<lparr>vm_regions = [], vm_next_slot = 0, vm_calls = []\<rparr> = (Inr 0, ?vm)"
    by (simp add: add_mem_region_def set_user_memory_region_def then_op_def Let_def checked_add_def)
  then have reach: "kvm_reach ?env ?vm" by (rule kvm_reach.region [OF kvm_reach.new]) simp_all
  obtain vm' where l: "log_dirty_pages ?env 1 (\<lambda>_. True) True 0xa0000 0x10000 ?vm = (Inr (1, 16), vm')"
    by (simp add: log_dirty_pages_def next_multiple_of_def region_covers_def set_user_memory_region_def take_slot_def then_op_def
        Let_def checked_add_def checked_sub_def)
  have h: "gpa_to_host (vm_regions ?vm) 0xa0000 0x11 = Some (0, 0xa0000)"
    by (simp add: gpa_to_host_def region_offset_def checked_sub_def Let_def)
  have "kvm_maps (kvm_slots_after ?env (vm_calls ?vm)) 0xa0010 0x7f0000aa0010"
    using conjunct1 [OF guest_sees_vmm_memory [OF reach], rule_format, of "0xa0000" "0x11" "(0, 0xa0000)" "0x10"] h by simp
  moreover have "kvm_maps (kvm_slots_after ?env (vm_calls vm')) = kvm_maps (kvm_slots_after ?env (vm_calls ?vm))"
    using guest_sees_vmm_memory [OF reach] l by blast
  ultimately show ?thesis using reach l by metis
qed

end
