(* ===== verification/Vm_Main.thy ===== *)
theory Vm_Main
  imports Cli_Args Guest_Memory "HOL-Library.Sublist"
begin

text \<open>
  The program from start to end: \<open>main\<close> of \<open>src/src/main.rs\<close>, as the sequence of stages it runs on
  a state, each of which can fail. What the stages do is an argument, which \<open>X86_Main\<close> and
  \<open>Arm_Main\<close> give; here is the order, what an error ends, and what becomes of the terminal.
\<close>

section \<open>The first stages\<close>

text \<open>
  \<open>KvmDev::new\<close>, \<open>create_vm\<close> and \<open>create_vcpu\<close> by what the calls they make return: opening the device
  must succeed, a negative result is an error, and a vcpu whose \<open>kvm_run\<close> cannot be mapped is one too.
\<close>

definition ioctl_result :: "int \<Rightarrow> nat res" where
  "ioctl_result ret = (if ret < 0 then Inl (IoError OsError) else Inr (nat ret))"

definition kvm_dev_new :: "bool \<Rightarrow> int \<Rightarrow> nat res" where
  "kvm_dev_new opened run_size =
     try_res (unwrap_res (if opened then Inr () else Inl (IoError OsError))) (\<lambda>_. ioctl_result run_size)"

definition create_vm :: "int \<Rightarrow> nat res" where
  "create_vm ret = ioctl_result ret"

definition map_kvm_run :: "u64 option \<Rightarrow> u64 res" where
  "map_kvm_run mapped = ok_or OsError mapped"

definition create_vcpu :: "int \<Rightarrow> u64 option \<Rightarrow> (nat \<times> u64) res" where
  "create_vcpu ret mapped =
     try_res (ioctl_result ret) (\<lambda>fd. try_res (map_kvm_run mapped) (\<lambda>run. Inr (fd, run)))"

lemma create_vcpu_ok: "create_vcpu ret mapped = Inr (fd, run) \<longleftrightarrow> 0 \<le> ret \<and> fd = nat ret \<and> mapped = Some run"
  by (auto simp: create_vcpu_def map_kvm_run_def ioctl_result_def res_simps)

text \<open>A flat binary instead of Linux: a region at address 0, 256 KiB unless the options say otherwise.\<close>

definition load_binary ::
    "region_env \<Rightarrow> u64 option \<Rightarrow> u8 list res \<Rightarrow> args \<Rightarrow> (vm_mem \<times> ram, unit) oper" where
  "load_binary env mapped binary args = (\<lambda>(vm, m).
     case add_mem_region env mapped (unat (case ar_memory args of None \<Rightarrow> push_bit 10 256 | Some s \<Rightarrow> s)) 0x0 vm of
       (Inl e, vm) \<Rightarrow> (Inl e, vm, m)
     | (Inr idx, vm) \<Rightarrow>
         (case load_file_to_memory (vm_regions vm) idx binary (ar_load_addr args) m of
            (Inl e, m) \<Rightarrow> (Inl e, vm, m)
          | (Inr _, m) \<Rightarrow> (Inr (), vm, m)))"

section \<open>Stages\<close>

datatype stage =
    NewKvm | CreateVm | PreVcpuInit | CreateVcpu | ArchInit | SetIp
  | LoadLinux | LoadBinary | InitMmioDevices | InitIoDevices | StartRfb | RunVm | RestoreTty

definition boot_stages :: "args \<Rightarrow> stage list" where
  "boot_stages args =
     [NewKvm, CreateVm, PreVcpuInit, CreateVcpu, ArchInit, SetIp] @
     (if ar_linux args \<noteq> None then [LoadLinux]
      else if ar_binary args \<noteq> None then [LoadBinary] else []) @
     [InitMmioDevices, InitIoDevices] @ (if ar_vnc args \<noteq> None then [StartRfb] else [])"

text \<open>What a stage does. The outcome of loading Linux is unwrapped.\<close>

type_synonym 's stage_ops = "stage \<Rightarrow> ('s, unit) oper"

definition stage_step :: "'s stage_ops \<Rightarrow> stage \<Rightarrow> ('s, unit) oper" where
  "stage_step ops st s =
     (case ops st s of (r, s') \<Rightarrow> (if st = LoadLinux then unwrap_res r else r, s'))"

text \<open>The stages run are a log beside the state.\<close>

fun run_stages :: "'s stage_ops \<Rightarrow> stage list \<Rightarrow> ('s \<times> stage list, unit) oper" where
  "run_stages ops [] (s, log) = (Inr (), s, log)"
| "run_stages ops (st # rest) (s, log) =
     (case stage_step ops st s of
        (Inl e, s') \<Rightarrow> (Inl e, s', log @ [st])
      | (Inr _, s') \<Rightarrow> run_stages ops rest (s', log @ [st]))"

text \<open>\<open>saved\<close>: \<open>save_tty\<close> found a terminal. The result is the one of the run.\<close>

definition vm_main :: "'s stage_ops \<Rightarrow> args \<Rightarrow> bool \<Rightarrow> 's \<Rightarrow> unit res \<times> 's \<times> stage list" where
  "vm_main ops args saved s =
     (case run_stages ops (boot_stages args) (s, []) of
        (Inl e, s', log) \<Rightarrow> (Inl e, s', log)
      | (Inr _, s', log) \<Rightarrow>
          (case stage_step ops RunVm s' of
             (r, s'') \<Rightarrow> (r, s'', log @ [RunVm] @ (if saved then [RestoreTty] else []))))"

section \<open>Order and errors\<close>

lemma run_stages_prefix:
  "run_stages ops sts (s, log) = (r, s', log') \<Longrightarrow>
    \<exists>done. log' = log @ done \<and> prefix done sts \<and> (r = Inr () \<longrightarrow> done = sts) \<and>
      (\<forall>e. r = Inl e \<longrightarrow> done \<noteq> [] \<and> (\<exists>t. stage_step ops (last done) t = (Inl e, s')))"
proof (induction sts arbitrary: s log)
  case (Cons st rest)
  obtain r1 s1 where st: "stage_step ops st s = (r1, s1)" by force
  show ?case
  proof (cases r1)
    case (Inl e)
    then show ?thesis using Cons.prems st by (intro exI [of _ "[st]"]) auto
  next
    case (Inr x)
    then obtain dn where "log' = (log @ [st]) @ dn" "prefix dn rest" "r = Inr () \<longrightarrow> dn = rest"
      "\<forall>e. r = Inl e \<longrightarrow> dn \<noteq> [] \<and> (\<exists>t. stage_step ops (last dn) t = (Inl e, s'))"
      using Cons.IH [of s1 "log @ [st]"] Cons.prems st by auto
    then show ?thesis by (intro exI [of _ "st # dn"]) auto
  qed
qed auto

lemma run_stages_ok:
  "run_stages ops [] (s, log) = (Inr (), t, log') \<longleftrightarrow> t = s \<and> log' = log"
  "run_stages ops (st # rest) (s, log) = (Inr (), t, log') \<longleftrightarrow>
    (\<exists>s1. stage_step ops st s = (Inr (), s1) \<and> run_stages ops rest (s1, log @ [st]) = (Inr (), t, log'))"
  by (auto split: prod.splits sum.splits)

lemma stage_step_ok: "stage_step ops st s = (Inr (), s') \<longleftrightarrow> ops st s = (Inr (), s')"
  by (auto simp: stage_step_def unwrap_res_def split: prod.splits sum.splits fault.splits)

lemma boot_stages_facts:
  "RunVm \<notin> set (boot_stages args)" "RestoreTty \<notin> set (boot_stages args)" "distinct (boot_stages args)"
  by (auto simp: boot_stages_def)

text \<open>
  The stages run in the fixed order, so guest memory is loaded before any device exists and
  everything before the VM runs; the first that fails ends the program with its error. The terminal
  is restored after every run of the VM, however it ends, when it was saved; a failure between the
  start of the serial frontend and the run is not followed by a restore.
\<close>

theorem main_restores_terminal:
  assumes "vm_main ops args saved s = (r, s', log)"
  shows "prefix log (boot_stages args @ [RunVm, RestoreTty]) \<and>
    (RestoreTty \<in> set log \<longleftrightarrow> saved \<and> RunVm \<in> set log) \<and>
    (RunVm \<notin> set log \<longrightarrow> (\<exists>e t. r = Inl e \<and> stage_step ops (last log) t = (Inl e, s'))) \<and>
    (RunVm \<in> set log \<longrightarrow> (\<exists>t. run_stages ops (boot_stages args) (s, []) = (Inr (), t, boot_stages args) \<and>
      stage_step ops RunVm t = (r, s')))"
proof -
  obtain r0 s0 log0 where run: "run_stages ops (boot_stages args) (s, []) = (r0, s0, log0)" by (metis prod_cases3)
  obtain dn where d: "log0 = dn" "prefix dn (boot_stages args)" "r0 = Inr () \<longrightarrow> dn = boot_stages args"
    "\<forall>e. r0 = Inl e \<longrightarrow> dn \<noteq> [] \<and> (\<exists>t. stage_step ops (last dn) t = (Inl e, s0))"
    using run_stages_prefix [OF run] by auto
  note f = boot_stages_facts [of args]
  show ?thesis
  proof (cases r0)
    case (Inl e)
    then have "r = Inl e" "log = dn" "s' = s0" using assms run d(1) by (simp_all add: vm_main_def)
    moreover have "RunVm \<notin> set dn" "RestoreTty \<notin> set dn" using f d(2) set_mono_prefix by blast+
    ultimately show ?thesis using d Inl by (simp add: prefix_append)
  next
    case (Inr x)
    then have run': "stage_step ops RunVm s0 = (r, s')" and log: "log = boot_stages args @ [RunVm] @ (if saved then [RestoreTty] else [])"
      using assms run d by (auto simp: vm_main_def split: prod.splits)
    show ?thesis unfolding log using f run d Inr run' by auto
  qed
qed

theorem main_restores_terminal_witness:
  "let args = \<lparr>ar_binary = None, ar_linux = Some [], ar_memory = None, ar_load_addr = 0, ar_dtb = None,
      ar_initramfs = None, ar_disk = None, ar_tap = None, ar_append = None, ar_vnc = None\<rparr>;
     fails = (\<lambda>st st' s. (if st' = st then Inl (IoError OsError) else Inr (), s))
   in RestoreTty \<in> set (snd (snd (vm_main (fails RunVm) args True ()))) \<and>
      RestoreTty \<notin> set (snd (snd (vm_main (fails InitMmioDevices) args True ())))"
proof -
  let ?args = "\<lparr>ar_binary = None, ar_linux = Some [], ar_memory = None, ar_load_addr = 0, ar_dtb = None,
      ar_initramfs = None, ar_disk = None, ar_tap = None, ar_append = None, ar_vnc = None\<rparr> :: args"
  let ?f = "\<lambda>st st' s. (if st' = st then Inl (IoError OsError) else Inr (), s)"
  have run: "RunVm \<in> set (snd (snd (vm_main (?f RunVm) ?args True ())))"
      "RunVm \<notin> set (snd (snd (vm_main (?f InitMmioDevices) ?args True ())))"
    by (simp_all add: vm_main_def boot_stages_def stage_step_def unwrap_res_def)
  show ?thesis unfolding Let_def
    using main_restores_terminal [of "?f RunVm" ?args True "()"] main_restores_terminal [of "?f InitMmioDevices" ?args True "()"] run
    by (cases "vm_main (?f RunVm) ?args True ()"; cases "vm_main (?f InitMmioDevices) ?args True ()") auto
qed

end
