(* ===== verification/X86_Main.thy ===== *)
theory X86_Main
  imports Machine Pvh_Boot Kvm_Slots Vm_Main
begin

text \<open>
  \<open>main\<close> of \<open>src/src/main.rs\<close> on x86: the stages of \<open>Vm_Main\<close> with the functions they call, from
  opening KVM to the moment the vcpus start, composed over one state of machine and vcpu.
\<close>

section \<open>Stages\<close>

text \<open>
  What the host answers: the outcomes of the calls, in the order they are made, and the contents of
  the files named on the command line.
\<close>

record x86_host =
  xh_kvm :: bool
  xh_run_size :: int
  xh_vm :: int
  xh_irqchip :: bool
  xh_pit :: bool
  xh_vcpu :: int
  xh_run_map :: "u64 option"
  xh_supported :: bool
  xh_cpuid :: bool
  xh_pvh :: pvh_env
  xh_linux :: "elf_file res"
  xh_initramfs :: "u8 list res"
  xh_binary :: "u8 list res"
  xh_disk :: "u8 list res"
  xh_tap :: "unit res"
  xh_log_flag :: u32
  xh_unshared :: "nat \<Rightarrow> bool"
  xh_dup :: bool
  xh_ring :: "coalesced_ring option res"
  xh_bound :: "unit res"

type_synonym x86_world = "machine \<times> x86_vcpu"

text \<open>\<open>run\<close> is \<open>VM::run\<close>, whose threads are the matter of \<open>Vcpu_Loop\<close>.\<close>

definition x86_stage :: "x86_host \<Rightarrow> (x86_world, unit) oper \<Rightarrow> args \<Rightarrow> x86_world stage_ops" where
  "x86_stage H run args st = (\<lambda>(mc, v).
     case st of
       NewKvm \<Rightarrow> (try_res (kvm_dev_new (xh_kvm H) (xh_run_size H)) (\<lambda>_. Inr ()), mc, v)
     | CreateVm \<Rightarrow> (try_res (create_vm (xh_vm H)) (\<lambda>_. Inr ()), machine_new (mc_ram mc), v)
     | PreVcpuInit \<Rightarrow> (arch_pre_vcpu_init (xh_irqchip H) (xh_pit H), mc, v)
     | CreateVcpu \<Rightarrow> (try_res (create_vcpu (xh_vcpu H) (xh_run_map H)) (\<lambda>_. Inr ()), mc, v)
     | ArchInit \<Rightarrow> (case arch_init (xh_supported H) (xh_cpuid H) (pe_vcpu (xh_pvh H)) v of (r, v) \<Rightarrow> (r, mc, v))
     | SetIp \<Rightarrow> (case set_ip (pe_vcpu (xh_pvh H)) (ar_load_addr args) v of (r, v) \<Rightarrow> (r, mc, v))
     | LoadLinux \<Rightarrow>
         (case linux_pvh_boot (xh_pvh H) (xh_linux H) args (map_option (\<lambda>name. (name, xh_initramfs H)) (ar_initramfs args))
                 (mc_mem mc, mc_ram mc, v) of
            (r, vm, m, v) \<Rightarrow> (r, mc\<lparr>mc_mem := vm, mc_ram := m\<rparr>, v))
     | LoadBinary \<Rightarrow>
         (case load_binary (pe_region (xh_pvh H)) (pe_mapped (xh_pvh H) 0) (xh_binary H) args (mc_mem mc, mc_ram mc) of
            (r, vm, m) \<Rightarrow> (r, mc\<lparr>mc_mem := vm, mc_ram := m\<rparr>, v))
     | InitMmioDevices \<Rightarrow>
         (case arch_init_mmio_devices (map_option (\<lambda>_. xh_disk H) (ar_disk args)) (map_option (\<lambda>_. xh_tap H) (ar_tap args)) mc of
            (r, mc) \<Rightarrow> (r, mc, v))
     | InitIoDevices \<Rightarrow>
         (case arch_init_io_devices
                 (log_dirty_pages (pe_region (xh_pvh H)) (xh_log_flag H) (xh_unshared H) (xh_dup H)
                   VGA_FRAMEBUFFER (word_of_nat VGA_FRAMEBUFFER_SIZE)) (xh_ring H) mc of
            (r, mc) \<Rightarrow> (r, mc, v))
     | StartRfb \<Rightarrow> (xh_bound H, mc, v)
     | RunVm \<Rightarrow> run (mc, v)
     | RestoreTty \<Rightarrow> (Inr (), mc, v))"

section \<open>What the stages leave\<close>

lemma arch_init_mmio_keeps:
  assumes "arch_init_mmio_devices disk tap mc = (r, mc')"
  shows "\<exists>bus. mc' = mc\<lparr>mc_mmio := bus\<rparr>"
  using assms by (auto simp: arch_init_mmio_devices_def split: prod.splits)

lemma arch_init_io_keeps:
  assumes "arch_init_io_devices dirty ring mc = (Inr (), mc')"
  shows "mc_ram mc' = mc_ram mc \<and> mc_irqs mc' = mc_irqs mc \<and>
    (\<exists>r. mc_vga mc' = Some (vga_new (gpa_to_host (vm_regions (mc_mem mc)) VGA_FRAMEBUFFER VGA_FRAMEBUFFER_SIZE)
      (gpa_to_host (vm_regions (mc_mem mc)) VGA_FRAMEBUFFER VGA_FRAMEBUFFER_SIZE \<noteq> None) r)) \<and>
    (mc_mem mc' = mc_mem mc \<or> (\<exists>s pages. dirty (mc_mem mc) = (Inr (s, pages), mc_mem mc')))"
  using assms by (auto simp: arch_init_io_devices_def Let_def split: option.splits sum.splits prod.splits)

lemma unat_min_mmio: "unat (min (ram :: u64) MMIO_START) = min (unat ram) 0xc0000000"
  by (simp add: min_def word_le_nat_alt)

lemma memmap_of_least: "memmap_of ram = Inr maps \<Longrightarrow> 0x100000 \<le> unat (min ram MMIO_START)"
  by (auto simp: memmap_of_def res_simps dest!: checked_sub_SomeD)

lemma add_ram_kvm_reach:
  assumes "add_ram env mapped ram vm = (Inr idx, vm')" and "kvm_reach env vm" and "memmap_of ram = Inr maps"
  shows "kvm_reach env vm'"
proof -
  have ram: "0x100000 \<le> unat (min ram MMIO_START)"
    by (rule memmap_of_least [OF assms(3)])
  obtain vm1 where a1: "add_mem_region env (mapped 0) (unat (min ram MMIO_START)) 0x0 vm = (Inr idx, vm1)"
    and a2: "vm' = vm1 \<or> (\<exists>j. MMIO_START < ram \<and> add_mem_region env (mapped 1) (unat (ram - MMIO_START)) HIGH_RAM_START vm1 = (Inr j, vm'))"
    using assms(1) by (auto simp: add_ram_def then_op_def split: prod.splits sum.splits if_splits)
  have r1: "kvm_reach env vm1" by (rule kvm_reach.region [OF assms(2) a1]) (use ram unat_less_two_power [of "min ram MMIO_START"] in auto)
  show ?thesis
  proof (rule disjE [OF a2])
    assume "\<exists>j. MMIO_START < ram \<and> add_mem_region env (mapped 1) (unat (ram - MMIO_START)) HIGH_RAM_START vm1 = (Inr j, vm')"
    then obtain j where "MMIO_START < ram" "add_mem_region env (mapped 1) (unat (ram - MMIO_START)) HIGH_RAM_START vm1 = (Inr j, vm')"
      by blast
    then show ?thesis
      using unat_less_two_power [of "ram - MMIO_START"]
      by (intro kvm_reach.region [OF r1]) (auto simp: unat_sub_no_borrow word_less_nat_alt)
  qed (simp add: r1)
qed

text \<open>The framebuffer is in the first region of a PVH guest.\<close>

lemma pvh_framebuffer:
  assumes "vm_regions vm = r # rs" and "guest_phys_addr r = 0" and "0x100000 \<le> mem_size r"
  shows "gpa_to_host (vm_regions vm) VGA_FRAMEBUFFER VGA_FRAMEBUFFER_SIZE = Some (0, 0xa0000)"
  using assms by (simp add: gpa_to_host_def region_offset_def checked_sub_def Let_def)

lemma boot_run_stages:
  assumes "run_stages (x86_stage H run args) (boot_stages args) ((machine_new m, v), []) = (Inr (), (mc, v'), log)"
    and "ar_linux args = Some path"
  shows "\<exists>v1 vm m' mc1. linux_pvh_boot (xh_pvh H) (xh_linux H) args (map_option (\<lambda>name. (name, xh_initramfs H)) (ar_initramfs args))
      (mc_mem (machine_new m), m, v1) = (Inr (), vm, m', v') \<and>
    arch_init_mmio_devices (map_option (\<lambda>_. xh_disk H) (ar_disk args)) (map_option (\<lambda>_. xh_tap H) (ar_tap args))
      ((machine_new m')\<lparr>mc_mem := vm\<rparr>) = (Inr (), mc1) \<and>
    arch_init_io_devices (log_dirty_pages (pe_region (xh_pvh H)) (xh_log_flag H) (xh_unshared H) (xh_dup H)
      VGA_FRAMEBUFFER (word_of_nat VGA_FRAMEBUFFER_SIZE)) (xh_ring H) mc1 = (Inr (), mc)"
proof -
  let ?ops = "x86_stage H run args"
  have b: "boot_stages args = [NewKvm, CreateVm, PreVcpuInit, CreateVcpu, ArchInit, SetIp, LoadLinux, InitMmioDevices, InitIoDevices] @
      (if ar_vnc args \<noteq> None then [StartRfb] else [])"
    using assms(2) by (simp add: boot_stages_def)
  obtain s1 s2 s3 s4 s5 s6 s7 s8 s9 log9 where
    st: "?ops NewKvm (machine_new m, v) = (Inr (), s1)" "?ops CreateVm s1 = (Inr (), s2)" "?ops PreVcpuInit s2 = (Inr (), s3)"
      "?ops CreateVcpu s3 = (Inr (), s4)" "?ops ArchInit s4 = (Inr (), s5)" "?ops SetIp s5 = (Inr (), s6)"
      "?ops LoadLinux s6 = (Inr (), s7)" "?ops InitMmioDevices s7 = (Inr (), s8)" "?ops InitIoDevices s8 = (Inr (), s9)"
    and rfb: "run_stages ?ops (if ar_vnc args \<noteq> None then [StartRfb] else []) (s9, log9) = (Inr (), (mc, v'), log)"
    using assms(1) unfolding b append_Cons append_Nil run_stages_ok stage_step_ok by blast
  have "s1 = (machine_new m, v)" using st(1) by (simp add: x86_stage_def)
  then have "s2 = (machine_new m, v)" using st(2) by (simp add: x86_stage_def machine_new_def)
  then have "s4 = (machine_new m, v)" using st(3,4) by (auto simp: x86_stage_def)
  then obtain v1 where s6: "s6 = (machine_new m, v1)" using st(5,6) by (auto simp: x86_stage_def split: prod.splits)
  then obtain vm m' v2 where l: "linux_pvh_boot (xh_pvh H) (xh_linux H) args (map_option (\<lambda>name. (name, xh_initramfs H)) (ar_initramfs args))
      (mc_mem (machine_new m), m, v1) = (Inr (), vm, m', v2)" and s7: "s7 = ((machine_new m')\<lparr>mc_mem := vm\<rparr>, v2)"
    using st(7) by (auto simp: x86_stage_def machine_new_def split: prod.splits)
  obtain mc1 where i: "arch_init_mmio_devices (map_option (\<lambda>_. xh_disk H) (ar_disk args)) (map_option (\<lambda>_. xh_tap H) (ar_tap args))
      ((machine_new m')\<lparr>mc_mem := vm\<rparr>) = (Inr (), mc1)" and s8: "s8 = (mc1, v2)"
    using st(8) s7 by (auto simp: x86_stage_def split: prod.splits)
  obtain mc2 where j: "arch_init_io_devices (log_dirty_pages (pe_region (xh_pvh H)) (xh_log_flag H) (xh_unshared H) (xh_dup H)
      VGA_FRAMEBUFFER (word_of_nat VGA_FRAMEBUFFER_SIZE)) (xh_ring H) mc1 = (Inr (), mc2)" and s9: "s9 = (mc2, v2)"
    using st(9) s8 by (auto simp: x86_stage_def split: prod.splits)
  have "(mc, v') = s9"
    using rfb by (auto simp del: run_stages.simps simp: run_stages_ok stage_step_ok x86_stage_def split: if_splits)
  then show ?thesis using l i j s9 by blast
qed


text \<open>The kernel, module and two megabytes of \<open>Pvh_Boot\<close>, on a host that refuses nothing.\<close>

definition wit_host :: x86_host where
  "wit_host = \<lparr>xh_kvm = True, xh_run_size = 0x3000, xh_vm = 4, xh_irqchip = True, xh_pit = True, xh_vcpu = 5,
     xh_run_map = Some 0x6000, xh_supported = True, xh_cpuid = True, xh_pvh = wit_env, xh_linux = Inr wit_elf,
     xh_initramfs = Inr [7], xh_binary = Inr [], xh_disk = Inr [], xh_tap = Inr (), xh_log_flag = 1,
     xh_unshared = (\<lambda>_. True), xh_dup = True, xh_ring = Inr None, xh_bound = Inr ()\<rparr>"

lemma wit_log:
  assumes "vm_regions vm = wit_mem" and "vm_next_slot vm = 1"
  shows "\<exists>x vm'. log_dirty_pages (\<lambda>_ _. True) 1 (\<lambda>_. True) True 0xa0000 0xfa00 vm = (Inr x, vm')"
  using assms
  by (cases vm) (simp add: log_dirty_pages_def next_multiple_of_def region_covers_def set_user_memory_region_def take_slot_def
      then_op_def Let_def checked_add_def checked_sub_def wit_mem_def)

lemma wit_run:
  "\<exists>s. run_stages (x86_stage wit_host run wit_args) (boot_stages wit_args) ((machine_new (\<lambda>_ _. 0), v), []) =
    (Inr (), s, boot_stages wit_args)"
proof -
  let ?env = "pe_vcpu wit_env"
  obtain v1 where v1: "arch_init True True ?env v = (Inr (), v1)"
    by (simp add: arch_init_def vcpu_call_defs wit_env_def)
  obtain v2 where v2: "set_ip ?env 0 v1 = (Inr (), v2)"
    by (simp add: set_ip_def vcpu_call_defs wit_env_def)
  obtain vm m v3 where boot: "linux_pvh_boot wit_env (Inr wit_elf) wit_args (Some ([0x69], Inr [7]))
      (\<lparr>vm_regions = [], vm_next_slot = 0, vm_calls = []\<rparr>, \<lambda>_ _. 0, v2) = (Inr (), vm, m, v3)"
    and vm: "vm_regions vm = wit_mem" "vm_next_slot vm = 1"
    using wit_boot by blast
  obtain x vm' where log: "log_dirty_pages (\<lambda>_ _. True) 1 (\<lambda>_. True) True 0xa0000 0xfa00 vm = (Inr x, vm')"
    using wit_log [OF vm] by blast
  have fb: "gpa_to_host (vm_regions vm) VGA_FRAMEBUFFER VGA_FRAMEBUFFER_SIZE = Some (0, 0xa0000)"
    by (rule pvh_framebuffer [OF vm(1) [unfolded wit_mem_def]]) simp_all
  have args: "ar_linux wit_args = Some []" "ar_vnc wit_args = None" "ar_initramfs wit_args = Some [0x69]" "ar_disk wit_args = None"
      "ar_tap wit_args = None" "ar_load_addr wit_args = 0"
    by (simp_all add: wit_args_def)
  show ?thesis
    using v1 v2 boot log fb
    by (simp add: boot_stages_def args stage_step_def x86_stage_def wit_host_def kvm_dev_new_def unwrap_res_def ioctl_result_def
        create_vm_def create_vcpu_def map_kvm_run_def arch_pre_vcpu_init_def machine_new_def arch_init_mmio_devices_def
        init_virtio_blk_def init_virtio_net_def then_op_def arch_init_io_devices_def Let_def wit_env_def split: prod.split)
qed


end
