(* ===== verification/Vcpu_Loop.thy ===== *)
theory Vcpu_Loop
  imports Vm_Control
begin

text \<open>
  The vcpu threads of \<open>src/src/main.rs\<close> (\<open>VM::run\<close>, \<open>VCPU::run\<close>, \<open>VCPU::run_loop\<close>,
  \<open>kick_handler\<close>) against the device threads that kick and stop them. Each atomic access of the
  code is a step of its own, so that every interleaving is a run of \<open>vcpu_step\<close>: a kick or stop
  stores its flag and, separately, sends its signals under the registry's lock; a signal may be
  delivered at any point outside \<open>KVM_RUN\<close>, and ends \<open>KVM_RUN\<close> with \<open>EINTR\<close> inside it.
\<close>

section \<open>Exits\<close>

datatype exit_reason =
  KVM_EXIT_IO | KVM_EXIT_SHUTDOWN | KVM_EXIT_MMIO | KVM_EXIT_HLT | KVM_EXIT_INTERNAL_ERROR |
  KVM_EXIT_FAIL_ENTRY | KVM_EXIT_unknown u32

datatype loop_next = Continue | Leave "unit res"

text \<open>
  What \<open>run_loop\<close> does with an exit: the handler of the device an access reaches returns \<open>handled\<close>,
  \<open>print_regs\<close> returns \<open>printed\<close>.
\<close>

definition exit_action :: "unit res \<Rightarrow> unit res \<Rightarrow> exit_reason \<Rightarrow> loop_next" where
  "exit_action handled printed reason =
     (case reason of
        KVM_EXIT_IO \<Rightarrow> (case handled of Inl e \<Rightarrow> Leave (Inl e) | Inr _ \<Rightarrow> Continue)
      | KVM_EXIT_SHUTDOWN \<Rightarrow> Leave printed
      | KVM_EXIT_MMIO \<Rightarrow> (case handled of Inl e \<Rightarrow> Leave (Inl e) | Inr _ \<Rightarrow> Continue)
      | KVM_EXIT_HLT \<Rightarrow> Leave (Inr ())
      | KVM_EXIT_INTERNAL_ERROR \<Rightarrow> Leave (Inl (IoError Other))
      | KVM_EXIT_FAIL_ENTRY \<Rightarrow> Leave (Inr ())
      | KVM_EXIT_unknown _ \<Rightarrow> Leave (Inr ()))"

text \<open>What it does when \<open>KVM_RUN\<close> fails with an error other than \<open>EINTR\<close>.\<close>

definition run_failure :: "unit res \<Rightarrow> unit res" where
  "run_failure printed = (case printed of Inl e \<Rightarrow> Inl e | Inr _ \<Rightarrow> Inl (IoError OsError))"

text \<open>
  \<open>VM::run\<close>: threads are spawned in order until one fails to, which stops the VM; the first error,
  that of the spawn before those of the threads, is the result. A thread that panics joins as an
  error.
\<close>

fun spawn_all :: "fault option list \<Rightarrow> nat \<times> unit res" where
  "spawn_all [] = (0, Inr ())"
| "spawn_all (None # rest) = (case spawn_all rest of (n, r) \<Rightarrow> (Suc n, r))"
| "spawn_all (Some e # rest) = (0, Inl e)"

definition join_result :: "unit res \<Rightarrow> unit res" where
  "join_result r = (case r of Inl (IoError k) \<Rightarrow> Inl (IoError k) | Inl _ \<Rightarrow> Inl (IoError Other) | Inr u \<Rightarrow> Inr u)"

definition vm_run_result :: "fault option list \<Rightarrow> (nat \<Rightarrow> unit res) \<Rightarrow> unit res" where
  "vm_run_result spawns res =
     (case spawn_all spawns of (n, r) \<Rightarrow>
        foldl (\<lambda>r i. case r of Inl e \<Rightarrow> Inl e | Inr _ \<Rightarrow> join_result (res i)) r [0..<n])"

section \<open>Threads\<close>

text \<open>
  Where a vcpu thread is: before \<open>VCPU::run\<close>; about to register; in \<open>run_loop\<close>, about to load
  \<open>should_stop\<close>, to swap \<open>devices_pending\<close>, to poll the devices, to call \<open>KVM_RUN\<close>, in it, back
  from it with \<open>EINTR\<close>, with an exit to handle or with another error; about to unregister; about
  to clear \<open>KVM_RUN_PTR\<close>; about to store \<open>should_stop\<close>; about to send its signals; done.
\<close>

datatype vcpu_pc =
  Idle | Register | LoopTop | TakePending | Poll | EnterRun | InGuest | Interrupted |
  Handle exit_reason | RunFailed | Unregister "unit res" | ClearPtr "unit res" | StopStore "unit res" |
  StopKill "unit res" | Done "unit res"

record vcpu_thread =
  vt_pc :: vcpu_pc
  vt_run_ptr :: bool
  vt_immediate_exit :: bool
  vt_signal :: bool

text \<open>
  \<open>vw_kicking\<close> and \<open>vw_stopping\<close> count the device threads between the store and the signals of a
  \<open>kick\<close> or \<open>stop\<close>; \<open>vw_polls\<close> counts the completed polls.
\<close>

record vcpu_world =
  vw_control :: vm_control
  vw_threads :: "thread_id \<Rightarrow> vcpu_thread"
  vw_kicking :: nat
  vw_stopping :: nat
  vw_polls :: nat

definition vcpu_world_new :: vcpu_world where
  "vcpu_world_new =
     \<lparr>vw_control = vm_control_new,
      vw_threads = (\<lambda>_. \<lparr>vt_pc = Idle, vt_run_ptr = False, vt_immediate_exit = False, vt_signal = False\<rparr>),
      vw_kicking = 0, vw_stopping = 0, vw_polls = 0\<rparr>"

definition upd_thread :: "thread_id \<Rightarrow> (vcpu_thread \<Rightarrow> vcpu_thread) \<Rightarrow> vcpu_world \<Rightarrow> vcpu_world" where
  "upd_thread t f w = w\<lparr>vw_threads := (vw_threads w)(t := f (vw_threads w t))\<rparr>"

definition goto :: "thread_id \<Rightarrow> vcpu_pc \<Rightarrow> vcpu_world \<Rightarrow> vcpu_world" where
  "goto t pc = upd_thread t (\<lambda>v. v\<lparr>vt_pc := pc\<rparr>)"

text \<open>The handler, on the thread the signal is delivered to.\<close>

definition kick_handler :: "vcpu_thread \<Rightarrow> vcpu_thread" where
  "kick_handler v =
     (if vt_run_ptr v then v\<lparr>vt_signal := False, vt_immediate_exit := True\<rparr> else v\<lparr>vt_signal := False\<rparr>)"

text \<open>\<open>pthread_kill\<close> to each of a list of threads.\<close>

definition send_signals :: "thread_id list \<Rightarrow> vcpu_world \<Rightarrow> vcpu_world" where
  "send_signals ts w = w\<lparr>vw_threads := (\<lambda>t. if t \<in> set ts then (vw_threads w t)\<lparr>vt_signal := True\<rparr> else vw_threads w t)\<rparr>"

text \<open>The two halves of \<open>kick\<close> and \<open>stop\<close>.\<close>

definition kick_store :: "vm_control \<Rightarrow> vm_control" where
  "kick_store c = c\<lparr>devices_pending := True\<rparr>"

definition kick_targets :: "vm_control \<Rightarrow> thread_id list" where
  "kick_targets c = take 1 (vcpu_threads c)"

definition stop_store :: "vm_control \<Rightarrow> vm_control" where
  "stop_store c = c\<lparr>should_stop := True\<rparr>"

lemma ctl_kick_halves: "ctl_kick c = (kick_store c)\<lparr>killed := killed c @ kick_targets c\<rparr>"
  by (cases "vcpu_threads c") (simp_all add: ctl_kick_def kick_store_def kick_targets_def)

lemma ctl_stop_halves: "ctl_stop c = (stop_store c)\<lparr>killed := killed c @ vcpu_threads c\<rparr>"
  by (simp add: ctl_stop_def stop_store_def)

definition upd_control :: "(vm_control \<Rightarrow> vm_control) \<Rightarrow> vcpu_world \<Rightarrow> vcpu_world" where
  "upd_control f w = w\<lparr>vw_control := f (vw_control w)\<rparr>"

section \<open>Steps\<close>

text \<open>
  The steps of a vcpu thread. Only \<open>exit\<close>, \<open>failed\<close> and the outcomes of the calls made are up to the
  environment; \<open>interrupted\<close> is what KVM documents of a pending signal or \<open>immediate_exit\<close>.
\<close>

inductive thread_step :: "thread_id \<Rightarrow> vcpu_world \<Rightarrow> vcpu_world \<Rightarrow> bool" for t where
  begin_run: "vt_pc (vw_threads w t) = Idle \<Longrightarrow>
    thread_step t w (goto t Register (upd_thread t (\<lambda>v. v\<lparr>vt_run_ptr := True\<rparr>) w))"
| register: "vt_pc (vw_threads w t) = Register \<Longrightarrow>
    thread_step t w (goto t LoopTop (upd_control (register_vcpu_thread t) w))"
| stop_seen: "vt_pc (vw_threads w t) = LoopTop \<Longrightarrow> should_stop (vw_control w) \<Longrightarrow>
    thread_step t w (goto t (Unregister (Inr ())) w)"
| no_stop: "vt_pc (vw_threads w t) = LoopTop \<Longrightarrow> \<not> should_stop (vw_control w) \<Longrightarrow>
    thread_step t w (goto t TakePending w)"
| taken: "vt_pc (vw_threads w t) = TakePending \<Longrightarrow> take_devices_pending (vw_control w) = (p, c) \<Longrightarrow>
    thread_step t w (goto t (if p then Poll else EnterRun) (w\<lparr>vw_control := c\<rparr>))"
| polled: "vt_pc (vw_threads w t) = Poll \<Longrightarrow>
    thread_step t w (goto t EnterRun (w\<lparr>vw_polls := vw_polls w + 1\<rparr>))"
| poll_failed: "vt_pc (vw_threads w t) = Poll \<Longrightarrow> thread_step t w (goto t (Unregister (Inl e)) w)"
| immediate: "vt_pc (vw_threads w t) = EnterRun \<Longrightarrow> vt_immediate_exit (vw_threads w t) \<Longrightarrow>
    thread_step t w (goto t Interrupted w)"
| entered: "vt_pc (vw_threads w t) = EnterRun \<Longrightarrow> \<not> vt_immediate_exit (vw_threads w t) \<Longrightarrow>
    thread_step t w (goto t InGuest w)"
| interrupted: "vt_pc (vw_threads w t) = InGuest \<Longrightarrow> vt_signal (vw_threads w t) \<Longrightarrow>
    thread_step t w (goto t Interrupted (upd_thread t kick_handler w))"
| exit: "vt_pc (vw_threads w t) = InGuest \<Longrightarrow> thread_step t w (goto t (Handle reason) w)"
| failed: "vt_pc (vw_threads w t) = InGuest \<Longrightarrow> thread_step t w (goto t RunFailed w)"
| clear: "vt_pc (vw_threads w t) = Interrupted \<Longrightarrow>
    thread_step t w (goto t LoopTop (upd_thread t (\<lambda>v. v\<lparr>vt_immediate_exit := False\<rparr>) w))"
| handled: "vt_pc (vw_threads w t) = Handle reason \<Longrightarrow> exit_action h pr reason = Continue \<Longrightarrow>
    thread_step t w (goto t LoopTop w)"
| left: "vt_pc (vw_threads w t) = Handle reason \<Longrightarrow> exit_action h pr reason = Leave r \<Longrightarrow>
    thread_step t w (goto t (Unregister r) w)"
| gave_up: "vt_pc (vw_threads w t) = RunFailed \<Longrightarrow>
    thread_step t w (goto t (Unregister (run_failure pr)) w)"
| unregister: "vt_pc (vw_threads w t) = Unregister r \<Longrightarrow>
    thread_step t w (goto t (ClearPtr r) (upd_control (unregister_vcpu_thread t) w))"
| clear_ptr: "vt_pc (vw_threads w t) = ClearPtr r \<Longrightarrow>
    thread_step t w (goto t (StopStore r) (upd_thread t (\<lambda>v. v\<lparr>vt_run_ptr := False\<rparr>) w))"
| stop_stored: "vt_pc (vw_threads w t) = StopStore r \<Longrightarrow>
    thread_step t w (goto t (StopKill r) (upd_control stop_store w))"
| stop_killed: "vt_pc (vw_threads w t) = StopKill r \<Longrightarrow>
    thread_step t w (goto t (Done r) (send_signals (vcpu_threads (vw_control w)) w))"

text \<open>The steps of device threads, and the delivery of a signal to a thread outside \<open>KVM_RUN\<close>.\<close>

inductive device_step :: "vcpu_world \<Rightarrow> vcpu_world \<Rightarrow> bool" where
  kick_begin: "device_step w (upd_control kick_store w\<lparr>vw_kicking := vw_kicking w + 1\<rparr>)"
| kick_end: "vw_kicking w = Suc n \<Longrightarrow>
    device_step w (send_signals (kick_targets (vw_control w)) (w\<lparr>vw_kicking := n\<rparr>))"
| stop_begin: "device_step w (upd_control stop_store w\<lparr>vw_stopping := vw_stopping w + 1\<rparr>)"
| stop_end: "vw_stopping w = Suc n \<Longrightarrow>
    device_step w (send_signals (vcpu_threads (vw_control w)) (w\<lparr>vw_stopping := n\<rparr>))"
| deliver: "vt_signal (vw_threads w t) \<Longrightarrow> vt_pc (vw_threads w t) \<noteq> InGuest \<Longrightarrow>
    device_step w (upd_thread t kick_handler w)"

definition vcpu_step :: "vcpu_world \<Rightarrow> vcpu_world \<Rightarrow> bool" where
  "vcpu_step w w' \<longleftrightarrow> device_step w w' \<or> (\<exists>t. thread_step t w w')"

inductive vcpu_reach :: "vcpu_world \<Rightarrow> bool" where
  start: "vcpu_reach vcpu_world_new"
| step: "vcpu_reach w \<Longrightarrow> vcpu_step w w' \<Longrightarrow> vcpu_reach w'"

inductive_cases thread_stepE: "thread_step t w w'"
inductive_cases device_stepE: "device_step w w'"

lemmas world_defs = goto_def upd_thread_def upd_control_def send_signals_def kick_handler_def
  kick_store_def stop_store_def kick_targets_def register_vcpu_thread_def unregister_vcpu_thread_def
  take_devices_pending_def

section \<open>Invariants\<close>

text \<open>Registered, that is between \<open>register\<close> and \<open>unregister\<close>.\<close>

fun in_loop :: "vcpu_pc \<Rightarrow> bool" where
  "in_loop Idle = False" | "in_loop Register = False" | "in_loop (ClearPtr _) = False"
| "in_loop (StopStore _) = False" | "in_loop (StopKill _) = False" | "in_loop (Done _) = False"
| "in_loop _ = True"

text \<open>Past the check of a flag, with nothing of the thread left to do but enter the guest.\<close>

fun past_stop :: "vcpu_pc \<Rightarrow> bool" where
  "past_stop TakePending = True" | "past_stop Poll = True" | "past_stop EnterRun = True"
| "past_stop InGuest = True" | "past_stop _ = False"

fun past_take :: "vcpu_pc \<Rightarrow> bool" where
  "past_take Poll = True" | "past_take EnterRun = True" | "past_take InGuest = True" | "past_take _ = False"

fun leaving :: "vcpu_pc \<Rightarrow> bool" where
  "leaving (ClearPtr _) = True" | "leaving (StopStore _) = True" | "leaving _ = False"

fun killing :: "vcpu_pc \<Rightarrow> bool" where
  "killing (StopKill _) = True" | "killing _ = False"

definition wake :: "vcpu_thread \<Rightarrow> bool" where
  "wake v \<longleftrightarrow> vt_signal v \<or> vt_immediate_exit v"

text \<open>No stop is between its store and its signals.\<close>

definition stops_sent :: "vcpu_world \<Rightarrow> bool" where
  "stops_sent w \<longleftrightarrow> vw_stopping w = 0 \<and> (\<forall>t. \<not> killing (vt_pc (vw_threads w t)))"

definition registry_inv :: "vcpu_world \<Rightarrow> bool" where
  "registry_inv w \<longleftrightarrow> distinct (vcpu_threads (vw_control w)) \<and>
     (\<forall>t. (t \<in> set (vcpu_threads (vw_control w)) \<longleftrightarrow> in_loop (vt_pc (vw_threads w t))) \<and>
       (in_loop (vt_pc (vw_threads w t)) \<or> vt_pc (vw_threads w t) = Register \<longrightarrow> vt_run_ptr (vw_threads w t)) \<and>
       (vt_pc (vw_threads w t) = InGuest \<longrightarrow> \<not> vt_immediate_exit (vw_threads w t)))"

definition stop_inv :: "vcpu_world \<Rightarrow> bool" where
  "stop_inv w \<longleftrightarrow> (should_stop (vw_control w) \<and> stops_sent w \<longrightarrow>
     (\<forall>t. past_stop (vt_pc (vw_threads w t)) \<longrightarrow> wake (vw_threads w t)))"

definition kick_inv :: "vcpu_world \<Rightarrow> bool" where
  "kick_inv w \<longleftrightarrow> (devices_pending (vw_control w) \<and> vw_kicking w = 0 \<and> vcpu_threads (vw_control w) \<noteq> [] \<and>
     past_take (vt_pc (vw_threads w (hd (vcpu_threads (vw_control w))))) \<longrightarrow>
     wake (vw_threads w (hd (vcpu_threads (vw_control w)))) \<or> should_stop (vw_control w) \<or>
     (\<exists>u. leaving (vt_pc (vw_threads w u))))"

lemma registry_thread_step: "thread_step t w w' \<Longrightarrow> registry_inv w \<Longrightarrow> registry_inv w'"
  by (erule thread_stepE) (auto simp: registry_inv_def world_defs split: if_splits)

lemma registry_device_step: "device_step w w' \<Longrightarrow> registry_inv w \<Longrightarrow> registry_inv w'"
  by (erule device_stepE) (auto simp: registry_inv_def world_defs)

lemma past_loop: "past_stop pc \<Longrightarrow> in_loop pc" "past_take pc \<Longrightarrow> past_stop pc"
  by (cases pc; simp)+

text \<open>One thread's view of a step of any thread, other than the stores and signals of a stop.\<close>

lemma thread_step_other: "thread_step t w w' \<Longrightarrow> u \<noteq> t \<Longrightarrow>
    vt_pc (vw_threads w' u) = vt_pc (vw_threads w u) \<and> (wake (vw_threads w u) \<longrightarrow> wake (vw_threads w' u))"
  by (erule thread_stepE) (auto simp: wake_def world_defs)

lemma thread_step_counts: "thread_step t w w' \<Longrightarrow> vw_stopping w' = vw_stopping w \<and> vw_kicking w' = vw_kicking w \<and>
    (should_stop (vw_control w) \<longrightarrow> should_stop (vw_control w'))"
  by (erule thread_stepE) (auto simp: world_defs)

lemma thread_step_killing: "thread_step t w w' \<Longrightarrow>
    (\<exists>r. vt_pc (vw_threads w t) = StopStore r \<and> vt_pc (vw_threads w' t) = StopKill r) \<or>
    (\<exists>r. vt_pc (vw_threads w t) = StopKill r \<and> w' = goto t (Done r) (send_signals (vcpu_threads (vw_control w)) w)) \<or>
    \<not> killing (vt_pc (vw_threads w t)) \<and> \<not> killing (vt_pc (vw_threads w' t)) \<and>
      should_stop (vw_control w') = should_stop (vw_control w)"
  by (erule thread_stepE) (auto simp: world_defs)

lemma thread_step_wake: "thread_step t w w' \<Longrightarrow> registry_inv w \<Longrightarrow> should_stop (vw_control w) \<Longrightarrow>
    past_stop (vt_pc (vw_threads w' t)) \<Longrightarrow>
    past_stop (vt_pc (vw_threads w t)) \<and> (wake (vw_threads w t) \<longrightarrow> wake (vw_threads w' t))"
  by (erule thread_stepE) (auto simp: wake_def world_defs split: if_splits)

lemma stop_thread_step:
  assumes st: "thread_step t w w'" and reg: "registry_inv w" and inv: "stop_inv w"
  shows "stop_inv w'"
  using thread_step_killing [OF st]
proof (elim disjE exE conjE)
  fix r assume "vt_pc (vw_threads w' t) = StopKill r"
  then have "\<not> stops_sent w'" unfolding stops_sent_def by (metis killing.simps(1))
  then show ?thesis by (simp add: stop_inv_def)
next
  fix r assume w': "w' = goto t (Done r) (send_signals (vcpu_threads (vw_control w)) w)"
  have "wake (vw_threads w' u)" if "past_stop (vt_pc (vw_threads w' u))" for u
  proof -
    have "u \<noteq> t" "past_stop (vt_pc (vw_threads w u))"
      using that w' by (auto simp: world_defs split: if_splits)
    then have "u \<in> set (vcpu_threads (vw_control w))" using reg past_loop(1) by (auto simp: registry_inv_def)
    then show ?thesis using w' \<open>u \<noteq> t\<close> by (simp add: world_defs wake_def)
  qed
  then show ?thesis by (simp add: stop_inv_def)
next
  assume nk: "\<not> killing (vt_pc (vw_threads w t))" "should_stop (vw_control w') = should_stop (vw_control w)"
  show ?thesis unfolding stop_inv_def
  proof (intro impI allI)
    fix u assume a: "should_stop (vw_control w') \<and> stops_sent w'" and p: "past_stop (vt_pc (vw_threads w' u))"
    have "stops_sent w"
      using a nk(1) thread_step_other [OF st] thread_step_counts [OF st] unfolding stops_sent_def by metis
    then have i: "past_stop (vt_pc (vw_threads w u)) \<Longrightarrow> wake (vw_threads w u)" for u
      using inv a nk(2) by (simp add: stop_inv_def)
    show "wake (vw_threads w' u)"
      using thread_step_wake [OF st reg] thread_step_other [OF st, of u] i [of u] p a nk(2) by (cases "u = t") auto
  qed
qed

lemma stop_device_step:
  assumes st: "device_step w w'" and reg: "registry_inv w" and inv: "stop_inv w"
  shows "stop_inv w'"
  using st
proof cases
  case (stop_end n)
  then have "past_stop (vt_pc (vw_threads w' u)) \<Longrightarrow> wake (vw_threads w' u)" for u
    using reg past_loop(1) by (auto simp: world_defs wake_def registry_inv_def)
  then show ?thesis by (simp add: stop_inv_def)
next
  case (deliver t)
  then show ?thesis using reg inv past_loop(1)
    by (auto simp: stop_inv_def stops_sent_def world_defs wake_def registry_inv_def split: if_splits)
qed (use inv in \<open>auto simp: stop_inv_def stops_sent_def world_defs wake_def split: if_splits\<close>)

lemma thread_step_registry: "thread_step t w w' \<Longrightarrow>
    vcpu_threads (vw_control w') = vcpu_threads (vw_control w) \<or>
    vcpu_threads (vw_control w') = vcpu_threads (vw_control w) @ [t] \<and> vt_pc (vw_threads w' t) = LoopTop \<or>
    leaving (vt_pc (vw_threads w' t))"
  by (erule thread_stepE) (auto simp: world_defs)

lemma thread_step_leaving: "thread_step t w w' \<Longrightarrow> leaving (vt_pc (vw_threads w t)) \<Longrightarrow>
    leaving (vt_pc (vw_threads w' t)) \<or> should_stop (vw_control w')"
  by (erule thread_stepE) (auto simp: world_defs)

lemma thread_step_take: "thread_step t w w' \<Longrightarrow> registry_inv w \<Longrightarrow> devices_pending (vw_control w') \<Longrightarrow>
    devices_pending (vw_control w) \<and> (past_take (vt_pc (vw_threads w' t)) \<longrightarrow>
      past_take (vt_pc (vw_threads w t)) \<and> (wake (vw_threads w t) \<longrightarrow> wake (vw_threads w' t)))"
  by (erule thread_stepE) (auto simp: wake_def world_defs split: if_splits)

lemma kick_thread_step:
  assumes st: "thread_step t w w'" and reg: "registry_inv w" and inv: "kick_inv w"
  shows "kick_inv w'"
proof (rule ccontr)
  assume "\<not> kick_inv w'"
  let ?h = "hd (vcpu_threads (vw_control w'))"
  have a: "devices_pending (vw_control w')" "vw_kicking w' = 0" "vcpu_threads (vw_control w') \<noteq> []"
      "past_take (vt_pc (vw_threads w' ?h))" "\<not> wake (vw_threads w' ?h)" "\<not> should_stop (vw_control w')"
      and l: "\<And>u. \<not> leaving (vt_pc (vw_threads w' u))"
    using \<open>\<not> kick_inv w'\<close> by (auto simp: kick_inv_def)
  note take = thread_step_take [OF st reg a(1)] and cnt = thread_step_counts [OF st]
  have ts: "vcpu_threads (vw_control w) \<noteq> [] \<and> ?h = hd (vcpu_threads (vw_control w))"
    using thread_step_registry [OF st] l [of t] a(3,4)
    by (cases "vcpu_threads (vw_control w)") (auto simp del: thread_step.simps)
  have "past_take (vt_pc (vw_threads w ?h))" "\<not> wake (vw_threads w ?h)"
    using take thread_step_other [OF st, of ?h] a(4,5) by (cases "?h = t"; auto)+
  then obtain u where "leaving (vt_pc (vw_threads w u))"
    using inv ts take a(2,6) cnt by (auto simp: kick_inv_def)
  then show False
    using thread_step_leaving [OF st] thread_step_other [OF st, of u] l [of u] a(6) by (cases "u = t") auto
qed

lemma device_step_pc: "device_step w w' \<Longrightarrow> vt_pc (vw_threads w' t) = vt_pc (vw_threads w t)"
  by (erule device_stepE) (auto simp: world_defs)

lemma kick_device_step:
  assumes st: "device_step w w'" and reg: "registry_inv w" and inv: "kick_inv w"
  shows "kick_inv w'"
  using st
proof cases
  case (kick_end n)
  then show ?thesis
    by (cases "vcpu_threads (vw_control w)") (auto simp: kick_inv_def world_defs wake_def)
next
  case (deliver t)
  have "past_take (vt_pc (vw_threads w u)) \<Longrightarrow> wake (vw_threads w u) \<Longrightarrow> wake (vw_threads w' u)" for u
    using reg past_loop deliver by (auto simp: registry_inv_def world_defs wake_def)
  moreover have "vw_control w' = vw_control w" "vw_kicking w' = vw_kicking w"
    using deliver by (simp_all add: world_defs)
  ultimately show ?thesis using inv device_step_pc [OF st] unfolding kick_inv_def by metis
qed (use inv in \<open>auto simp: kick_inv_def world_defs wake_def split: if_splits\<close>)

lemma vcpu_reach_inv: "vcpu_reach w \<Longrightarrow> registry_inv w \<and> stop_inv w \<and> kick_inv w"
proof (induction rule: vcpu_reach.induct)
  case start
  show ?case
    by (simp add: registry_inv_def stop_inv_def kick_inv_def vcpu_world_new_def vm_control_new_def)
next
  case (step w w')
  then show ?case unfolding vcpu_step_def
    using registry_thread_step registry_device_step stop_thread_step stop_device_step
      kick_thread_step kick_device_step by blast
qed

lemma in_guest_wake:
  assumes "registry_inv w" "vt_pc (vw_threads w t) = InGuest"
  shows "wake (vw_threads w t) \<Longrightarrow> vt_signal (vw_threads w t)"
    and "past_stop (vt_pc (vw_threads w t))" "past_take (vt_pc (vw_threads w t))"
  using assms by (auto simp: registry_inv_def wake_def)


section \<open>Progress\<close>

text \<open>Runs in which thread \<open>t\<close> takes \<open>k\<close> steps, every state of which satisfies \<open>P\<close>.\<close>

inductive run_while :: "(vcpu_world \<Rightarrow> bool) \<Rightarrow> thread_id \<Rightarrow> nat \<Rightarrow> vcpu_world \<Rightarrow> vcpu_world \<Rightarrow> bool" for P t where
  none: "P w \<Longrightarrow> run_while P t 0 w w"
| own: "run_while P t k w w' \<Longrightarrow> thread_step t w' w'' \<Longrightarrow> P w'' \<Longrightarrow> run_while P t (Suc k) w w''"
| other: "run_while P t k w w' \<Longrightarrow> device_step w' w'' \<or> (\<exists>u. u \<noteq> t \<and> thread_step u w' w'') \<Longrightarrow> P w'' \<Longrightarrow>
    run_while P t k w w''"

lemma run_while_rank:
  assumes "run_while P t k w w'"
    and "\<And>v v'. P v \<Longrightarrow> P v' \<Longrightarrow> thread_step t v v' \<Longrightarrow> f (vt_pc (vw_threads v' t)) < (f (vt_pc (vw_threads v t)) :: nat)"
  shows "P w' \<and> f (vt_pc (vw_threads w' t)) + k \<le> f (vt_pc (vw_threads w t))"
  using assms(1)
proof induction
  case (own k w w' w'')
  then show ?case using assms(2) [of w' w''] by simp
next
  case (other k w w' w'')
  have "vt_pc (vw_threads w'' t) = vt_pc (vw_threads w' t)"
    using other.hyps(2) thread_step_other [of _ w' w'' t] device_step_pc by blast
  then show ?case using other by simp
qed simp

fun stop_rank :: "vcpu_pc \<Rightarrow> nat" where
  "stop_rank TakePending = 10" | "stop_rank Poll = 9" | "stop_rank EnterRun = 8" | "stop_rank InGuest = 7"
| "stop_rank (Handle _) = 6" | "stop_rank Interrupted = 6" | "stop_rank RunFailed = 6" | "stop_rank Idle = 7"
| "stop_rank Register = 6" | "stop_rank LoopTop = 5" | "stop_rank (Unregister _) = 4" | "stop_rank (ClearPtr _) = 3"
| "stop_rank (StopStore _) = 2" | "stop_rank (StopKill _) = 1" | "stop_rank (Done _) = 0"

lemma thread_step_rank: "thread_step t w w' \<Longrightarrow> should_stop (vw_control w) \<Longrightarrow>
    stop_rank (vt_pc (vw_threads w' t)) < stop_rank (vt_pc (vw_threads w t))"
  by (erule thread_stepE) (auto simp: world_defs)

text \<open>
  A thread in the guest with nothing pending may stay there for ever; otherwise its next step is
  not up to the guest.
\<close>

definition not_blocked :: "thread_id \<Rightarrow> vcpu_world \<Rightarrow> bool" where
  "not_blocked t w \<longleftrightarrow> vt_pc (vw_threads w t) = InGuest \<longrightarrow> vt_signal (vw_threads w t)"

lemma thread_step_exists:
  assumes "\<forall>r. vt_pc (vw_threads w t) \<noteq> Done r" shows "\<exists>w'. thread_step t w w'"
proof (cases "vt_pc (vw_threads w t)")
  case LoopTop then show ?thesis using thread_step.stop_seen thread_step.no_stop by metis
next
  case TakePending then show ?thesis
    using thread_step.taken [of w t] by (cases "take_devices_pending (vw_control w)") blast
next
  case EnterRun then show ?thesis using thread_step.immediate thread_step.entered by metis
next
  case (Handle reason)
  show ?thesis
  proof (cases "exit_action (Inr ()) (Inr ()) reason")
    case Continue then show ?thesis using thread_step.handled [OF Handle] by blast
  next
    case (Leave r) then show ?thesis using thread_step.left [OF Handle] by blast
  qed
next
  case Idle then show ?thesis by (blast intro: thread_step.begin_run)
next
  case Register then show ?thesis by (blast intro: thread_step.register)
next
  case Poll then show ?thesis by (blast intro: thread_step.polled)
next
  case InGuest then show ?thesis by (blast intro: thread_step.exit)
next
  case Interrupted then show ?thesis by (blast intro: thread_step.clear)
next
  case RunFailed then show ?thesis by (blast intro: thread_step.gave_up)
next
  case (Unregister r) then show ?thesis by (blast intro: thread_step.unregister)
next
  case (ClearPtr r) then show ?thesis by (blast intro: thread_step.clear_ptr)
next
  case (StopStore r) then show ?thesis by (blast intro: thread_step.stop_stored)
next
  case (StopKill r) then show ?thesis by (blast intro: thread_step.stop_killed)
next
  case (Done r) then show ?thesis using assms by blast
qed


fun poll_rank :: "vcpu_pc \<Rightarrow> nat" where
  "poll_rank Poll = 5" | "poll_rank EnterRun = 4" | "poll_rank InGuest = 3" | "poll_rank (Handle _) = 2"
| "poll_rank Interrupted = 2" | "poll_rank RunFailed = 2" | "poll_rank LoopTop = 1" | "poll_rank _ = 0"

lemma thread_step_poll_rank: "thread_step t w w' \<Longrightarrow> in_loop (vt_pc (vw_threads w t)) \<Longrightarrow>
    in_loop (vt_pc (vw_threads w' t)) \<Longrightarrow> devices_pending (vw_control w') \<Longrightarrow>
    poll_rank (vt_pc (vw_threads w' t)) < poll_rank (vt_pc (vw_threads w t))"
  by (erule thread_stepE) (auto simp: world_defs split: if_splits)

lemma thread_step_taken: "thread_step t w w' \<Longrightarrow> devices_pending (vw_control w) \<Longrightarrow>
    \<not> devices_pending (vw_control w') \<Longrightarrow> vt_pc (vw_threads w' t) = Poll"
  by (erule thread_stepE) (auto simp: world_defs split: if_splits)

text \<open>
  Every kick makes a vcpu thread poll the devices: while the request stands, the first thread
  takes at most five steps of its own before it leaves its run loop or the request is taken, the
  guest cannot hold it back, and the thread that takes the request goes on to poll.
\<close>

theorem vcpu_kick_polls:
  assumes "vcpu_reach w" and "devices_pending (vw_control w)" and "vw_kicking w = 0"
    and "vcpu_threads (vw_control w) = t # ts" and "\<not> should_stop (vw_control w)"
    and "\<forall>u. \<not> leaving (vt_pc (vw_threads w u))"
  shows "(\<forall>k w'. run_while (\<lambda>v. devices_pending (vw_control v) \<and> in_loop (vt_pc (vw_threads v t))) t k w w' \<longrightarrow> k \<le> 5)
    \<and> not_blocked t w \<and> (\<exists>w'. thread_step t w w')
    \<and> (\<forall>u v v'. thread_step u v v' \<and> devices_pending (vw_control v) \<and> \<not> devices_pending (vw_control v') \<longrightarrow>
          vt_pc (vw_threads v' u) = Poll)"
proof -
  let ?P = "\<lambda>v. devices_pending (vw_control v) \<and> in_loop (vt_pc (vw_threads v t))"
  have inv: "registry_inv w" "kick_inv w" using vcpu_reach_inv [OF assms(1)] by auto
  have le: "poll_rank pc \<le> 5" for pc by (cases pc) auto
  have "k \<le> 5" if "run_while ?P t k w w'" for k w'
    using run_while_rank [OF that, of poll_rank] thread_step_poll_rank le [of "vt_pc (vw_threads w t)"] by fastforce
  moreover have "not_blocked t w"
    using inv(2) in_guest_wake [OF inv(1), of t] assms(2-6) by (auto simp: not_blocked_def kick_inv_def)
  moreover have "\<forall>r. vt_pc (vw_threads w t) \<noteq> Done r"
  proof -
    have "t \<in> set (vcpu_threads (vw_control w))" using assms(4) by simp
    then have "in_loop (vt_pc (vw_threads w t))" using inv(1) by (simp add: registry_inv_def)
    then show ?thesis by (cases "vt_pc (vw_threads w t)") auto
  qed
  ultimately show ?thesis using thread_step_exists [of w t] thread_step_taken by blast
qed

section \<open>Examples\<close>

text \<open>One vcpu that runs the guest, and a kick or a stop then.\<close>

definition demo_in_guest :: vcpu_world where
  "demo_in_guest = goto 0 InGuest (goto 0 EnterRun (goto 0 TakePending (goto 0 LoopTop
     (upd_control (register_vcpu_thread 0) (goto 0 Register
       (upd_thread 0 (\<lambda>v. v\<lparr>vt_run_ptr := True\<rparr>) vcpu_world_new))))))"

definition demo_kicked :: vcpu_world where
  "demo_kicked = send_signals [0] (upd_control kick_store demo_in_guest)"

definition demo_stopped :: vcpu_world where
  "demo_stopped = send_signals [0] (upd_control stop_store demo_in_guest)"

lemmas demo_world_defs = world_defs demo_in_guest_def vcpu_world_new_def vm_control_new_def

lemma demo_in_guest_reach: "vcpu_reach demo_in_guest"
proof -
  have own: "vcpu_reach v \<Longrightarrow> thread_step 0 v v' \<Longrightarrow> vcpu_reach v'" for v v'
    using vcpu_reach.step vcpu_step_def by blast
  let ?a = "goto 0 Register (upd_thread 0 (\<lambda>v. v\<lparr>vt_run_ptr := True\<rparr>) vcpu_world_new)"
  let ?b = "goto 0 LoopTop (upd_control (register_vcpu_thread 0) ?a)"
  have "vcpu_reach ?a" by (rule own [OF vcpu_reach.start thread_step.begin_run]) (simp add: demo_world_defs)
  then have "vcpu_reach ?b" by (rule own [OF _ thread_step.register]) (simp add: demo_world_defs)
  then have "vcpu_reach (goto 0 TakePending ?b)"
    by (rule own [OF _ thread_step.no_stop]) (simp_all add: demo_world_defs)
  then have "vcpu_reach (goto 0 (if False then Poll else EnterRun)
      ((goto 0 TakePending ?b)\<lparr>vw_control := vw_control (goto 0 TakePending ?b)\<rparr>))"
    by (rule own [OF _ thread_step.taken]) (simp_all add: demo_world_defs)
  then have "vcpu_reach (goto 0 EnterRun (goto 0 TakePending ?b))" by simp
  then show ?thesis unfolding demo_in_guest_def
    by (rule own [OF _ thread_step.entered]) (simp_all add: demo_world_defs)
qed

lemma demo_device: "vcpu_reach v \<Longrightarrow> device_step v v' \<Longrightarrow> vcpu_reach v'"
  using vcpu_reach.step vcpu_step_def by blast

lemma demo_kicked_reach: "vcpu_reach demo_kicked"
  using demo_device [OF demo_device [OF demo_in_guest_reach device_step.kick_begin] device_step.kick_end [of _ 0]]
  by (simp add: demo_kicked_def demo_world_defs)

lemma demo_stopped_reach: "vcpu_reach demo_stopped"
  using demo_device [OF demo_device [OF demo_in_guest_reach device_step.stop_begin] device_step.stop_end [of _ 0]]
  by (simp add: demo_stopped_def demo_world_defs)

lemma demo_facts:
  "vt_pc (vw_threads demo_kicked 0) = InGuest" "devices_pending (vw_control demo_kicked)" "vw_kicking demo_kicked = 0"
  "vcpu_threads (vw_control demo_kicked) = [0]" "\<not> should_stop (vw_control demo_kicked)"
  "\<not> leaving (vt_pc (vw_threads demo_kicked u))"
  "vt_pc (vw_threads demo_stopped 0) = InGuest" "should_stop (vw_control demo_stopped)" "stops_sent demo_stopped"
  by (simp_all add: demo_kicked_def demo_stopped_def demo_world_defs stops_sent_def)



theorem vcpu_kick_polls_witness:
  "devices_pending (vw_control demo_kicked) \<and> not_blocked 0 demo_kicked \<and> (\<exists>w'. thread_step 0 demo_kicked w')"
  using vcpu_kick_polls [OF demo_kicked_reach, of 0 "[]"] demo_facts by simp

section \<open>The result of a run\<close>

lemma join_result_ok [simp]: "join_result r = Inr () \<longleftrightarrow> r = Inr ()"
  by (auto simp: join_result_def split: sum.splits fault.splits)

lemma vm_run_fold:
  "foldl (\<lambda>r i. case r of Inl e \<Rightarrow> Inl e | Inr _ \<Rightarrow> join_result (res i)) r js = Inr () \<longleftrightarrow>
    r = Inr () \<and> (\<forall>i\<in>set js. res i = Inr ())"
  by (induction js arbitrary: r) (auto split: sum.splits)

lemma spawn_all_ok: "spawn_all s = (n, r) \<Longrightarrow>
    (r = Inr () \<longleftrightarrow> (\<forall>x\<in>set s. x = None)) \<and> (r = Inr () \<longrightarrow> n = length s)"
proof (induction s arbitrary: n r)
  case (Cons x s)
  obtain m q where "spawn_all s = (m, q)" by force
  with Cons.IH [of m q] Cons.prems show ?case by (cases x) auto
qed auto

text \<open>The run succeeds exactly when every vcpu got its thread and every thread succeeded.\<close>

lemma vm_run_ok_iff:
  "vm_run_result spawns res = Inr () \<longleftrightarrow>
     (\<forall>s\<in>set spawns. s = None) \<and> (\<forall>i<length spawns. res i = Inr ())"
proof -
  obtain n r where n: "spawn_all spawns = (n, r)" by force
  have "vm_run_result spawns res = Inr () \<longleftrightarrow> r = Inr () \<and> (\<forall>i\<in>set [0..<n]. res i = Inr ())"
    unfolding vm_run_result_def n prod.case by (rule vm_run_fold)
  then show ?thesis using spawn_all_ok [OF n] by auto
qed

end
