(* ===== verification/X86_Run.thy ===== *)
theory X86_Run
  imports Machine Vcpu_Loop
begin

text \<open>
  \<open>VCPU::run_loop\<close> of \<open>src/src/main.rs\<close> over the x86 machine, as one vcpu thread runs it: what
  \<open>Vcpu_Loop\<close> leaves open of an exit and of a poll is here the machine's. The other threads are
  seen by what they do to the control block while the guest runs.
\<close>

section \<open>The run loop\<close>

text \<open>
  A return of \<open>KVM_RUN\<close>: the RAM as the guest left it, the control block as the other threads left
  it, and why it returned; \<open>Interrupted\<close> is \<open>EINTR\<close>, \<open>RunFailed\<close> any other error.
\<close>

datatype kvm_return =
  KvmIo io_exit "u8 list" | KvmMmio mmio_exit | KvmOther exit_reason | KvmInterrupted | KvmFailed

record kvm_run_return =
  kr_ram :: ram
  kr_control :: "vm_control \<Rightarrow> vm_control"
  kr_return :: kvm_return

text \<open>\<open>match exit_reason\<close>. The bytes a read gives the guest are dropped.\<close>

definition handle_exit :: "machine_env \<Rightarrow> unit res \<Rightarrow> kvm_return \<Rightarrow> machine \<Rightarrow> (loop_next \<times> machine) option" where
  "handle_exit E printed ret mc =
     (case ret of
        KvmIo io data \<Rightarrow>
          map_option (\<lambda>(r, data', mc'). (exit_action r printed KVM_EXIT_IO, mc')) (arch_handle_io E io (data, mc))
      | KvmMmio mmio \<Rightarrow>
          map_option (\<lambda>(r, mmio', mc'). (exit_action r printed KVM_EXIT_MMIO, mc')) (machine_mmio E (mmio, mc))
      | KvmOther reason \<Rightarrow> Some (exit_action (Inr ()) printed reason, mc)
      | KvmInterrupted \<Rightarrow> Some (Continue, mc)
      | KvmFailed \<Rightarrow> Some (Leave (run_failure printed), mc))"

text \<open>The poll before the guest is entered.\<close>

definition poll_pending :: "machine_env \<Rightarrow> machine \<Rightarrow> (unit res \<times> machine) option" where
  "poll_pending E mc =
     (case take_devices_pending (mc_control mc) of
        (pending, c) \<Rightarrow>
          if pending then machine_poll E (mc\<lparr>mc_control := c\<rparr>) else Some (Inr (), mc\<lparr>mc_control := c\<rparr>))"

text \<open>
  The loop, over the returns of \<open>KVM_RUN\<close> there are; \<open>Some (None, mc)\<close> when it still runs after
  them, \<open>None\<close> when a device does not return.
\<close>

definition after_run :: "kvm_run_return \<Rightarrow> machine \<Rightarrow> machine" where
  "after_run ret mc = mc\<lparr>mc_ram := kr_ram ret, mc_control := kr_control ret (mc_control mc)\<rparr>"

fun run_loop :: "machine_env \<Rightarrow> unit res \<Rightarrow> kvm_run_return list \<Rightarrow> machine \<Rightarrow> (unit res option \<times> machine) option" where
  "run_loop E printed rets mc =
     (if should_stop (mc_control mc) then Some (Some (Inr ()), mc)
      else
        (case poll_pending E mc of
           None \<Rightarrow> None
         | Some (Inl e, mc) \<Rightarrow> Some (Some (Inl e), mc)
         | Some (Inr _, mc) \<Rightarrow>
             (case rets of
                [] \<Rightarrow> Some (None, mc)
              | ret # rets \<Rightarrow>
                  (case handle_exit E printed (kr_return ret) (after_run ret mc) of
                     None \<Rightarrow> None
                   | Some (Leave r, mc) \<Rightarrow> Some (Some r, mc)
                   | Some (Continue, mc) \<Rightarrow> run_loop E printed rets mc))))"

declare run_loop.simps [simp del]

text \<open>\<open>VCPU::run\<close> and the closure of its thread in \<open>VM::run\<close>: registered while in the loop, then a stop.\<close>

definition vcpu_run :: "machine_env \<Rightarrow> unit res \<Rightarrow> thread_id \<Rightarrow> kvm_run_return list \<Rightarrow> machine \<Rightarrow> (unit res option \<times> machine) option" where
  "vcpu_run E printed t rets mc =
     (case run_loop E printed rets (mc\<lparr>mc_control := register_vcpu_thread t (mc_control mc)\<rparr>) of
        None \<Rightarrow> None
      | Some (None, mc) \<Rightarrow> Some (None, mc)
      | Some (Some r, mc) \<Rightarrow>
          Some (Some r, mc\<lparr>mc_control := ctl_stop (unregister_vcpu_thread t (mc_control mc))\<rparr>))"

section \<open>Runs stay among the machine's states\<close>

lemma exit_action_handled:
  "exit_action r printed KVM_EXIT_IO = (case r of Inl e \<Rightarrow> Leave (Inl e) | Inr _ \<Rightarrow> Continue)"
  "exit_action r printed KVM_EXIT_MMIO = (case r of Inl e \<Rightarrow> Leave (Inl e) | Inr _ \<Rightarrow> Continue)"
  by (simp_all add: exit_action_def)

lemma handle_exit_reach:
  assumes "handle_exit E printed ret mc = Some (nx, mc')" and "machine_reach E mc" and "\<forall>e. nx \<noteq> Leave (Inl e)"
  shows "machine_reach E mc'"
proof (cases ret)
  case (KvmIo io data)
  then obtain r data' where r: "arch_handle_io E io (data, mc) = Some (r, data', mc')" "nx = exit_action r printed KVM_EXIT_IO"
    using assms(1) by (auto simp: handle_exit_def)
  then have "r = Inr ()" using assms(3) by (cases r) (auto simp: exit_action_handled)
  then show ?thesis using machine_reach.port_exit [OF assms(2)] r by blast
next
  case (KvmMmio mmio)
  then obtain r mmio' where r: "machine_mmio E (mmio, mc) = Some (r, mmio', mc')" "nx = exit_action r printed KVM_EXIT_MMIO"
    using assms(1) by (auto simp: handle_exit_def)
  then have "r = Inr ()" using assms(3) by (cases r) (auto simp: exit_action_handled)
  then show ?thesis using machine_reach.mmio_exit [OF assms(2)] r by blast
qed (use assms in \<open>auto simp: handle_exit_def\<close>)

lemma poll_pending_reach: "poll_pending E mc = Some (Inr (), mc') \<Longrightarrow> machine_reach E mc \<Longrightarrow> machine_reach E mc'"
  using machine_reach.poll [OF machine_reach.control] machine_reach.control
  by (auto simp: poll_pending_def take_devices_pending_def split: if_splits)

lemma after_run_reach: "machine_reach E mc \<Longrightarrow> machine_reach E (after_run ret mc)"
  using machine_reach.control [OF machine_reach.guest] by (simp add: after_run_def)

text \<open>A run that is not ended by an error goes through states of the machine only.\<close>

lemma run_loop_reach:
  "run_loop E printed rets mc = Some (r, mc') \<Longrightarrow> machine_reach E mc \<Longrightarrow> \<forall>e. r \<noteq> Some (Inl e) \<Longrightarrow> machine_reach E mc'"
proof (induction rets arbitrary: mc)
  case (Nil mc)
  then show ?case
    using poll_pending_reach by (subst (asm) run_loop.simps) (auto split: if_splits option.splits sum.splits)
next
  case (Cons ret rets)
  show ?case
  proof (cases "should_stop (mc_control mc)")
    case True
    with Cons.prems show ?thesis by (subst (asm) run_loop.simps) auto
  next
    case False
    then obtain mc1 where p: "poll_pending E mc = Some (Inr (), mc1)"
      using Cons.prems(1,3) by (subst (asm) run_loop.simps) (auto split: option.splits sum.splits)
    note r = after_run_reach [OF poll_pending_reach [OF p Cons.prems(2)], of ret]
    from Cons.prems(1) False p obtain nx mc3 where h: "handle_exit E printed (kr_return ret) (after_run ret mc1) = Some (nx, mc3)"
      and n: "(case nx of Leave r \<Rightarrow> Some (Some r, mc3) | Continue \<Rightarrow> run_loop E printed rets mc3) = Some (r, mc')"
      by (subst (asm) run_loop.simps) (auto split: option.splits loop_next.splits)
    show ?thesis
    proof (cases nx)
      case Continue
      then show ?thesis using Cons.IH [OF _ handle_exit_reach [OF h r]] n Cons.prems(3) by simp
    next
      case (Leave r')
      then show ?thesis using handle_exit_reach [OF h r] n Cons.prems(3) by auto
    qed
  qed
qed

section \<open>A guest that resets\<close>

lemma i8042_reset:
  assumes "i8042_synced k log"
  shows "i8042_handle env \<lparr>io_direction = KVM_EXIT_IO_OUT, io_size = 1, io_port = I8042_COMMAND, io_count = 1\<rparr>
      ([CMD_PULSE_RESET], k, c, log) =
    (Inr (), [CMD_PULSE_RESET], k\<lparr>kb_status_cmd := True, kb_controller_param := None\<rparr>, ctl_stop c, log)"
  using assms
  by (auto simp: i8042_handle_def i8042_access_def i8042_controller_command_def i8042_update_irq_def i8042_synced_def
      i8042_tracked_def i8042_level_def then_op_def Let_def)

text \<open>
  C23. A guest that pulses the reset line through the keyboard controller ends the run: in whatever state the
  machine is, the vcpu thread leaves with success before the guest is entered again (whatever
  \<open>KVM_RUN\<close> would return next), the other vcpus are told to stop, RAM is as the guest left it, and no
  device but the controller's command latch and no interrupt line has changed.
\<close>

theorem guest_reset_ends_run:
  assumes "documented_mmio (me_mmio E)" and "machine_reach E mc"
    and "\<not> should_stop (mc_control mc)" and "\<not> devices_pending (mc_control mc)"
    and "kr_return ret = KvmIo \<lparr>io_direction = KVM_EXIT_IO_OUT, io_size = 1, io_port = I8042_COMMAND, io_count = 1\<rparr> [CMD_PULSE_RESET]"
  shows "\<exists>k mc'. mc_kbd mc = Some k \<and> (\<forall>rets. vcpu_run E printed t (ret # rets) mc = Some (Some (Inr ()), mc')) \<and>
    should_stop (mc_control mc') \<and> t \<notin> set (vcpu_threads (mc_control mc')) \<and>
    mc' = mc\<lparr>mc_ram := kr_ram ret, mc_kbd := Some (k\<lparr>kb_status_cmd := True, kb_controller_param := None\<rparr>),
      mc_control := mc_control mc'\<rparr>"
proof -
  have "virtio_mmio_int_vring (me_mmio E) \<noteq> 0" using assms(1) by (simp add: documented_mmio_def linux_mmio_def)
  from machine_reach_inv [OF this assms(2)] obtain k where k: "mc_kbd mc = Some k" "i8042_synced k (mc_irqs mc)"
    by (auto simp: machine_inv_def)
  let ?c = "register_vcpu_thread t (mc_control mc)"
  let ?mc = "mc\<lparr>mc_control := ?c\<rparr>"
  let ?k = "k\<lparr>kb_status_cmd := True, kb_controller_param := None\<rparr>"
  define c where "c = ctl_stop (kr_control ret (?c\<lparr>devices_pending := False\<rparr>))"
  let ?mc' = "mc\<lparr>mc_ram := kr_ram ret, mc_kbd := Some ?k, mc_control := c\<rparr>"
  have p: "poll_pending E ?mc = Some (Inr (), ?mc\<lparr>mc_control := ?c\<lparr>devices_pending := False\<rparr>\<rparr>)"
    using assms(4) by (simp add: poll_pending_def take_devices_pending_def register_vcpu_thread_def)
  have h: "handle_exit E printed (kr_return ret) (after_run ret (?mc\<lparr>mc_control := ?c\<lparr>devices_pending := False\<rparr>\<rparr>)) = Some (Continue, ?mc')"
    using k(1) i8042_reset [OF k(2), of "me_irq E"]
    by (simp add: handle_exit_def assms(5) arch_handle_io_def port_device_def after_run_def exit_action_handled c_def)
  have "run_loop E printed rets ?mc' = Some (Some (Inr ()), ?mc')" for rets
    by (subst run_loop.simps) (simp add: c_def)
  then have "run_loop E printed (ret # rets) ?mc = Some (Some (Inr ()), ?mc')" for rets
    using assms(3) p h by (subst run_loop.simps) (simp add: register_vcpu_thread_def)
  then have "vcpu_run E printed t (ret # rets) mc = Some (Some (Inr ()), ?mc'\<lparr>mc_control := ctl_stop (unregister_vcpu_thread t c)\<rparr>)" for rets
    by (simp add: vcpu_run_def)
  then show ?thesis using k(1)
    by (intro exI [of _ k] exI [of _ "?mc'\<lparr>mc_control := ctl_stop (unregister_vcpu_thread t c)\<rparr>"]) (simp add: unregister_vcpu_thread_def)
qed

theorem guest_reset_ends_run_witness:
  "\<exists>mc'. vcpu_run demo_env (Inr ()) 1
      [\<lparr>kr_ram = (\<lambda>_ _. 3), kr_control = (\<lambda>c. c),
        kr_return = KvmIo \<lparr>io_direction = KVM_EXIT_IO_OUT, io_size = 1, io_port = I8042_COMMAND, io_count = 1\<rparr> [CMD_PULSE_RESET]\<rparr>,
       \<lparr>kr_ram = (\<lambda>_ _. 4), kr_control = (\<lambda>c. c), kr_return = KvmOther KVM_EXIT_HLT\<rparr>] demo_machine = Some (Some (Inr ()), mc') \<and>
    mc_ram mc' = (\<lambda>_ _. 3)"
proof -
  let ?ret = "\<lparr>kr_ram = (\<lambda>_ _. 3), kr_control = (\<lambda>c. c),
        kr_return = KvmIo \<lparr>io_direction = KVM_EXIT_IO_OUT, io_size = 1, io_port = I8042_COMMAND, io_count = 1\<rparr> [CMD_PULSE_RESET]\<rparr>"
  have d: "documented_mmio (me_mmio demo_env)" "\<not> should_stop (mc_control demo_machine)" "\<not> devices_pending (mc_control demo_machine)"
    by (simp_all add: documented_mmio_def demo_env_def demo_machine_def machine_new_def vm_control_new_def)
  obtain k mc' where r: "\<forall>rets. vcpu_run demo_env (Inr ()) 1 (?ret # rets) demo_machine = Some (Some (Inr ()), mc')"
    and m: "mc' = demo_machine\<lparr>mc_ram := kr_ram ?ret, mc_kbd := Some (k\<lparr>kb_status_cmd := True, kb_controller_param := None\<rparr>),
      mc_control := mc_control mc'\<rparr>"
    using guest_reset_ends_run [OF d(1) demo_machine_reach d(2,3), of ?ret "Inr ()" 1] by auto
  have "mc_ram mc' = (\<lambda>_ _. 3)" by (subst m) simp
  then show ?thesis using r by blast
qed

end
