(* ===== verification/Pl011.thy ===== *)
theory Pl011
  imports Irq_Line Util_Binary Virtio_Mmio
begin

text \<open>
  The PL011 serial port of \<open>src/src/arch/aarch64/mmio.rs\<close>: registers, the one received byte, and
  the interrupt. The line is an SPI whose number is built from two constants of the generated
  bindings, the arguments \<open>spi\<close> and \<open>shift\<close>; whether flushing standard output succeeds is an
  argument. Standard output takes characters, so a byte above 0x7f becomes two bytes of UTF-8.
\<close>

section \<open>State\<close>

abbreviation (input) UART_MMIO_ADDR :: u64 where "UART_MMIO_ADDR \<equiv> 0x9000000"
abbreviation (input) PL011_IRQ :: u32 where "PL011_IRQ \<equiv> 0x1"
abbreviation (input) ARM_BLK_MMIO_ADDR :: u64 where "ARM_BLK_MMIO_ADDR \<equiv> 0xa000000"
abbreviation (input) ARM_BLK_IRQ :: u32 where "ARM_BLK_IRQ \<equiv> 0x2"

record pl011 =
  pl_rx :: "u8 option"
  pl_fr :: u32
  pl_cr :: u32
  pl_imsc :: u32
  pl_lcr :: u32
  pl_ibrd :: u32
  pl_fbrd :: u32
  pl_ris :: u32
  pl_icr :: u32

definition pl011_new :: pl011 where
  "pl011_new = \<lparr>pl_rx = None, pl_fr = 0x90, pl_cr = 0, pl_imsc = 0, pl_lcr = 0, pl_ibrd = 0, pl_fbrd = 0,
     pl_ris = 0, pl_icr = 0\<rparr>"

text \<open>The identification registers.\<close>

definition pl011_id_map :: "u32 \<rightharpoonup> u32" where
  "pl011_id_map = map_of [(0xfe0, 0x11), (0xfe4, 0x10), (0xfe8, 0x14), (0xfec, 0x00),
     (0xff0, 0x0d), (0xff4, 0xf0), (0xff8, 0x05), (0xffc, 0xb1)]"

type_synonym spi_env = "u32 \<times> nat \<times> irq_env"

definition pl011_update_irq :: "spi_env \<Rightarrow> pl011 \<Rightarrow> (irq_log, unit) oper" where
  "pl011_update_irq = (\<lambda>(spi, shift, env) u log.
     arm_update_irq spi shift env (if pl_ris u AND pl_imsc u \<noteq> 0 then 1 else 0) PL011_IRQ log)"

definition pl011_send_char :: "spi_env \<Rightarrow> u8 \<Rightarrow> (pl011 \<times> irq_log, unit) oper" where
  "pl011_send_char E ch = (\<lambda>(u, log).
     let u = u\<lparr>pl_rx := Some ch, pl_ris := pl_ris u OR push_bit 4 1\<rparr>
     in case pl011_update_irq E u log of (r, log') \<Rightarrow> (r, u, log'))"

section \<open>Register accesses\<close>

definition pl011_response :: "spi_env \<Rightarrow> u32 \<Rightarrow> (pl011 \<times> irq_log, u32) oper" where
  "pl011_response E reg = (\<lambda>(u, log).
     case pl011_id_map reg of
       Some x \<Rightarrow> (Inr x, u, log)
     | None \<Rightarrow>
         if reg = 0x0 then
           (let ch = (case pl_rx u of None \<Rightarrow> 0 | Some c \<Rightarrow> c);
                u = u\<lparr>pl_rx := None, pl_ris := pl_ris u AND NOT (push_bit 4 1)\<rparr>
            in case pl011_update_irq E u log of (r, log') \<Rightarrow> (try_res r (\<lambda>_. Inr (ucast ch)), u, log'))
         else (Inr
           (if reg = 0x18 then 0x80 OR (if pl_rx u = None then 0x10 else 0)
            else if reg = 0x24 then pl_ibrd u
            else if reg = 0x28 then pl_fbrd u
            else if reg = 0x2c then pl_lcr u
            else if reg = 0x30 then pl_cr u
            else if reg = 0x3c then pl_ris u
            else if reg = 0x38 then pl_imsc u
            else if reg = 0x40 then pl_ris u AND pl_imsc u
            else if reg = 0x44 then pl_icr u
            else 0x0), u, log))"

text \<open>A byte written as a \<open>char\<close>.\<close>

definition utf8_latin1 :: "u8 \<Rightarrow> u8 list" where
  "utf8_latin1 b =
     (if b < 0x80 then [b] else [0xc0 OR drop_bit 6 b, 0x80 OR (b AND 0x3f)])"

type_synonym pl011_world = "mmio_exit \<times> pl011 \<times> u8 list \<times> irq_log"

definition pl011_write_reg :: "spi_env \<Rightarrow> u64 \<Rightarrow> u32 \<Rightarrow> (pl011 \<times> irq_log, unit) oper" where
  "pl011_write_reg E reg val = (\<lambda>(u, log).
     if reg = 0x24 then (Inr (), u\<lparr>pl_ibrd := val\<rparr>, log)
     else if reg = 0x28 then (Inr (), u\<lparr>pl_fbrd := val\<rparr>, log)
     else if reg = 0x2c then (Inr (), u\<lparr>pl_lcr := val\<rparr>, log)
     else if reg = 0x30 then (Inr (), u\<lparr>pl_cr := val\<rparr>, log)
     else if reg = 0x38 then
       (let u = u\<lparr>pl_imsc := val\<rparr> in case pl011_update_irq E u log of (r, log') \<Rightarrow> (r, u, log'))
     else if reg = 0x44 then
       (let u = u\<lparr>pl_ris := pl_ris u AND NOT val\<rparr>
        in case pl011_update_irq E u log of (r, log') \<Rightarrow> (r, u, log'))
     else (Inr (), u, log))"

definition pl011_handle :: "spi_env \<Rightarrow> bool \<Rightarrow> (pl011_world, unit) oper" where
  "pl011_handle E flush_ok = (\<lambda>(mmio, u, out, log).
     let reg = mm_phys_addr mmio AND 0xfff
     in if mm_is_write mmio \<noteq> 0 \<and> reg = 0x0 then
          (case mm_data mmio of
             [] \<Rightarrow> (Inl (Panicked IndexOutOfBounds), mmio, u, out, log)
           | b # _ \<Rightarrow> (if flush_ok then Inr () else Inl (IoError OsError), mmio, u, out @ utf8_latin1 b, log))
        else if mm_is_write mmio = 0 then
          (case pl011_response E (ucast reg) (u, log) of
             (Inl e, u', log') \<Rightarrow> (Inl e, mmio, u', out, log')
           | (Inr x, u', log') \<Rightarrow>
               (case write_le32 (mm_data mmio) 0 x of
                  Inl e \<Rightarrow> (Inl e, mmio, u', out, log')
                | Inr data \<Rightarrow> (Inr (), mmio\<lparr>mm_data := data\<rparr>, u', out, log')))
        else (case read_le32 (mm_data mmio) 0 of
            Inl e \<Rightarrow> (Inl e, mmio, u, out, log)
          | Inr val \<Rightarrow> (case pl011_write_reg E reg val (u, log) of
              (r, u', log') \<Rightarrow> (r, mmio, u', out, log'))))"

section \<open>The interrupt line\<close>

text \<open>The number the ioctl gets: SPI 1 is GIC interrupt 33.\<close>

definition pl011_line :: "u32 \<Rightarrow> nat \<Rightarrow> u32" where
  "pl011_line spi shift = push_bit shift spi OR 33"

lemma pl011_update_irq_eq:
  "pl011_update_irq (spi, shift, env) u log =
     arch_update_irq env (if pl_ris u AND pl_imsc u \<noteq> 0 then 1 else 0) (pl011_line spi shift) log"
  by (simp add: pl011_update_irq_def arm_update_irq_def pl011_line_def arm_gic_spi_base_def
      checked_add_def)

definition pl011_synced :: "spi_env \<Rightarrow> pl011 \<Rightarrow> irq_log \<Rightarrow> bool" where
  "pl011_synced = (\<lambda>(spi, shift, env) u log.
     (line_level (pl011_line spi shift) log \<longleftrightarrow> pl_ris u AND pl_imsc u \<noteq> 0) \<and>
     (bit (pl_ris u) 4 \<longrightarrow> pl_rx u \<noteq> None))"

lemma pl011_update_synced:
  assumes "pl011_update_irq E u log = (Inr (), log')" and "bit (pl_ris u) 4 \<longrightarrow> pl_rx u \<noteq> None"
  shows "pl011_synced E u log'"
proof -
  obtain spi shift env where E: "E = (spi, shift, env)" by (cases E)
  with assms show ?thesis
    by (auto simp: pl011_update_irq_eq pl011_synced_def arch_update_irq_Inr_iff split: if_splits)
qed

lemma pl011_send_char_synced:
  assumes "pl011_send_char E ch (u, log) = (Inr (), u', log')"
  shows "pl011_synced E u' log'"
  using assms
  by (auto simp: pl011_send_char_def Let_def split: prod.splits intro!: pl011_update_synced)

lemma pl011_response_synced:
  assumes "pl011_response E reg (u, log) = (Inr x, u', log')" and "pl011_synced E u log"
  shows "pl011_synced E u' log'"
proof (cases "u' = u \<and> log' = log")
  case False
  with assms(1) have
    u': "u' = u\<lparr>pl_rx := None, pl_ris := pl_ris u AND NOT (push_bit 4 1)\<rparr>"
    and up: "\<exists>r. pl011_update_irq E u' log = (r, log') \<and> (\<exists>y. r = Inr y)"
    by (auto simp: pl011_response_def Let_def res_simps split: option.splits prod.splits if_splits sum.splits)
  have "\<not> bit (pl_ris u') 4" by (simp add: u' bit_simps)
  with up pl011_update_synced [of E u' log log'] show ?thesis by auto
qed (use assms(2) in simp)

lemma pl011_write_reg_synced:
  assumes "pl011_write_reg E reg val (u, log) = (Inr (), u', log')" and "pl011_synced E u log"
  shows "pl011_synced E u' log'"
proof -
  obtain spi shift env where E: "E = (spi, shift, env)" by (cases E)
  have rx: "bit (pl_ris u) 4 \<longrightarrow> pl_rx u \<noteq> None" using assms(2) by (simp add: pl011_synced_def E)
  consider (irq) "pl011_update_irq E u' log = (Inr (), log')" "pl_rx u' = pl_rx u"
      "bit (pl_ris u') 4 \<longrightarrow> bit (pl_ris u) 4"
    | (plain) "log' = log" "pl_ris u' = pl_ris u" "pl_imsc u' = pl_imsc u" "pl_rx u' = pl_rx u"
    using assms(1) by (auto simp: pl011_write_reg_def Let_def bit_simps split: if_splits prod.splits)
  then show ?thesis
  proof cases
    case irq
    with rx show ?thesis by (intro pl011_update_synced) auto
  next
    case plain
    with assms(2) show ?thesis by (simp add: pl011_synced_def E)
  qed
qed

lemma pl011_handle_synced:
  assumes "pl011_handle E flush_ok (mmio, u, out, log) = (Inr (), mmio', u', out', log')" and "pl011_synced E u log"
  shows "pl011_synced E u' log'"
  using assms pl011_response_synced [of E _ u log _ u' log'] pl011_write_reg_synced [of E _ _ u log u' log']
  by (auto simp: pl011_handle_def Let_def split: if_splits list.splits prod.splits sum.splits)

inductive pl011_reach :: "spi_env \<Rightarrow> pl011 \<Rightarrow> irq_log \<Rightarrow> bool" for E where
  start: "pl011_reach E pl011_new []"
| access: "pl011_reach E u log \<Longrightarrow>
    pl011_handle E flush_ok (mmio, u, out, log) = (Inr (), mmio', u', out', log') \<Longrightarrow> pl011_reach E u' log'"
| char: "pl011_reach E u log \<Longrightarrow> pl011_send_char E ch (u, log) = (Inr (), u', log') \<Longrightarrow>
    pl011_reach E u' log'"
| other_line: "pl011_reach E u log \<Longrightarrow> m \<noteq> pl011_line (fst E) (fst (snd E)) \<Longrightarrow>
    pl011_reach E u (log @ [IrqSet level m])"

lemma pl011_reach_synced: "pl011_reach E u log \<Longrightarrow> pl011_synced E u log"
proof (induction rule: pl011_reach.induct)
  case start
  show ?case by (simp add: pl011_synced_def pl011_new_def split: prod.split)
next
  case (access u log flush_ok mmio out mmio' u' out' log')
  then show ?case using pl011_handle_synced by blast
next
  case (char u log ch u' log')
  then show ?case by (blast intro: pl011_send_char_synced)
next
  case (other_line u log m level)
  then show ?case by (auto simp: pl011_synced_def split: prod.splits)
qed

text \<open>
  In every state the PL011 can reach, its line is high exactly when an unmasked interrupt is
  raw-pending, the masked status register shows it, and the receive interrupt is pending only
  while a byte waits.
\<close>

theorem pl011_irq_invariant:
  assumes "pl011_reach (spi, shift, env) u log"
  shows "(line_level (pl011_line spi shift) log \<longleftrightarrow> pl_ris u AND pl_imsc u \<noteq> 0)
    \<and> fst (pl011_response (spi, shift, env) 0x40 (u, log)) = Inr (pl_ris u AND pl_imsc u)
    \<and> (bit (pl_ris u) 4 \<longrightarrow> pl_rx u \<noteq> None)"
  using pl011_reach_synced [OF assms]
  by (simp add: pl011_synced_def pl011_response_def pl011_id_map_def)

theorem pl011_irq_invariant_witness:
  "\<exists>u log. pl011_reach (1, 24, \<lambda>_ _ _. True) u log \<and> line_level (pl011_line 1 24) log"
proof -
  let ?E = "(1, 24, \<lambda>_ _ _. True) :: spi_env"
  let ?mmio = "\<lparr>mm_phys_addr = 0x9000038, mm_data = [0x10, 0, 0, 0, 0, 0, 0, 0], mm_len = 4, mm_is_write = 1\<rparr>"
  let ?u = "pl011_new\<lparr>pl_imsc := 0x10\<rparr>" and ?l = "pl011_line 1 24"
  let ?u' = "?u\<lparr>pl_rx := Some 0x61, pl_ris := 0x10\<rparr>"
  have a: "pl011_handle ?E True (?mmio, pl011_new, [], []) = (Inr (), ?mmio, ?u, [], [IrqSet 0 ?l])"
    by (simp add: pl011_handle_def pl011_write_reg_def pl011_update_irq_eq arch_update_irq_def Let_def
        read_le32_def slice_at_def from_le32_def pl011_new_def)
  have b: "pl011_send_char ?E 0x61 (?u, [IrqSet 0 ?l]) = (Inr (), ?u', [IrqSet 0 ?l, IrqSet 1 ?l])"
    by (simp add: pl011_send_char_def pl011_update_irq_eq arch_update_irq_def Let_def pl011_new_def)
  have r: "pl011_reach ?E ?u' [IrqSet 0 ?l, IrqSet 1 ?l]"
    by (rule pl011_reach.char [OF pl011_reach.access [OF pl011_reach.start a] b])
  have "pl_ris ?u' AND pl_imsc ?u' \<noteq> 0" by simp
  with r pl011_irq_invariant [OF r] show ?thesis by blast
qed

text \<open>
  The receive register holds one byte: the guest reads the last character sent and then zero,
  so of two characters typed before the guest reads, the first is lost and nothing reports it.
\<close>

theorem pl011_receives_last:
  "\<exists>u1 log1 u2 log2. pl011_send_char (spi, shift, \<lambda>_ _ _. True) a (u, log) = (Inr (), u1, log1)
    \<and> pl011_send_char (spi, shift, \<lambda>_ _ _. True) b (u1, log1) = (Inr (), u2, log2)
    \<and> (\<exists>u3 log3 u4 log4. pl011_response (spi, shift, \<lambda>_ _ _. True) 0 (u2, log2) = (Inr (ucast b), u3, log3)
        \<and> pl011_response (spi, shift, \<lambda>_ _ _. True) 0 (u3, log3) = (Inr 0, u4, log4)
        \<and> fst (pl011_response (spi, shift, \<lambda>_ _ _. True) 0x18 (u3, log3)) = Inr 0x90)"
  by (simp add: pl011_send_char_def pl011_response_def pl011_id_map_def pl011_update_irq_eq
      arch_update_irq_def Let_def)

end
