(* ===== verification/Arm_Machine.thy ===== *)
theory Arm_Machine
  imports Pl011 Device_Bus
begin

text \<open>
  The aarch64 machine: the PL011 and the virtio disk on the bus of \<open>Device_Bus\<close>, their setup
  (\<open>src/src/arch/aarch64/mmio.rs\<close>), and the port I/O that the architecture does not have
  (\<open>src/src/arch/aarch64/io.rs\<close>). Interrupts go to the GIC: a device names an SPI and
  \<open>arch_update_irq\<close> turns that into the number the ioctl takes.
\<close>

section \<open>Devices and their state\<close>

datatype arm_device = ArmUart pl011 | ArmBlk "virtio_blk virtio_mmio"

record arm_machine =
  am_mem :: vm_mem
  am_ram :: ram
  am_irqs :: irq_log
  am_out :: "u8 list"
  am_mmio :: "arm_device bus"

text \<open>
  What comes from outside: \<open>an_spi\<close> and \<open>an_shift\<close> are the constants of the interrupt number,
  \<open>an_flush\<close> whether standard output can be flushed.
\<close>

record arm_machine_env =
  an_mmio :: mmio_abi
  an_vring :: vring_abi
  an_blk :: blk_abi
  an_disk :: disk_env
  an_spi :: u32
  an_shift :: nat
  an_irq :: irq_env
  an_flush :: "u8 list \<Rightarrow> bool"

definition arm_machine_new :: "ram \<Rightarrow> arm_machine" where
  "arm_machine_new m =
     \<lparr>am_mem = \<lparr>vm_regions = [], vm_next_slot = 0, vm_calls = []\<rparr>, am_ram = m, am_irqs = [], am_out = [], am_mmio = []\<rparr>"

text \<open>
  The number of an SPI as \<open>arch_update_irq\<close> gives it to the ioctl. The conversion has no other
  input, so the transport of the disk, which keeps the SPI number and converts it at each call, is
  given the converted number when it is made.
\<close>

definition arm_irq_number :: "u32 \<Rightarrow> nat \<Rightarrow> u32 \<Rightarrow> u32" where
  "arm_irq_number spi shift num = push_bit shift spi OR (arm_gic_spi_base + num)"

lemma arm_update_irq_number:
  assumes "unat num < 2 ^ 32 - 32"
  shows "arm_update_irq spi shift env level num log = arch_update_irq env level (arm_irq_number spi shift num) log"
  using assms by (simp add: arm_update_irq_def arm_irq_number_def arm_gic_spi_base_def checked_add_def)

lemma pl011_line_number: "pl011_line spi shift = arm_irq_number spi shift PL011_IRQ"
  by (simp add: pl011_line_def arm_irq_number_def arm_gic_spi_base_def)

abbreviation (input) arm_spi_env :: "arm_machine_env \<Rightarrow> spi_env" where
  "arm_spi_env E \<equiv> (an_spi E, an_shift E, an_irq E)"

section \<open>Accesses\<close>

definition arm_device_handle :: "arm_machine_env \<Rightarrow> guest_memory \<Rightarrow> arm_device mmio_handler" where
  "arm_device_handle E mem = (\<lambda>(mmio, d, m, out, log).
     case d of
       ArmUart u \<Rightarrow>
         (case pl011_handle (arm_spi_env E) (an_flush E out) (mmio, u, out, log) of
            (r, mmio', u', out', log') \<Rightarrow> Some (r, mmio', ArmUart u', m, out', log'))
     | ArmBlk v \<Rightarrow>
         map_option (\<lambda>(r, mmio', v', m', log'). (r, mmio', ArmBlk v', m', out, log'))
           (virtio_handle (an_mmio E) (an_vring E) (an_irq E) mem (blk_ops (an_blk E) (an_disk E)) (mmio, v, m, log)))"

definition arm_device_poll :: "arm_machine_env \<Rightarrow> guest_memory \<Rightarrow> arm_device mmio_poller" where
  "arm_device_poll E mem = (\<lambda>(d, m, out, log).
     case d of
       ArmUart u \<Rightarrow> poll_default (d, m, out, log)
     | ArmBlk v \<Rightarrow>
         map_option (\<lambda>(r, v', m', log'). (r, ArmBlk v', m', out, log'))
           (virtio_poll (an_mmio E) (an_vring E) (an_irq E) mem (blk_ops (an_blk E) (an_disk E)) (v, m, log)))"

definition arm_machine_mmio ::
    "arm_machine_env \<Rightarrow> mmio_exit \<times> arm_machine \<Rightarrow> (unit res \<times> mmio_exit \<times> arm_machine) option" where
  "arm_machine_mmio E = (\<lambda>(mmio, mc).
     map_option (\<lambda>(r, mmio', bus, m, out, log). (r, mmio', mc\<lparr>am_mmio := bus, am_ram := m, am_out := out, am_irqs := log\<rparr>))
       (handle_mmio (arm_device_handle E (vm_regions (am_mem mc))) (mmio, am_mmio mc, am_ram mc, am_out mc, am_irqs mc)))"

definition arm_machine_poll :: "arm_machine_env \<Rightarrow> arm_machine \<Rightarrow> (unit res \<times> arm_machine) option" where
  "arm_machine_poll E mc =
     map_option (\<lambda>(r, bus, m, out, log). (r, mc\<lparr>am_mmio := bus, am_ram := m, am_out := out, am_irqs := log\<rparr>))
       (poll_mmio_devices (arm_device_poll E (vm_regions (am_mem mc))) (am_mmio mc, am_ram mc, am_out mc, am_irqs mc))"

text \<open>There are no ports: \<open>arch_handle_io\<close> and \<open>arch_init_io_devices\<close> do nothing.\<close>

definition arm_handle_io :: "io_exit \<Rightarrow> (u8 list \<times> arm_machine, unit) oper" where
  "arm_handle_io io w = (Inr (), w)"

definition arm_init_io_devices :: "(arm_machine, unit) oper" where
  "arm_init_io_devices mc = (Inr (), mc)"

section \<open>Setup\<close>

definition arm_init_mmio_devices :: "arm_machine_env \<Rightarrow> u8 list res option \<Rightarrow> (arm_machine, unit) oper" where
  "arm_init_mmio_devices E disk mc =
     (case init_virtio_blk ArmBlk disk ARM_BLK_MMIO_ADDR (arm_irq_number (an_spi E) (an_shift E) ARM_BLK_IRQ)
             (add_mmio_device UART_MMIO_ADDR (ArmUart pl011_new) (am_mmio mc)) of
        (r, bus) \<Rightarrow> (r, mc\<lparr>am_mmio := bus\<rparr>))"

text \<open>A character of the serial frontend, which holds the UART of the bus.\<close>

definition arm_send_char :: "arm_machine_env \<Rightarrow> u8 \<Rightarrow> (arm_machine, unit) oper" where
  "arm_send_char E ch mc =
     (case map_of (am_mmio mc) (mmio_page UART_MMIO_ADDR) of
        Some (ArmUart u) \<Rightarrow>
          (case pl011_send_char (arm_spi_env E) ch (u, am_irqs mc) of
             (r, u', log') \<Rightarrow>
               (r, mc\<lparr>am_mmio := AList.update (mmio_page UART_MMIO_ADDR) (ArmUart u') (am_mmio mc), am_irqs := log'\<rparr>))
      | _ \<Rightarrow> (Inr (), mc))"

section \<open>The devices on the bus\<close>

lemma pl011_update_line:
  "pl011_update_irq (spi, shift, env) u log = (r, log') \<Longrightarrow> only_line (pl011_line spi shift) log log'"
  by (simp add: pl011_update_irq_eq only_line_update)

lemma pl011_handle_line:
  "pl011_handle (spi, shift, env) flush_ok (mmio, u, out, log) = (r, mmio', u', out', log') \<Longrightarrow>
    only_line (pl011_line spi shift) log log'"
  by (auto simp: pl011_handle_def pl011_response_def pl011_write_reg_def Let_def dest!: pl011_update_line
      split: if_splits list.splits prod.splits sum.splits option.splits)

lemma pl011_send_char_line:
  "pl011_send_char (spi, shift, env) ch (u, log) = (r, u', log') \<Longrightarrow> only_line (pl011_line spi shift) log log'"
  by (auto simp: pl011_send_char_def Let_def dest!: pl011_update_line split: prod.splits)

fun arm_line :: "arm_machine_env \<Rightarrow> arm_device \<Rightarrow> u32" where
  "arm_line E (ArmUart u) = pl011_line (an_spi E) (an_shift E)"
| "arm_line E (ArmBlk v) = vio_irq v"

fun arm_dev_ok :: "arm_machine_env \<Rightarrow> arm_device \<Rightarrow> irq_log \<Rightarrow> bool" where
  "arm_dev_ok E (ArmUart u) log = pl011_synced (arm_spi_env E) u log"
| "arm_dev_ok E (ArmBlk v) log \<longleftrightarrow> vio_irq v = arm_irq_number (an_spi E) (an_shift E) ARM_BLK_IRQ \<and>
     (virtio_mmio_int_vring (an_mmio E) \<noteq> 0 \<longrightarrow> vio_irq_ok (an_mmio E) v log)"

interpretation arm_bus: mmio_bus "arm_device_handle E mem" "arm_device_poll E mem" "arm_line E" "arm_dev_ok E" for E mem
proof (unfold_locales, goal_cases)
  case (1 mmio d m out log r mmio' d' m' out' log')
  then show ?case
    by (cases d) (auto simp: arm_device_handle_def dest!: virtio_handle_line pl011_handle_line split: prod.splits)
next
  case (2 mmio d m out log mmio' d' m' out' log')
  show ?case
  proof (cases d)
    case (ArmUart u)
    with 2 pl011_handle_synced show ?thesis by (fastforce simp: arm_device_handle_def split: prod.splits)
  next
    case (ArmBlk v)
    with 2 show ?thesis using virtio_handle_line virtio_handle_irq by (fastforce simp: arm_device_handle_def)
  qed
next
  case (3 d m out log r d' m' out' log')
  then show ?case
    by (cases d) (auto simp: arm_device_poll_def poll_default_def dest!: virtio_poll_line)
next
  case (4 d m out log d' m' out' log')
  show ?case
  proof (cases d)
    case (ArmUart u)
    with 4 show ?thesis by (auto simp: arm_device_poll_def poll_default_def)
  next
    case (ArmBlk v)
    with 4 obtain v' where p: "virtio_poll (an_mmio E) (an_vring E) (an_irq E) mem (blk_ops (an_blk E) (an_disk E)) (v, m, log) =
        Some (Inr (), v', m', log')" and d': "d' = ArmBlk v'"
      by (auto simp: arm_device_poll_def)
    from virtio_poll_line [OF p] notify_all_irq [OF p [unfolded virtio_poll_def]] 4(2) ArmBlk d' show ?thesis by simp
  qed
next
  case (5 n log log' d)
  then show ?case by (cases d) (auto simp: vio_irq_ok_def only_line_def pl011_synced_def)
qed

section \<open>All runs\<close>

text \<open>
  What happens to a machine once it is set up: exits of the guest, polls, typed characters and guest
  writes to RAM.
\<close>

inductive arm_reach :: "arm_machine_env \<Rightarrow> arm_machine \<Rightarrow> bool" for E where
  init: "arm_init_mmio_devices E disk ((arm_machine_new m)\<lparr>am_mem := vm\<rparr>) = (Inr (), mc1) \<Longrightarrow>
    arm_init_io_devices mc1 = (Inr (), mc) \<Longrightarrow> arm_reach E mc"
| port_exit: "arm_reach E mc \<Longrightarrow> arm_handle_io io (data, mc) = (Inr (), data', mc') \<Longrightarrow> arm_reach E mc'"
| mmio_exit: "arm_reach E mc \<Longrightarrow> arm_machine_mmio E (mmio, mc) = Some (Inr (), mmio', mc') \<Longrightarrow> arm_reach E mc'"
| poll: "arm_reach E mc \<Longrightarrow> arm_machine_poll E mc = Some (Inr (), mc') \<Longrightarrow> arm_reach E mc'"
| char: "arm_reach E mc \<Longrightarrow> arm_send_char E ch mc = (Inr (), mc') \<Longrightarrow> arm_reach E mc'"
| guest: "arm_reach E mc \<Longrightarrow> arm_reach E (mc\<lparr>am_ram := m\<rparr>)"

definition arm_inv :: "arm_machine_env \<Rightarrow> arm_machine \<Rightarrow> bool" where
  "arm_inv E mc \<longleftrightarrow> bus_ok (arm_line E) (arm_dev_ok E) (am_mmio mc) (am_irqs mc) \<and>
     line_at (arm_line E) (am_mmio mc) (mmio_page UART_MMIO_ADDR) = Some (pl011_line (an_spi E) (an_shift E)) \<and>
     (\<forall>n. n \<notin> bus_lines (arm_line E) (am_mmio mc) \<longrightarrow> \<not> line_level n (am_irqs mc))"

lemma arm_inv_bus:
  assumes "arm_inv E mc" and "bus_ok (arm_line E) (arm_dev_ok E) bus log'"
    and "bus_lines (arm_line E) bus = bus_lines (arm_line E) (am_mmio mc)"
    and "line_at (arm_line E) bus = line_at (arm_line E) (am_mmio mc)"
    and "\<forall>n. n \<notin> bus_lines (arm_line E) (am_mmio mc) \<longrightarrow> line_level n log' = line_level n (am_irqs mc)"
  shows "arm_inv E (mc\<lparr>am_mmio := bus, am_ram := m, am_out := out, am_irqs := log'\<rparr>)"
  using assms by (auto simp: arm_inv_def)

text \<open>What the kernel's interface gives for an SPI: type 1 in the bits from 24.\<close>

definition documented_gic :: "arm_machine_env \<Rightarrow> bool" where
  "documented_gic E \<longleftrightarrow> an_spi E = 1 \<and> an_shift E = 24"

lemma arm_inv_init:
  assumes "documented_gic E" and "arm_init_mmio_devices E disk ((arm_machine_new m)\<lparr>am_mem := vm\<rparr>) = (Inr (), mc)"
  shows "arm_inv E mc"
proof -
  have new: "pl011_synced (arm_spi_env E) pl011_new []" by (simp add: pl011_synced_def pl011_new_def)
  have "am_irqs mc = []" and
    "am_mmio mc = [(0x9000, ArmUart pl011_new)] \<or>
     (\<exists>d. am_mmio mc = [(0x9000, ArmUart pl011_new),
        (0xa000, ArmBlk (virtio_mmio_new d (arm_irq_number (an_spi E) (an_shift E) ARM_BLK_IRQ)))])"
    using assms(2)
    by (auto simp: arm_init_mmio_devices_def init_virtio_blk_def arm_machine_new_def add_mmio_device_def mmio_page_def
        split: option.splits sum.splits prod.splits)
  moreover have "pl011_line 1 24 \<noteq> arm_irq_number 1 24 ARM_BLK_IRQ"
    by (simp add: pl011_line_def arm_irq_number_def arm_gic_spi_base_def)
  ultimately show ?thesis
    using new assms(1)
    by (auto simp: arm_inv_def bus_ok_def bus_lines_def line_at_def mmio_page_def vio_irq_ok_def virtio_mmio_new_def
        documented_gic_def)
qed

lemma arm_inv_mmio:
  assumes h: "arm_machine_mmio E (mmio, mc) = Some (Inr (), mmio', mc')" and inv: "arm_inv E mc"
  shows "arm_inv E mc'"
proof -
  obtain bus m out log where
    h': "handle_mmio (arm_device_handle E (vm_regions (am_mem mc))) (mmio, am_mmio mc, am_ram mc, am_out mc, am_irqs mc) =
      Some (Inr (), mmio', bus, m, out, log)"
    and mc': "mc' = mc\<lparr>am_mmio := bus, am_ram := m, am_out := out, am_irqs := log\<rparr>"
    using h by (auto simp: arm_machine_mmio_def)
  have b: "bus_ok (arm_line E) (arm_dev_ok E) (am_mmio mc) (am_irqs mc)" using inv by (simp add: arm_inv_def)
  show ?thesis unfolding mc' using arm_bus.handle_mmio_ok [OF h' b] inv by (intro arm_inv_bus) auto
qed

lemma arm_inv_poll:
  assumes h: "arm_machine_poll E mc = Some (Inr (), mc')" and inv: "arm_inv E mc"
  shows "arm_inv E mc'"
proof -
  obtain bus m out log where
    h': "poll_mmio_devices (arm_device_poll E (vm_regions (am_mem mc))) (am_mmio mc, am_ram mc, am_out mc, am_irqs mc) =
      Some (Inr (), bus, m, out, log)"
    and mc': "mc' = mc\<lparr>am_mmio := bus, am_ram := m, am_out := out, am_irqs := log\<rparr>"
    using h by (auto simp: arm_machine_poll_def)
  have b: "bus_ok (arm_line E) (arm_dev_ok E) (am_mmio mc) (am_irqs mc)" using inv by (simp add: arm_inv_def)
  show ?thesis unfolding mc' using arm_bus.poll_mmio_devices_ok [OF h' b] inv by (intro arm_inv_bus) auto
qed

lemma arm_inv_char:
  assumes h: "arm_send_char E ch mc = (Inr (), mc')" and inv: "arm_inv E mc"
  shows "arm_inv E mc'"
proof -
  let ?page = "mmio_page UART_MMIO_ADDR"
  consider "mc' = mc" | u u' log where "map_of (am_mmio mc) ?page = Some (ArmUart u)"
      "pl011_send_char (arm_spi_env E) ch (u, am_irqs mc) = (Inr (), u', log)"
      "mc' = mc\<lparr>am_mmio := AList.update ?page (ArmUart u') (am_mmio mc), am_irqs := log\<rparr>"
    using h by (auto simp: arm_send_char_def split: option.splits arm_device.splits prod.splits)
  then show ?thesis
  proof cases
    case 2
    have b: "bus_ok (arm_line E) (arm_dev_ok E) (am_mmio mc) (am_irqs mc)" using inv by (simp add: arm_inv_def)
    have put: "bus_ok (arm_line E) (arm_dev_ok E) (AList.update ?page (ArmUart u') (am_mmio mc)) log \<and>
        bus_lines (arm_line E) (AList.update ?page (ArmUart u') (am_mmio mc)) = bus_lines (arm_line E) (am_mmio mc) \<and>
        line_at (arm_line E) (AList.update ?page (ArmUart u') (am_mmio mc)) = line_at (arm_line E) (am_mmio mc) \<and>
        arm_line E (ArmUart u) \<in> bus_lines (arm_line E) (am_mmio mc)"
      using pl011_send_char_line [OF 2(2)] pl011_send_char_synced [OF 2(2)]
      by (intro arm_bus.bus_ok_put [OF b 2(1)]) auto
    have "arm_inv E (mc\<lparr>am_mmio := AList.update ?page (ArmUart u') (am_mmio mc), am_ram := am_ram mc, am_out := am_out mc,
        am_irqs := log\<rparr>)"
      using put only_line_apart [OF pl011_send_char_line [OF 2(2)]] by (intro arm_inv_bus [OF inv]) auto
    then show ?thesis by (simp add: 2(3))
  qed (use inv in simp)
qed

lemma arm_reach_inv: "arm_reach E mc \<Longrightarrow> documented_gic E \<Longrightarrow> arm_inv E mc"
proof (induction rule: arm_reach.induct)
  case (init disk m vm mc1 mc)
  then show ?case using arm_inv_init [of E disk m vm mc1] by (simp add: arm_init_io_devices_def)
next
  case (port_exit mc io data data' mc')
  then show ?case by (simp add: arm_handle_io_def)
next
  case (mmio_exit mc mmio mmio' mc')
  then show ?case using arm_inv_mmio by blast
next
  case (poll mc mc')
  then show ?case using arm_inv_poll by blast
next
  case (char mc ch mc')
  then show ?case using arm_inv_char by blast
qed (simp_all add: arm_inv_def)

text \<open>
  C28. The two devices of the aarch64 machine do not disturb each other's interrupts: in every state
  it can reach from setup, through exits, polls, typed characters and guest writes in any order, the
  UART is in its page and its line, GIC interrupt 33, is high exactly when an unmasked interrupt is
  raw-pending; the line of the disk, 34, is high only while the status register of the device in its page shows
  a reason; no other line is ever high.
\<close>

theorem arm_irq_lines:
  assumes "documented_mmio (an_mmio E)" and "documented_gic E" and "arm_reach E mc"
  shows "(\<exists>u. map_of (am_mmio mc) 0x9000 = Some (ArmUart u) \<and>
      (line_level 0x1000021 (am_irqs mc) \<longleftrightarrow> pl_ris u AND pl_imsc u \<noteq> 0)) \<and>
    (line_level 0x1000022 (am_irqs mc) \<longrightarrow>
      (\<exists>page v. map_of (am_mmio mc) page = Some (ArmBlk v) \<and> vio_irq_status v AND virtio_mmio_int_vring (an_mmio E) \<noteq> 0)) \<and>
    (\<forall>n. n \<noteq> 0x1000021 \<and> n \<noteq> 0x1000022 \<longrightarrow> \<not> line_level n (am_irqs mc))"
proof -
  have int: "virtio_mmio_int_vring (an_mmio E) \<noteq> 0" using assms(1) by (simp add: documented_mmio_def linux_mmio_def)
  have lines: "pl011_line (an_spi E) (an_shift E) = 0x1000021" "arm_irq_number (an_spi E) (an_shift E) ARM_BLK_IRQ = 0x1000022"
    using assms(2) by (simp_all add: documented_gic_def pl011_line_def arm_irq_number_def arm_gic_spi_base_def)
  have inv: "arm_inv E mc" using arm_reach_inv assms(2,3) by blast
  have ok: "arm_dev_ok E d (am_irqs mc)" if "(page, d) \<in> set (am_mmio mc)" for page d
    using inv that by (auto simp: arm_inv_def bus_ok_def)
  have dev: "arm_line E d = 0x1000021 \<and> (\<exists>u. d = ArmUart u) \<or> arm_line E d = 0x1000022 \<and> (\<exists>v. d = ArmBlk v)"
    if "(page, d) \<in> set (am_mmio mc)" for page d
    using ok [OF that] lines by (cases d) auto
  have "line_at (arm_line E) (am_mmio mc) 0x9000 = Some 0x1000021"
    using inv by (simp add: arm_inv_def lines mmio_page_def)
  then obtain d where d: "map_of (am_mmio mc) 0x9000 = Some d" "arm_line E d = 0x1000021" by (auto simp: line_at_def)
  with dev [OF map_of_SomeD [OF d(1)]] obtain u where u: "d = ArmUart u" by auto
  have 1: "line_level 0x1000021 (am_irqs mc) \<longleftrightarrow> pl_ris u AND pl_imsc u \<noteq> 0"
    using ok [OF map_of_SomeD [OF d(1)]] u lines by (simp add: pl011_synced_def)
  have high: "\<exists>page d. (page, d) \<in> set (am_mmio mc) \<and> arm_line E d = n" if "line_level n (am_irqs mc)" for n
  proof -
    have "n \<in> bus_lines (arm_line E) (am_mmio mc)" using inv that unfolding arm_inv_def by blast
    then show ?thesis by (force simp: bus_lines_def)
  qed
  have 2: "\<exists>page v. map_of (am_mmio mc) page = Some (ArmBlk v) \<and> vio_irq_status v AND virtio_mmio_int_vring (an_mmio E) \<noteq> 0"
    if l: "line_level 0x1000022 (am_irqs mc)"
  proof -
    obtain page v where v: "(page, ArmBlk v) \<in> set (am_mmio mc)" "vio_irq v = 0x1000022" using high [OF l] dev by fastforce
    moreover have "map_of (am_mmio mc) page = Some (ArmBlk v)"
      using inv v(1) by (intro map_of_is_SomeI) (auto simp: arm_inv_def bus_ok_def)
    ultimately show ?thesis using ok [OF v(1)] int l by (auto simp: vio_irq_ok_def)
  qed
  have 3: "\<not> line_level n (am_irqs mc)" if "n \<noteq> 0x1000021" "n \<noteq> 0x1000022" for n
    using high [of n] dev that by blast
  show ?thesis using d(1) u 1 2 3 by blast
qed

text \<open>A guest unmasks the receive interrupt, then a character is typed.\<close>

theorem arm_irq_lines_witness:
  "\<exists>E mc. arm_reach E mc \<and> line_level 0x1000021 (am_irqs mc) \<and> \<not> line_level 0x1000022 (am_irqs mc)"
proof -
  let ?E = "\<lparr>an_mmio = linux_mmio, an_vring = linux_vring, an_blk = linux_blk, an_disk = \<lambda>_ _. DiskOk, an_spi = 1, an_shift = 24,
    an_irq = \<lambda>_ _ _. True, an_flush = \<lambda>_. True\<rparr>"
  let ?mc = "(arm_machine_new (\<lambda>_ _. 0))\<lparr>am_mmio := [(0x9000, ArmUart pl011_new)]\<rparr>"
  let ?mmio = "\<lparr>mm_phys_addr = 0x9000038, mm_data = [0x10, 0, 0, 0, 0, 0, 0, 0], mm_len = 4, mm_is_write = 1\<rparr>"
  let ?u = "pl011_new\<lparr>pl_imsc := 0x10\<rparr>"
  let ?mc1 = "?mc\<lparr>am_mmio := [(0x9000, ArmUart ?u)], am_irqs := [IrqSet 0 0x1000021]\<rparr>"
  let ?mc2 = "?mc\<lparr>am_mmio := [(0x9000, ArmUart (?u\<lparr>pl_rx := Some 0x61, pl_ris := 0x10\<rparr>))],
    am_irqs := [IrqSet 0 0x1000021, IrqSet 1 0x1000021]\<rparr>"
  have i: "arm_init_mmio_devices ?E None ((arm_machine_new (\<lambda>_ _. 0))\<lparr>am_mem := \<lparr>vm_regions = [], vm_next_slot = 0, vm_calls = []\<rparr>\<rparr>) =
      (Inr (), ?mc)"
    by (simp add: arm_init_mmio_devices_def init_virtio_blk_def add_mmio_device_def mmio_page_def arm_machine_new_def)
  have "arm_machine_mmio ?E (?mmio, ?mc) = Some (Inr (), ?mmio, ?mc1)"
    by (simp add: arm_machine_mmio_def handle_mmio_def arm_device_handle_def mmio_page_def pl011_handle_def pl011_write_reg_def
        pl011_update_irq_eq pl011_line_def arch_update_irq_def Let_def read_le32_def slice_at_def from_le32_def pl011_new_def
        arm_machine_new_def)
  then have r1: "arm_reach ?E ?mc1"
    using arm_reach.mmio_exit [OF arm_reach.init [OF i]] by (simp add: arm_init_io_devices_def)
  have "arm_send_char ?E 0x61 ?mc1 = (Inr (), ?mc2)"
    by (simp add: arm_send_char_def mmio_page_def pl011_send_char_def pl011_update_irq_eq pl011_line_def arch_update_irq_def
        Let_def pl011_new_def)
  then have r2: "arm_reach ?E ?mc2" by (rule arm_reach.char [OF r1])
  have "documented_mmio (an_mmio ?E)" "documented_gic ?E" by (simp_all add: documented_mmio_def documented_gic_def)
  from arm_irq_lines [OF this r2] r2 show ?thesis by (intro exI [of _ ?E] exI [of _ ?mc2]) (auto split: if_splits)
qed

end
