(* ===== verification/Arm_Boot.thy ===== *)
theory Arm_Boot
  imports Cli_Args Guest_Memory Util_Binary
begin

text \<open>
  Booting on aarch64: the vcpu's registers (\<open>src/src/arch/aarch64/vcpu.rs\<close>), the interrupt
  controller and the loading of a Linux image (\<open>src/src/arch/aarch64/init.rs\<close>). The register
  ids are built from three constants of the generated bindings, whose disjunction is the argument
  \<open>base\<close>; the files read, the mappings made and the outcomes of the ioctls are arguments.
\<close>

section \<open>Registers\<close>

definition aarch64_core_reg :: "u64 \<Rightarrow> u8 list \<Rightarrow> u64 res" where
  "aarch64_core_reg base name =
     (if take 1 name = str_bytes ''x'' then
        (case parse_usize (drop 1 name) of
           None \<Rightarrow> Inl (IoError InvalidInput)
         | Some reg \<Rightarrow> try_res (mul_ov reg 2) (\<lambda>r. Inr (base OR r)))
      else if name = str_bytes ''sp'' then Inr (base OR (31 * 2))
      else if name = str_bytes ''pc'' then Inr (base OR (32 * 2))
      else if name = str_bytes ''pstate'' then Inr (base OR (33 * 2))
      else Inl (IoError Other))"

definition xreg :: "nat \<Rightarrow> u8 list" where
  "xreg n = str_bytes ''x'' @ dec_digits n"

definition reg_names :: "u8 list list" where
  "reg_names = map xreg [0..<30] @ map str_bytes [''sp'', ''pc'', ''pstate'']"

fun load_regs :: "u64 \<Rightarrow> u8 list list \<Rightarrow> (u8 list \<rightharpoonup> u64) \<Rightarrow> (u8 list \<rightharpoonup> u64) res" where
  "load_regs base [] m = Inr m"
| "load_regs base (name # names) m =
     try_res (aarch64_core_reg base name) (\<lambda>rid. load_regs base names (m(name \<mapsto> rid)))"

text \<open>\<open>load_regs_hash\<close>, and \<open>REGS\<close>, whose initialisation panics when it fails.\<close>

definition load_regs_hash :: "u64 \<Rightarrow> (u8 list \<rightharpoonup> u64) res" where
  "load_regs_hash base = load_regs base reg_names Map.empty"

definition arm_regs :: "u64 \<Rightarrow> (u8 list \<rightharpoonup> u64) res" where
  "arm_regs base = (case load_regs_hash base of Inl _ \<Rightarrow> Inl (Panicked UnwrapNone) | Inr m \<Rightarrow> Inr m)"

text \<open>The registers KVM keeps, by id, and the calls made.\<close>

datatype arm_call = GetOneReg u64 | SetOneReg u64 u64

record arm_vcpu =
  av_reg :: "u64 \<Rightarrow> u64"
  av_calls :: "arm_call list"

type_synonym arm_env = "arm_call list \<Rightarrow> arm_call \<Rightarrow> bool"

definition arm_ioctl :: "arm_env \<Rightarrow> arm_call \<Rightarrow> (arm_vcpu, unit) oper" where
  "arm_ioctl env call v =
     (if env (av_calls v) call then Inr () else Inl (IoError OsError), v\<lparr>av_calls := av_calls v @ [call]\<rparr>)"

definition reg_id :: "u64 \<Rightarrow> u8 list \<Rightarrow> u64 res" where
  "reg_id base name = try_res (arm_regs base) (\<lambda>m. ok_or Other (m name))"

definition get_one_reg :: "u64 \<Rightarrow> arm_env \<Rightarrow> u8 list \<Rightarrow> (arm_vcpu, u64) oper" where
  "get_one_reg base env name v =
     (case reg_id base name of
        Inl e \<Rightarrow> (Inl e, v)
      | Inr rid \<Rightarrow> then_op (arm_ioctl env (GetOneReg rid)) (\<lambda>_ v. (Inr (av_reg v rid), v)) v)"

definition set_one_reg :: "u64 \<Rightarrow> arm_env \<Rightarrow> u8 list \<Rightarrow> u64 \<Rightarrow> (arm_vcpu, unit) oper" where
  "set_one_reg base env name val v =
     (case reg_id base name of
        Inl e \<Rightarrow> (Inl e, v)
      | Inr rid \<Rightarrow> then_op (arm_ioctl env (SetOneReg rid val)) (\<lambda>_ v. (Inr (), v\<lparr>av_reg := (av_reg v)(rid := val)\<rparr>)) v)"

definition arm_set_ip :: "u64 \<Rightarrow> arm_env \<Rightarrow> u64 \<Rightarrow> (arm_vcpu, unit) oper" where
  "arm_set_ip base env ip = set_one_reg base env (str_bytes ''pc'') ip"

definition arm_get_ip :: "u64 \<Rightarrow> arm_env \<Rightarrow> (arm_vcpu, u64) oper" where
  "arm_get_ip base env = get_one_reg base env (str_bytes ''x0'')"

definition arm_print_regs :: "u64 \<Rightarrow> arm_env \<Rightarrow> (arm_vcpu, unit) oper" where
  "arm_print_regs base env =
     then_op (get_one_reg base env (str_bytes ''x0'')) (\<lambda>_.
     then_op (get_one_reg base env (str_bytes ''pc'')) (\<lambda>_ v. (Inr (), v)))"

section \<open>Setup\<close>

text \<open>The outcomes of the ioctls, in order.\<close>

fun ioctls_ok :: "bool list \<Rightarrow> unit res" where
  "ioctls_ok [] = Inr ()"
| "ioctls_ok (ok # rest) = (if ok then ioctls_ok rest else Inl (IoError OsError))"

definition arm_vcpu_init :: "bool \<Rightarrow> unit res" where
  "arm_vcpu_init ok = ioctls_ok [ok]"

definition setup_irq_device :: "bool \<Rightarrow> bool \<Rightarrow> bool \<Rightarrow> unit res" where
  "setup_irq_device created dist cpu = ioctls_ok [created, dist, cpu]"

definition arm_arch_init :: "bool \<Rightarrow> bool \<Rightarrow> bool \<Rightarrow> bool \<Rightarrow> unit res" where
  "arm_arch_init ok created dist cpu = try_res (arm_vcpu_init ok) (\<lambda>_. setup_irq_device created dist cpu)"

section \<open>Loading Linux\<close>

record arm64_image_header =
  ih_code0 :: u32
  ih_code1 :: u32
  ih_text_offset :: u64
  ih_image_size :: u64
  ih_flags :: u64
  ih_res2 :: u64
  ih_res3 :: u64
  ih_res4 :: u64
  ih_magic :: u32
  ih_res5 :: u32

text \<open>The fields are read in order from the first 64 bytes.\<close>

definition get_linux_header :: "u8 list res \<Rightarrow> arm64_image_header res" where
  "get_linux_header file =
     try_res file (\<lambda>bytes.
       if length bytes < 64 then Inl (IoError UnexpectedEof)
       else (let buf = take 64 bytes in
         try_res (read_le32 buf 0) (\<lambda>c0. try_res (read_le32 buf 4) (\<lambda>c1.
         try_res (read_le64 buf 8) (\<lambda>off. try_res (read_le64 buf 16) (\<lambda>sz.
         try_res (read_le64 buf 24) (\<lambda>fl. try_res (read_le64 buf 32) (\<lambda>r2.
         try_res (read_le64 buf 40) (\<lambda>r3. try_res (read_le64 buf 48) (\<lambda>r4.
         try_res (read_le32 buf 56) (\<lambda>mg. try_res (read_le32 buf 60) (\<lambda>r5.
           Inr \<lparr>ih_code0 = c0, ih_code1 = c1, ih_text_offset = off, ih_image_size = sz, ih_flags = fl,
             ih_res2 = r2, ih_res3 = r3, ih_res4 = r4, ih_magic = mg, ih_res5 = r5\<rparr>))))))))))))"

abbreviation (input) LOAD_ADDR :: u64 where "LOAD_ADDR \<equiv> 0x40000000"
abbreviation (input) INITRAMFS_OFFS :: u64 where "INITRAMFS_OFFS \<equiv> 0x200000"
abbreviation (input) KERN_OFFS :: u64 where "KERN_OFFS \<equiv> 0x400000"

definition load_images ::
    "guest_memory \<Rightarrow> nat \<Rightarrow> u8 list res option \<Rightarrow> u8 list res option \<Rightarrow> u8 list res \<Rightarrow> (ram, unit) oper" where
  "load_images mem idx dtb initramfs linux =
     then_op (case dtb of
                None \<Rightarrow> (\<lambda>m. (Inl (IoError Other), m))
              | Some file \<Rightarrow> load_file_to_memory mem idx file 0x0) (\<lambda>_.
     then_op (case initramfs of
                None \<Rightarrow> (\<lambda>m. (Inr 0, m))
              | Some file \<Rightarrow> load_file_to_memory mem idx file INITRAMFS_OFFS) (\<lambda>_.
     then_op (load_file_to_memory mem idx linux KERN_OFFS) (\<lambda>_ m. (Inr (), m))))"

definition arm_boot_regs :: "u64 \<Rightarrow> arm_env \<Rightarrow> (arm_vcpu, unit) oper" where
  "arm_boot_regs base env =
     then_op (set_one_reg base env (str_bytes ''x0'') LOAD_ADDR) (\<lambda>_.
     then_op (set_one_reg base env (str_bytes ''x1'') 0x0) (\<lambda>_.
     then_op (set_one_reg base env (str_bytes ''x2'') 0x0) (\<lambda>_.
     then_op (set_one_reg base env (str_bytes ''x3'') 0x0) (\<lambda>_.
     then_op (set_one_reg base env (str_bytes ''pc'') (LOAD_ADDR + KERN_OFFS)) (\<lambda>_.
     arm_print_regs base env)))))"

record arm_boot_env =
  ab_region :: region_env
  ab_mapped :: "u64 option"
  ab_base :: u64
  ab_vcpu :: arm_env

text \<open>
  \<open>linux\<close>, \<open>dtb\<close> and \<open>initramfs\<close> are the outcomes of reading the files named on the command line;
  \<open>metadata\<close> is the outcome of asking for the image's length, which is only printed.
\<close>

definition arm_load_linux ::
    "arm_boot_env \<Rightarrow> u64 option \<Rightarrow> u8 list res option \<Rightarrow> bool \<Rightarrow> u8 list res option \<Rightarrow> u8 list res option \<Rightarrow>
      (vm_mem \<times> ram \<times> arm_vcpu, unit) oper" where
  "arm_load_linux E memory linux metadata dtb initramfs = (\<lambda>(vm, m, v).
     case try_res (ok_or Other linux) (\<lambda>file. try_res (get_linux_header file) (\<lambda>_.
            if metadata then Inr file else Inl (IoError OsError))) of
       Inl e \<Rightarrow> (Inl e, vm, m, v)
     | Inr file \<Rightarrow>
         (case add_mem_region (ab_region E) (ab_mapped E)
                 (unat (case memory of None \<Rightarrow> 0x40000000 | Some s \<Rightarrow> s)) LOAD_ADDR vm of
            (Inl e, vm) \<Rightarrow> (Inl e, vm, m, v)
          | (Inr idx, vm) \<Rightarrow>
              (case load_images (vm_regions vm) idx dtb initramfs file m of
                 (Inl e, m) \<Rightarrow> (Inl e, vm, m, v)
               | (Inr _, m) \<Rightarrow> (case arm_boot_regs (ab_base E) (ab_vcpu E) v of (r, v) \<Rightarrow> (r, vm, m, v)))))"

section \<open>The register ids\<close>

lemma xreg_simps [simp]: "take (Suc 0) (xreg n) = str_bytes ''x''" "drop (Suc 0) (xreg n) = dec_digits n"
  by (simp_all add: xreg_def str_bytes_def)

lemma x_names:
  "str_bytes ''x0'' = xreg 0" "str_bytes ''x1'' = xreg 1" "str_bytes ''x2'' = xreg 2" "str_bytes ''x3'' = xreg 3"
  by (simp_all add: xreg_def str_bytes_def dec_digits.simps)

lemma aarch64_core_reg_x:
  assumes "n < 2 ^ 63" shows "aarch64_core_reg base (xreg n) = Inr (base OR word_of_nat (2 * n))"
proof -
  have "unat (word_of_nat n :: u64) = n" using assms by (simp add: unsigned_of_nat take_bit_nat_eq_self)
  then show ?thesis using assms parse_usize_dec [of n]
    by (simp add: aarch64_core_reg_def checked_mul_def mult.commute)
qed

lemma special_names: "take (Suc 0) (str_bytes ''sp'') \<noteq> str_bytes ''x''" "take (Suc 0) (str_bytes ''pc'') \<noteq> str_bytes ''x''"
    "take (Suc 0) (str_bytes ''pstate'') \<noteq> str_bytes ''x''" "distinct (map str_bytes [''sp'', ''pc'', ''pstate''])"
  by (simp_all add: str_bytes_def)

definition core_id :: "u64 \<Rightarrow> u8 list \<Rightarrow> u64" where
  "core_id base name = (case aarch64_core_reg base name of Inr rid \<Rightarrow> rid | Inl _ \<Rightarrow> 0)"

lemma core_ids:
  "n < 2 ^ 63 \<Longrightarrow> core_id base (xreg n) = base OR word_of_nat (2 * n)"
  "core_id base (str_bytes ''sp'') = base OR 62" "core_id base (str_bytes ''pc'') = base OR 64"
  "core_id base (str_bytes ''pstate'') = base OR 66"
  using special_names by (simp_all add: core_id_def aarch64_core_reg_x) (simp_all add: aarch64_core_reg_def str_bytes_def)

lemma reg_names_ok:
  assumes "name \<in> set reg_names" shows "aarch64_core_reg base name = Inr (core_id base name)"
proof -
  from assms consider n where "n < 30" "name = xreg n" | "name \<in> str_bytes ` {''sp'', ''pc'', ''pstate''}"
    by (auto simp: reg_names_def)
  then show ?thesis
    by cases (auto simp: core_id_def aarch64_core_reg_x, auto simp: aarch64_core_reg_def str_bytes_def)
qed

lemma load_regs_ok:
  assumes "\<forall>name\<in>set names. aarch64_core_reg base name = Inr (f name)"
  shows "load_regs base names m = Inr (\<lambda>x. if x \<in> set names then Some (f x) else m x)"
  using assms by (induction names arbitrary: m) (auto simp: fun_eq_iff)

lemma reg_id_eq: "reg_id base name = (if name \<in> set reg_names then Inr (core_id base name) else Inl (IoError Other))"
  using load_regs_ok [of reg_names base "core_id base" Map.empty] reg_names_ok
  by (simp add: reg_id_def arm_regs_def load_regs_hash_def)

lemma xreg_inj: "n < 2 ^ 63 \<Longrightarrow> k < 2 ^ 63 \<Longrightarrow> xreg n = xreg k \<Longrightarrow> n = k"
proof -
  assume b: "n < 2 ^ 63" "k < 2 ^ 63" and "xreg n = xreg k"
  then have "dec_digits n = dec_digits k" by (simp add: xreg_def)
  then have "(word_of_nat n :: u64) = word_of_nat k"
    using parse_usize_dec [of n] parse_usize_dec [of k] b by simp
  then have "unat (word_of_nat n :: u64) = unat (word_of_nat k :: u64)" by simp
  then show "n = k" using b by (simp add: unsigned_of_nat take_bit_nat_eq_self)
qed

lemma xreg_in_names: "n < 2 ^ 63 \<Longrightarrow> xreg n \<in> set reg_names \<longleftrightarrow> n < 30"
proof
  assume n: "n < 2 ^ 63" and "xreg n \<in> set reg_names"
  then consider k where "k < 30" "xreg n = xreg k" | "xreg n \<in> str_bytes ` {''sp'', ''pc'', ''pstate''}"
    by (auto simp: reg_names_def)
  then show "n < 30"
  proof cases
    case 1
    then show ?thesis using xreg_inj [OF n, of k] by simp
  next
    case 2
    have "take (Suc 0) y \<noteq> str_bytes ''x''" if "y \<in> str_bytes ` {''sp'', ''pc'', ''pstate''}" for y
      using that special_names(1-3) by auto
    from this [OF 2] show ?thesis by simp
  qed
qed (auto simp: reg_names_def)

text \<open>The ids of a base without low bits are told apart by them.\<close>

lemma core_id_low:
  assumes "base AND 0x7f = (0 :: u64)" and "k \<le> 0x7f"
  shows "(base OR k) AND 0x7f = k"
proof -
  have m: "(0x7f :: u64) = mask 7" by (simp add: mask_eq_exp_minus_1)
  have "k < 2 ^ 7" using assms(2) by (simp add: word_le_nat_alt word_less_nat_alt)
  then have "k AND mask 7 = k" by (rule less_mask_eq)
  then show ?thesis using assms(1) unfolding m by (simp add: bit.conj_disj_distrib2)
qed

text \<open>
  The register file the VMM can name: \<open>x0\<close> to \<open>x29\<close>, \<open>sp\<close>, \<open>pc\<close> and \<open>pstate\<close>, at the
  offsets of the kernel's interface, and no others; in particular \<open>x30\<close>, the link register, cannot
  be read or set. What is set is read back, but \<open>get_ip\<close> does not return what \<open>set_ip\<close> set: it reads
  \<open>x0\<close>.
\<close>

theorem arm_register_names:
  "(n < 2 ^ 63 \<longrightarrow> reg_id base (xreg n) = (if n < 30 then Inr (base OR word_of_nat (2 * n)) else Inl (IoError Other))) \<and>
   reg_id base (str_bytes ''sp'') = Inr (base OR 62) \<and> reg_id base (str_bytes ''pc'') = Inr (base OR 64) \<and>
   reg_id base (str_bytes ''pstate'') = Inr (base OR 66) \<and>
   (base AND 0x7f = 0 \<and> arm_set_ip base (\<lambda>_ _. True) ip v = (r, v') \<longrightarrow>
      r = Inr () \<and> fst (get_one_reg base (\<lambda>_ _. True) (str_bytes ''pc'') v') = Inr ip \<and>
      fst (arm_get_ip base (\<lambda>_ _. True) v') = Inr (av_reg v base))"
proof -
  have names: "str_bytes ''sp'' \<in> set reg_names" "str_bytes ''pc'' \<in> set reg_names" "str_bytes ''pstate'' \<in> set reg_names"
    by (simp_all add: reg_names_def)
  have "base AND 0x7f = 0 \<Longrightarrow> base \<noteq> base OR 64"
    using core_id_low [of base 64] core_id_low [of base 0] by auto
  then have "base AND 0x7f = 0 \<and> arm_set_ip base (\<lambda>_ _. True) ip v = (r, v') \<longrightarrow>
      r = Inr () \<and> fst (get_one_reg base (\<lambda>_ _. True) (str_bytes ''pc'') v') = Inr ip \<and>
      fst (arm_get_ip base (\<lambda>_ _. True) v') = Inr (av_reg v base)"
    using names(2) xreg_in_names [of 0]
    by (auto simp: arm_set_ip_def arm_get_ip_def set_one_reg_def get_one_reg_def reg_id_eq core_ids x_names arm_ioctl_def then_op_def)
  then show ?thesis using names xreg_in_names [of n] by (auto simp: reg_id_eq core_ids)
qed

theorem arm_register_names_witness:
  "reg_id 0x6030000000100000 (xreg 29) = Inr (0x6030000000100000 OR 58) \<and>
   reg_id 0x6030000000100000 (xreg 30) = Inl (IoError Other) \<and>
   fst (arm_get_ip 0x6030000000100000 (\<lambda>_ _. True)
     (snd (arm_set_ip 0x6030000000100000 (\<lambda>_ _. True) 0x40400000 \<lparr>av_reg = \<lambda>_. 7, av_calls = []\<rparr>))) = Inr 7"
proof -
  let ?b = "0x6030000000100000 :: u64" and ?v = "\<lparr>av_reg = \<lambda>_. 7, av_calls = []\<rparr>"
  obtain r v' where s: "arm_set_ip ?b (\<lambda>_ _. True) 0x40400000 ?v = (r, v')" by force
  show ?thesis
    using arm_register_names [of 29 ?b "0x40400000" ?v r v'] arm_register_names [of 30 ?b "0x40400000" ?v r v'] s by simp
qed

section \<open>What the boot leaves\<close>

lemma load_file_ok:
  assumes "load_file_to_memory mem idx file off m = (Inr n, m')"
  shows "\<exists>bs. file = Inr bs \<and> unat off + length bs \<le> mem_size (mem ! idx) \<and> m' = ram_write (idx, unat off) bs m"
  using assms by (auto simp: load_file_to_memory_def load_data_ok split: sum.splits if_splits)

lemma load_images_ok:
  assumes "load_images mem idx dtb initramfs linux m = (Inr (), m')"
  shows "\<exists>d k m1. dtb = Some (Inr d) \<and> linux = Inr k \<and>
    m' = ram_write (idx, 0x400000) k m1 \<and>
    (case initramfs of None \<Rightarrow> m1 = ram_write (idx, 0) d m
     | Some f \<Rightarrow> \<exists>i. f = Inr i \<and> m1 = ram_write (idx, 0x200000) i (ram_write (idx, 0) d m))"
proof -
  obtain f n m0 where dtb: "dtb = Some f" and m0: "load_file_to_memory mem idx f 0x0 m = (Inr n, m0)"
    using assms by (cases dtb) (auto simp: load_images_def res_simps)
  obtain d where d: "f = Inr d" "m0 = ram_write (idx, 0) d m" using load_file_ok [OF m0] by auto
  obtain n1 m1 where m1: "(case initramfs of None \<Rightarrow> (\<lambda>m. (Inr 0, m))
      | Some file \<Rightarrow> load_file_to_memory mem idx file INITRAMFS_OFFS) m0 = (Inr n1, m1)"
    and k: "\<exists>n2. load_file_to_memory mem idx linux KERN_OFFS m1 = (Inr n2, m')"
    using assms dtb m0 by (auto simp: load_images_def res_simps)
  obtain kern where kern: "linux = Inr kern" "m' = ram_write (idx, 0x400000) kern m1" using k load_file_ok by fastforce
  have "case initramfs of None \<Rightarrow> m1 = m0 | Some f \<Rightarrow> \<exists>i. f = Inr i \<and> m1 = ram_write (idx, 0x200000) i m0"
    using m1 by (auto split: option.splits dest: load_file_ok)
  then show ?thesis using dtb d kern by (auto split: option.splits)
qed

lemma arm_regs_set:
  assumes "arm_boot_regs base env v = (Inr (), v')" and "base AND 0x7f = 0"
  shows "av_reg v' base = LOAD_ADDR \<and> av_reg v' (base OR 64) = 0x40400000 \<and>
    (\<forall>i\<in>{2, 4, 6}. av_reg v' (base OR i) = 0)"
proof -
  have i: "str_bytes ''pc'' \<in> set reg_names" by (simp add: reg_names_def)
  have inj: "base OR a = base OR b \<Longrightarrow> a \<le> 0x7f \<Longrightarrow> b \<le> 0x7f \<Longrightarrow> a = b" for a b
    using core_id_low [OF assms(2)] by metis
  have ne: "base OR 2 \<noteq> base" "base OR 4 \<noteq> base" "base OR 6 \<noteq> base" "base OR 64 \<noteq> base"
      "base OR 2 \<noteq> base OR 4" "base OR 2 \<noteq> base OR 6" "base OR 4 \<noteq> base OR 6"
      "base OR 64 \<noteq> base OR 2" "base OR 64 \<noteq> base OR 4" "base OR 64 \<noteq> base OR 6"
    using inj [of 2 0] inj [of 4 0] inj [of 6 0] inj [of 64 0] inj [of 2 4] inj [of 2 6] inj [of 4 6] inj [of 64 2]
      inj [of 64 4] inj [of 64 6] by auto
  have get: "get_one_reg base env name w = (Inr y, w') \<Longrightarrow> av_reg w' = av_reg w" for name y w w'
    by (auto simp: get_one_reg_def arm_ioctl_def then_op_def split: sum.splits if_splits)
  have set: "set_one_reg base env name val w = (Inr y, w') \<Longrightarrow> name \<in> set reg_names \<Longrightarrow>
      av_reg w' = (av_reg w)(core_id base name := val)" for name val y w w'
    by (auto simp: set_one_reg_def reg_id_eq arm_ioctl_def then_op_def split: if_splits)
  obtain v1 v2 v3 v4 v5 where
    "set_one_reg base env (xreg 0) LOAD_ADDR v = (Inr (), v1)" "set_one_reg base env (xreg 1) 0 v1 = (Inr (), v2)"
    "set_one_reg base env (xreg 2) 0 v2 = (Inr (), v3)" "set_one_reg base env (xreg 3) 0 v3 = (Inr (), v4)"
    "set_one_reg base env (str_bytes ''pc'') (LOAD_ADDR + KERN_OFFS) v4 = (Inr (), v5)"
    "arm_print_regs base env v5 = (Inr (), v')"
    using assms(1) unfolding arm_boot_regs_def x_names by (auto simp: res_simps)
  then have "av_reg v' = (av_reg v)(base := LOAD_ADDR, base OR 2 := 0, base OR 4 := 0, base OR 6 := 0, base OR 64 := 0x40400000)"
    using set [of "xreg 0"] set [of "xreg 1"] set [of "xreg 2"] set [of "xreg 3"] set [OF _ i]
    by (auto simp: xreg_in_names core_ids arm_print_regs_def res_simps dest!: get)
  then show ?thesis using ne by simp
qed

lemma ram_read_take_before:
  assumes "a \<le> b"
  shows "ram_read (ram_write (i, b) ks (ram_write (i, a) bs m)) (i, a) (min (length bs) (b - a)) = take (b - a) bs"
  using assms by (intro nth_equalityI) (auto simp: ram_read_nth ram_write_def)

text \<open>
  A boot that succeeds leaves the kernel whole at 4 MiB in a new region at \<open>0x40000000\<close>, the
  device tree at its start when it ends before the image loaded after it, and of the initramfs at
  2 MiB the first 2 MiB: a longer one is overwritten by the kernel without an error. The vcpu is at
  the kernel with \<open>x0\<close> at the device tree and \<open>x1\<close> to \<open>x3\<close> zero.
\<close>

theorem arm_boot_hands_over:
  assumes boot: "arm_load_linux E memory linux metadata dtb initramfs (vm, m, v) = (Inr (), vm', m', v')"
    and base: "ab_base E AND 0x7f = 0"
  shows "\<exists>i k d. linux = Some (Inr k) \<and> 64 \<le> length k \<and> dtb = Some (Inr d) \<and> i = length (vm_regions vm) \<and>
    guest_phys_addr (vm_regions vm' ! i) = 0x40000000 \<and>
    ram_read m' (i, 0x400000) (length k) = k \<and>
    (length d \<le> (if initramfs = None then 0x400000 else 0x200000) \<longrightarrow> ram_read m' (i, 0) (length d) = d) \<and>
    (\<forall>f. initramfs = Some (Inr f) \<longrightarrow> ram_read m' (i, 0x200000) (min (length f) 0x200000) = take 0x200000 f) \<and>
    av_reg v' (ab_base E) = 0x40000000 \<and> av_reg v' (ab_base E OR 64) = 0x40400000 \<and>
    (\<forall>r\<in>{2, 4, 6}. av_reg v' (ab_base E OR r) = 0)"
proof -
  obtain fl hd idx vm1 m1 where
    h: "linux = Some fl" "get_linux_header fl = Inr hd"
    and r: "add_mem_region (ab_region E) (ab_mapped E)
                 (unat (case memory of None \<Rightarrow> 0x40000000 | Some s \<Rightarrow> s)) LOAD_ADDR vm = (Inr idx, vm')"
    and l: "load_images (vm_regions vm') idx dtb initramfs fl m = (Inr (), m')"
    and regs: "arm_boot_regs (ab_base E) (ab_vcpu E) v = (Inr (), v')"
    using boot by (auto simp: arm_load_linux_def res_simps split: sum.splits prod.splits if_splits)
  obtain d k m2 where d: "dtb = Some (Inr d)" and k: "fl = Inr k" and m': "m' = ram_write (idx, 0x400000) k m2"
    and m2: "case initramfs of None \<Rightarrow> m2 = ram_write (idx, 0) d m
      | Some f \<Rightarrow> \<exists>i. f = Inr i \<and> m2 = ram_write (idx, 0x200000) i (ram_write (idx, 0) d m)"
    using load_images_ok [OF l] by blast
  have "64 \<le> length k" using h(2) k by (auto simp: get_linux_header_def split: if_splits)
  moreover have "guest_phys_addr (vm_regions vm' ! idx) = 0x40000000" "idx = length (vm_regions vm)"
    using add_mem_region_ok [OF r] by auto
  moreover have "ram_read m' (idx, 0x400000) (length k) = k" unfolding m' by simp
  moreover have "length d \<le> (if initramfs = None then 0x400000 else 0x200000) \<longrightarrow> ram_read m' (idx, 0) (length d) = d"
    unfolding m' using m2 ram_read_write_same [of "(idx, 0)" d m]
    by (auto simp: ram_read_write_apart split: option.splits)
  moreover have "\<forall>f. initramfs = Some (Inr f) \<longrightarrow> ram_read m' (idx, 0x200000) (min (length f) 0x200000) = take 0x200000 f"
    unfolding m' using m2 ram_read_take_before [of "0x200000" "0x400000" idx k] by auto
  ultimately show ?thesis using h(1) k d arm_regs_set [OF regs base] by blast
qed

text \<open>An image of 64 bytes and a device tree of two.\<close>

definition arm_wit_env :: arm_boot_env where
  "arm_wit_env = \<lparr>ab_region = (\<lambda>_ _. True), ab_mapped = Some 0x7000, ab_base = 0x6030000000100000, ab_vcpu = (\<lambda>_ _. True)\<rparr>"

lemma arm_wit_boot:
  "\<exists>vm' m' v'. arm_load_linux arm_wit_env None (Some (Inr (replicate 64 1))) True (Some (Inr [0xd0, 0x0d])) None
      (\<lparr>vm_regions = [], vm_next_slot = 0, vm_calls = []\<rparr>, \<lambda>_ _. 0, v) = (Inr (), vm', m', v')"
proof -
  let ?k = "replicate 64 1 :: u8 list"
  have ids: "name \<in> set reg_names \<Longrightarrow> reg_id 0x6030000000100000 name = Inr (core_id 0x6030000000100000 name)" for name
    by (simp add: reg_id_eq)
  have names: "{str_bytes ''x0'', str_bytes ''x1'', str_bytes ''x2'', str_bytes ''x3'', str_bytes ''pc''} \<subseteq> set reg_names"
    unfolding x_names using xreg_in_names by (simp add: reg_names_def)
  obtain v' where v': "arm_boot_regs 0x6030000000100000 (\<lambda>_ _. True) v = (Inr (), v')"
    using names ids
    by (simp add: arm_boot_regs_def set_one_reg_def get_one_reg_def arm_print_regs_def then_op_def arm_ioctl_def)
  obtain h where h: "get_linux_header (Inr ?k) = Inr h"
    by (simp add: get_linux_header_def Let_def read_le32_def read_le64_def slice_at_def)
  show ?thesis
    by (simp add: arm_load_linux_def h v' load_images_def load_file_to_memory_def load_data_to_memory_def then_op_def
        add_mem_region_def set_user_memory_region_def Let_def checked_add_def arm_wit_env_def)
qed

theorem arm_boot_hands_over_witness:
  "\<exists>vm' m' v'. arm_load_linux arm_wit_env None (Some (Inr (replicate 64 1))) True (Some (Inr [0xd0, 0x0d])) None
      (\<lparr>vm_regions = [], vm_next_slot = 0, vm_calls = []\<rparr>, \<lambda>_ _. 0, \<lparr>av_reg = \<lambda>_. 0, av_calls = []\<rparr>) = (Inr (), vm', m', v') \<and>
    ram_read m' (0, 0) 2 = [0xd0, 0x0d] \<and> av_reg v' 0x6030000000100040 = 0x40400000"
proof -
  obtain vm' m' v' where run: "arm_load_linux arm_wit_env None (Some (Inr (replicate 64 1))) True (Some (Inr [0xd0, 0x0d])) None
      (\<lparr>vm_regions = [], vm_next_slot = 0, vm_calls = []\<rparr>, \<lambda>_ _. 0, \<lparr>av_reg = \<lambda>_. 0, av_calls = []\<rparr>) = (Inr (), vm', m', v')"
    using arm_wit_boot by blast
  have "ab_base arm_wit_env AND 0x7f = 0" by (simp add: arm_wit_env_def)
  from arm_boot_hands_over [OF run this] show ?thesis using run by (auto simp: numeral_2_eq_2 arm_wit_env_def)
qed

end
