(* ===== verification/Arm_Main.thy ===== *)
theory Arm_Main
  imports Arm_Machine Arm_Boot Kvm_Slots Vm_Main
begin

text \<open>
  \<open>main\<close> of \<open>src/src/main.rs\<close> on aarch64: the stages of \<open>Vm_Main\<close> with the functions they call there,
  composed over one state of machine and vcpu.
\<close>

section \<open>Stages\<close>

text \<open>What the host answers, as in \<open>X86_Main\<close>.\<close>

record arm_host =
  ah_kvm :: bool
  ah_run_size :: int
  ah_vm :: int
  ah_vcpu :: int
  ah_run_map :: "u64 option"
  ah_vcpu_init :: bool
  ah_gic :: bool
  ah_gic_dist :: bool
  ah_gic_cpu :: bool
  ah_boot :: arm_boot_env
  ah_linux :: "u8 list res"
  ah_metadata :: bool
  ah_dtb :: "u8 list res"
  ah_initramfs :: "u8 list res"
  ah_binary :: "u8 list res"
  ah_disk :: "u8 list res"
  ah_machine :: arm_machine_env
  ah_bound :: "unit res"

type_synonym arm_world = "arm_machine \<times> arm_vcpu"

text \<open>\<open>arch_pre_vcpu_init\<close> does nothing on aarch64.\<close>

definition arm_pre_vcpu_init :: "unit res" where
  "arm_pre_vcpu_init = Inr ()"

definition arm_stage :: "arm_host \<Rightarrow> (arm_world, unit) oper \<Rightarrow> args \<Rightarrow> arm_world stage_ops" where
  "arm_stage H run args st = (\<lambda>(mc, v).
     case st of
       NewKvm \<Rightarrow> (try_res (kvm_dev_new (ah_kvm H) (ah_run_size H)) (\<lambda>_. Inr ()), mc, v)
     | CreateVm \<Rightarrow> (try_res (create_vm (ah_vm H)) (\<lambda>_. Inr ()), arm_machine_new (am_ram mc), v)
     | PreVcpuInit \<Rightarrow> (arm_pre_vcpu_init, mc, v)
     | CreateVcpu \<Rightarrow> (try_res (create_vcpu (ah_vcpu H) (ah_run_map H)) (\<lambda>_. Inr ()), mc, v)
     | ArchInit \<Rightarrow> (arm_arch_init (ah_vcpu_init H) (ah_gic H) (ah_gic_dist H) (ah_gic_cpu H), mc, v)
     | SetIp \<Rightarrow> (case arm_set_ip (ab_base (ah_boot H)) (ab_vcpu (ah_boot H)) (ar_load_addr args) v of (r, v) \<Rightarrow> (r, mc, v))
     | LoadLinux \<Rightarrow>
         (case arm_load_linux (ah_boot H) (ar_memory args) (map_option (\<lambda>_. ah_linux H) (ar_linux args)) (ah_metadata H)
                 (map_option (\<lambda>_. ah_dtb H) (ar_dtb args)) (map_option (\<lambda>_. ah_initramfs H) (ar_initramfs args))
                 (am_mem mc, am_ram mc, v) of
            (r, vm, m, v) \<Rightarrow> (r, mc\<lparr>am_mem := vm, am_ram := m\<rparr>, v))
     | LoadBinary \<Rightarrow>
         (case load_binary (ab_region (ah_boot H)) (ab_mapped (ah_boot H)) (ah_binary H) args (am_mem mc, am_ram mc) of
            (r, vm, m) \<Rightarrow> (r, mc\<lparr>am_mem := vm, am_ram := m\<rparr>, v))
     | InitMmioDevices \<Rightarrow>
         (case arm_init_mmio_devices (ah_machine H) (map_option (\<lambda>_. ah_disk H) (ar_disk args)) mc of (r, mc) \<Rightarrow> (r, mc, v))
     | InitIoDevices \<Rightarrow> (case arm_init_io_devices mc of (r, mc) \<Rightarrow> (r, mc, v))
     | StartRfb \<Rightarrow> (ah_bound H, mc, v)
     | RunVm \<Rightarrow> run (mc, v)
     | RestoreTty \<Rightarrow> (Inr (), mc, v))"

section \<open>What the stages leave\<close>

lemma arm_boot_run_stages:
  assumes "run_stages (arm_stage H run args) (boot_stages args) ((arm_machine_new m, v), []) = (Inr (), (mc, v'), log)"
    and "ar_linux args = Some path"
  shows "\<exists>v1 vm m'. arm_load_linux (ah_boot H) (ar_memory args) (Some (ah_linux H)) (ah_metadata H)
      (map_option (\<lambda>_. ah_dtb H) (ar_dtb args)) (map_option (\<lambda>_. ah_initramfs H) (ar_initramfs args))
      (am_mem (arm_machine_new m), m, v1) = (Inr (), vm, m', v') \<and>
    arm_init_mmio_devices (ah_machine H) (map_option (\<lambda>_. ah_disk H) (ar_disk args))
      ((arm_machine_new m')\<lparr>am_mem := vm\<rparr>) = (Inr (), mc)"
proof -
  let ?ops = "arm_stage H run args"
  have b: "boot_stages args = [NewKvm, CreateVm, PreVcpuInit, CreateVcpu, ArchInit, SetIp, LoadLinux, InitMmioDevices, InitIoDevices] @
      (if ar_vnc args \<noteq> None then [StartRfb] else [])"
    using assms(2) by (simp add: boot_stages_def)
  obtain s1 s2 s3 s4 s5 s6 s7 s8 s9 log9 where
    st: "?ops NewKvm (arm_machine_new m, v) = (Inr (), s1)" "?ops CreateVm s1 = (Inr (), s2)" "?ops PreVcpuInit s2 = (Inr (), s3)"
      "?ops CreateVcpu s3 = (Inr (), s4)" "?ops ArchInit s4 = (Inr (), s5)" "?ops SetIp s5 = (Inr (), s6)"
      "?ops LoadLinux s6 = (Inr (), s7)" "?ops InitMmioDevices s7 = (Inr (), s8)" "?ops InitIoDevices s8 = (Inr (), s9)"
    and rfb: "run_stages ?ops (if ar_vnc args \<noteq> None then [StartRfb] else []) (s9, log9) = (Inr (), (mc, v'), log)"
    using assms(1) unfolding b append_Cons append_Nil run_stages_ok stage_step_ok by blast
  have "s1 = (arm_machine_new m, v)" using st(1) by (simp add: arm_stage_def)
  then have "s2 = (arm_machine_new m, v)" using st(2) by (simp add: arm_stage_def arm_machine_new_def)
  then have "s5 = (arm_machine_new m, v)" using st(3-5) by (auto simp: arm_stage_def)
  then obtain v1 where s6: "s6 = (arm_machine_new m, v1)" using st(6) by (auto simp: arm_stage_def split: prod.splits)
  then obtain vm m' v2 where l: "arm_load_linux (ah_boot H) (ar_memory args) (Some (ah_linux H)) (ah_metadata H)
      (map_option (\<lambda>_. ah_dtb H) (ar_dtb args)) (map_option (\<lambda>_. ah_initramfs H) (ar_initramfs args))
      (am_mem (arm_machine_new m), m, v1) = (Inr (), vm, m', v2)" and s7: "s7 = ((arm_machine_new m')\<lparr>am_mem := vm\<rparr>, v2)"
    using st(7) assms(2) by (auto simp: arm_stage_def arm_machine_new_def split: prod.splits)
  obtain mc1 where i: "arm_init_mmio_devices (ah_machine H) (map_option (\<lambda>_. ah_disk H) (ar_disk args))
      ((arm_machine_new m')\<lparr>am_mem := vm\<rparr>) = (Inr (), mc1)" and s8: "s8 = (mc1, v2)"
    using st(8) s7 by (auto simp: arm_stage_def split: prod.splits)
  have "s9 = (mc1, v2)" using st(9) s8 by (simp add: arm_stage_def arm_init_io_devices_def)
  moreover have "(mc, v') = s9"
    using rfb by (auto simp del: run_stages.simps simp: run_stages_ok stage_step_ok arm_stage_def split: if_splits)
  ultimately show ?thesis using l i by blast
qed

lemma arm_init_mmio_keeps:
  assumes "arm_init_mmio_devices E disk mc = (r, mc')"
  shows "\<exists>bus. mc' = mc\<lparr>am_mmio := bus\<rparr>"
  using assms by (auto simp: arm_init_mmio_devices_def split: prod.splits)

lemma arm_load_kvm_reach:
  assumes "arm_load_linux B memory linux metadata dtb initramfs (vm, m, v) = (Inr (), vm', m', v')"
    and "kvm_reach (ab_region B) vm" and "memory \<noteq> Some 0"
  shows "kvm_reach (ab_region B) vm'"
proof -
  obtain idx where "add_mem_region (ab_region B) (ab_mapped B)
      (unat (case memory of None \<Rightarrow> 0x40000000 | Some s \<Rightarrow> s)) LOAD_ADDR vm = (Inr idx, vm')"
    using assms(1) by (auto simp: arm_load_linux_def res_simps split: sum.splits prod.splits if_splits)
  then show ?thesis
    using assms(3) unat_less_two_power [of "case memory of None \<Rightarrow> 0x40000000 | Some s \<Rightarrow> s"]
    by (intro kvm_reach.region [OF assms(2)]) (auto simp: unat_gt_0 split: option.splits)
qed

text \<open>
  C22. When \<open>main\<close> comes to run the VM for a Linux kernel on aarch64, the machine is whole: the kernel
  is at 4 MiB of a region at \<open>0x40000000\<close> that the guest sees where the VMM loaded it, the device tree
  is at its start when it ends before what is loaded after it, and the initramfs is at 2 MiB, cut by the kernel
  when it is longer than 2 MiB; the devices are on the bus in their initial state with no interrupt
  raised, and the vcpu is at the kernel with \<open>x0\<close> at the device tree and \<open>x1\<close> to \<open>x3\<close> zero.
\<close>

theorem arm_main_boots:
  assumes main: "vm_main (arm_stage H run args) args saved (arm_machine_new m, v) = (r, s', log)" and ran: "RunVm \<in> set log"
    and linux: "ar_linux args = Some path" and mem: "ar_memory args \<noteq> Some 0" and base: "ab_base (ah_boot H) AND 0x7f = 0"
  shows "\<exists>mc v' k d. run (mc, v') = (r, s') \<and> arm_reach (ah_machine H) mc \<and> am_irqs mc = [] \<and>
    kvm_reach (ab_region (ah_boot H)) (am_mem mc) \<and> ah_linux H = Inr k \<and> ah_dtb H = Inr d \<and>
    guest_phys_addr (vm_regions (am_mem mc) ! 0) = 0x40000000 \<and>
    ram_read (am_ram mc) (0, 0x400000) (length k) = k \<and>
    (length d \<le> (if ar_initramfs args = None then 0x400000 else 0x200000) \<longrightarrow> ram_read (am_ram mc) (0, 0) (length d) = d) \<and>
    (\<forall>f. ar_initramfs args \<noteq> None \<and> ah_initramfs H = Inr f \<longrightarrow>
      ram_read (am_ram mc) (0, 0x200000) (min (length f) 0x200000) = take 0x200000 f) \<and>
    av_reg v' (ab_base (ah_boot H)) = 0x40000000 \<and> av_reg v' (ab_base (ah_boot H) OR 64) = 0x40400000 \<and>
    (\<forall>x\<in>{2, 4, 6}. av_reg v' (ab_base (ah_boot H) OR x) = 0)"
proof -
  obtain mc v' where st: "run_stages (arm_stage H run args) (boot_stages args) ((arm_machine_new m, v), []) = (Inr (), (mc, v'), boot_stages args)"
    and run: "stage_step (arm_stage H run args) RunVm (mc, v') = (r, s')"
    using main_restores_terminal [OF main] ran by auto
  obtain v1 vm m' where
    boot: "arm_load_linux (ah_boot H) (ar_memory args) (Some (ah_linux H)) (ah_metadata H)
      (map_option (\<lambda>_. ah_dtb H) (ar_dtb args)) (map_option (\<lambda>_. ah_initramfs H) (ar_initramfs args))
      (am_mem (arm_machine_new m), m, v1) = (Inr (), vm, m', v')"
    and mm: "arm_init_mmio_devices (ah_machine H) (map_option (\<lambda>_. ah_disk H) (ar_disk args))
      ((arm_machine_new m')\<lparr>am_mem := vm\<rparr>) = (Inr (), mc)"
    using arm_boot_run_stages [OF st linux] by blast
  have new: "am_mem (arm_machine_new m) = \<lparr>vm_regions = [], vm_next_slot = 0, vm_calls = []\<rparr>" by (simp add: arm_machine_new_def)
  have mc: "am_mem mc = vm" "am_ram mc = m'" "am_irqs mc = []"
    using arm_init_mmio_keeps [OF mm] by (auto simp: arm_machine_new_def)
  have reach: "kvm_reach (ab_region (ah_boot H)) vm"
    using arm_load_kvm_reach [OF boot _ mem] kvm_reach.new by (simp add: new)
  have dev: "arm_reach (ah_machine H) mc"
    by (rule arm_reach.init [OF mm]) (simp add: arm_init_io_devices_def)
  have "run (mc, v') = (r, s')" using run by (cases "run (mc, v')") (simp add: stage_step_def arm_stage_def)
  then show ?thesis
    using arm_boot_hands_over [OF boot base] reach dev mc(3) unfolding mc [symmetric]
    by (intro exI [of _ mc] exI [of _ v'] exI [of _ "case ah_linux H of Inr k \<Rightarrow> k"] exI [of _ "case ah_dtb H of Inr d \<Rightarrow> d"])
      (auto simp: new)
qed

text \<open>The image and device tree of \<open>Arm_Boot\<close>, on a host that refuses nothing.\<close>

definition arm_wit_host :: arm_host where
  "arm_wit_host = \<lparr>ah_kvm = True, ah_run_size = 0x3000, ah_vm = 4, ah_vcpu = 5, ah_run_map = Some 0x6000, ah_vcpu_init = True,
     ah_gic = True, ah_gic_dist = True, ah_gic_cpu = True, ah_boot = arm_wit_env, ah_linux = Inr (replicate 64 1),
     ah_metadata = True, ah_dtb = Inr [0xd0, 0x0d], ah_initramfs = Inr [], ah_binary = Inr [], ah_disk = Inr [],
     ah_machine = \<lparr>an_mmio = linux_mmio, an_vring = linux_vring, an_blk = linux_blk, an_disk = (\<lambda>_ _. DiskOk), an_spi = 1,
       an_shift = 24, an_irq = (\<lambda>_ _ _. True), an_flush = (\<lambda>_. True)\<rparr>, ah_bound = Inr ()\<rparr>"

definition arm_wit_args :: args where
  "arm_wit_args = \<lparr>ar_binary = None, ar_linux = Some [], ar_memory = None, ar_load_addr = 0, ar_dtb = Some [],
     ar_initramfs = None, ar_disk = None, ar_tap = None, ar_append = None, ar_vnc = None\<rparr>"

lemma arm_wit_run:
  "\<exists>s. run_stages (arm_stage arm_wit_host run arm_wit_args) (boot_stages arm_wit_args) ((arm_machine_new (\<lambda>_ _. 0), v), []) =
    (Inr (), s, boot_stages arm_wit_args)"
proof -
  obtain v1 where v1: "arm_set_ip 0x6030000000100000 (\<lambda>_ _. True) 0 v = (Inr (), v1)"
    by (simp add: arm_set_ip_def set_one_reg_def reg_id_eq reg_names_def then_op_def arm_ioctl_def)
  obtain vm m v2 where boot: "arm_load_linux arm_wit_env None (Some (Inr (replicate 64 1))) True (Some (Inr [0xd0, 0x0d])) None
      (\<lparr>vm_regions = [], vm_next_slot = 0, vm_calls = []\<rparr>, \<lambda>_ _. 0, v1) = (Inr (), vm, m, v2)"
    using arm_wit_boot by blast
  have env: "ab_base arm_wit_env = 0x6030000000100000" "ab_vcpu arm_wit_env = (\<lambda>_ _. True)" by (simp_all add: arm_wit_env_def)
  show ?thesis
    using v1 boot
    by (simp add: boot_stages_def arm_wit_args_def stage_step_def arm_stage_def arm_wit_host_def kvm_dev_new_def unwrap_res_def
        ioctl_result_def create_vm_def create_vcpu_def map_kvm_run_def arm_pre_vcpu_init_def arm_machine_new_def arm_arch_init_def
        arm_vcpu_init_def setup_irq_device_def arm_init_mmio_devices_def init_virtio_blk_def arm_init_io_devices_def env
        split: prod.split)
qed

theorem arm_main_boots_witness:
  "\<forall>v. \<exists>mc v'. arm_reach (ah_machine arm_wit_host) mc \<and> ram_read (am_ram mc) (0, 0) 2 = [0xd0, 0x0d] \<and>
    vm_main (arm_stage arm_wit_host (\<lambda>s. (Inr (), s)) arm_wit_args) arm_wit_args True (arm_machine_new (\<lambda>_ _. 0), v) =
      (Inr (), (mc, v'), boot_stages arm_wit_args @ [RunVm, RestoreTty])"
proof
  fix v
  let ?ops = "arm_stage arm_wit_host (\<lambda>s. (Inr (), s)) arm_wit_args"
  obtain s where s: "run_stages ?ops (boot_stages arm_wit_args) ((arm_machine_new (\<lambda>_ _. 0), v), []) = (Inr (), s, boot_stages arm_wit_args)"
    using arm_wit_run by blast
  have m: "vm_main ?ops arm_wit_args True (arm_machine_new (\<lambda>_ _. 0), v) = (Inr (), s, boot_stages arm_wit_args @ [RunVm, RestoreTty])"
    by (cases s) (simp add: vm_main_def s stage_step_def arm_stage_def)
  have a: "ar_linux arm_wit_args = Some []" "ar_memory arm_wit_args = None" "ar_initramfs arm_wit_args = None"
      "ah_boot arm_wit_host = arm_wit_env" "ah_dtb arm_wit_host = Inr [0xd0, 0x0d]" "ab_base arm_wit_env = 0x6030000000100000"
    by (simp_all add: arm_wit_args_def arm_wit_host_def arm_wit_env_def)
  show "\<exists>mc v'. arm_reach (ah_machine arm_wit_host) mc \<and> ram_read (am_ram mc) (0, 0) 2 = [0xd0, 0x0d] \<and>
    vm_main ?ops arm_wit_args True (arm_machine_new (\<lambda>_ _. 0), v) = (Inr (), (mc, v'), boot_stages arm_wit_args @ [RunVm, RestoreTty])"
    using arm_main_boots [OF m _ a(1)] m by (auto simp: a numeral_2_eq_2)
qed

end
