(* ===== verification/Rfb.thy ===== *)
theory Rfb
  imports Hearth_Prelude
begin

text \<open>
  The RFB ("VNC") server of \<open>src/src/frontend/rfb.rs\<close>: pixel formats, the handshake, the parser
  of the client's messages, and the thread that sends framebuffer updates. A connection is the
  bytes the client will still send with what reading past them gives, and the bytes written; the
  display, the keyboard and the clock are arguments.
\<close>

section \<open>Pixel formats\<close>

text \<open>\<open>max\<close> and \<open>shift\<close> are arrays of three.\<close>

record pixel_format =
  bits_per_pixel :: u8
  depth :: u8
  big_endian :: bool
  true_colour :: bool
  pf_max :: "u16 list"
  pf_shift :: "u8 list"

definition pf_default :: pixel_format where
  "pf_default = \<lparr>bits_per_pixel = 32, depth = 24, big_endian = False, true_colour = True,
     pf_max = [255, 255, 255], pf_shift = [16, 8, 0]\<rparr>"

definition pf_from_bytes :: "u8 list \<Rightarrow> pixel_format" where
  "pf_from_bytes b =
     \<lparr>bits_per_pixel = b ! 0, depth = b ! 1, big_endian = b ! 2 \<noteq> 0, true_colour = b ! 3 \<noteq> 0,
      pf_max = [from_be16 [b ! 4, b ! 5], from_be16 [b ! 6, b ! 7], from_be16 [b ! 8, b ! 9]],
      pf_shift = [b ! 10, b ! 11, b ! 12]\<rparr>"

definition pf_to_bytes :: "pixel_format \<Rightarrow> u8 list" where
  "pf_to_bytes f =
     [bits_per_pixel f, depth f, of_bool (big_endian f), of_bool (true_colour f)] @
     concat (map to_be16 (pf_max f)) @ pf_shift f @ [0, 0, 0]"

definition bytes_per_pixel :: "pixel_format \<Rightarrow> nat" where
  "bytes_per_pixel f = unat (bits_per_pixel f) div 8"

definition pf_supported :: "pixel_format \<Rightarrow> bool" where
  "pf_supported f \<longleftrightarrow> true_colour f \<and> bits_per_pixel f \<in> {8, 16, 32}"

text \<open>A shift by the width of the type or more panics.\<close>

definition shl_ov :: "u32 \<Rightarrow> u8 \<Rightarrow> u32 res" where
  "shl_ov x n = (if unat n < 32 then Inr (push_bit (unat n) x) else Inl (Panicked ArithOverflow))"

fun encode_components :: "(u32 \<times> u16 \<times> u8) list \<Rightarrow> u32 \<Rightarrow> u32 res" where
  "encode_components [] value = Inr value"
| "encode_components ((component, mx, shift) # rest) value =
     try_res (mul_ov component (ucast mx)) (\<lambda>x. try_res (shl_ov (x div 255) shift) (\<lambda>y.
       encode_components rest (value OR y)))"

definition pf_encode :: "pixel_format \<Rightarrow> u32 \<Rightarrow> u8 list res" where
  "pf_encode f rgb =
     try_res (encode_components (zip [drop_bit 16 rgb AND 0xff, drop_bit 8 rgb AND 0xff, rgb AND 0xff]
       (zip (pf_max f) (pf_shift f))) 0)
       (\<lambda>value. let bytes = to_le32 value; n = bytes_per_pixel f in
          if 4 < n then Inl (Panicked IndexOutOfBounds)
          else Inr (if big_endian f then rev (take n bytes) else take n bytes))"

section \<open>The connection\<close>

record rfb_stream =
  rs_in :: "u8 list"
  rs_out :: "u8 list"

text \<open>
  \<open>re_end\<close> is the error of a read past the bytes the client sends: \<open>UnexpectedEof\<close> when it closes
  the connection, another one when the connection breaks. \<open>re_writes out bs\<close> tells whether writing
  \<open>bs\<close> after \<open>out\<close> succeeds.
\<close>

record rfb_env =
  re_end :: io_kind
  re_writes :: "u8 list \<Rightarrow> u8 list \<Rightarrow> bool"

definition stream_read_exact :: "rfb_env \<Rightarrow> nat \<Rightarrow> (rfb_stream, u8 list) oper" where
  "stream_read_exact env n s =
     (if n \<le> length (rs_in s) then (Inr (take n (rs_in s)), s\<lparr>rs_in := drop n (rs_in s)\<rparr>)
      else (Inl (IoError (re_end env)), s\<lparr>rs_in := []\<rparr>))"

definition stream_write_all :: "rfb_env \<Rightarrow> u8 list \<Rightarrow> (rfb_stream, unit) oper" where
  "stream_write_all env bs s =
     (if re_writes env (rs_out s) bs then (Inr (), s\<lparr>rs_out := rs_out s @ bs\<rparr>) else (Inl (IoError OsError), s))"

text \<open>
  \<open>io::copy\<close> of at most \<open>n\<close> bytes to a sink: the end of the stream is no error, a broken
  connection is.
\<close>

definition stream_skip :: "rfb_env \<Rightarrow> nat \<Rightarrow> (rfb_stream, unit) oper" where
  "stream_skip env n s =
     (if n \<le> length (rs_in s) \<or> re_end env = UnexpectedEof then (Inr (), s\<lparr>rs_in := drop n (rs_in s)\<rparr>)
      else (Inl (IoError (re_end env)), s\<lparr>rs_in := []\<rparr>))"

section \<open>The handshake\<close>

abbreviation (input) SECURITY_NONE :: u8 where "SECURITY_NONE \<equiv> 1"

text \<open>\<open>RFB 003.008\<close> and a newline, with the last digit left open.\<close>

definition rfb_prefix :: "u8 list" where
  "rfb_prefix = [0x52, 0x46, 0x42, 0x20, 0x30, 0x30, 0x33, 0x2e]"

definition rfb_version :: "u8 \<Rightarrow> u8 list" where
  "rfb_version digit = rfb_prefix @ [0x30, 0x30, digit, 0x0a]"

definition rfb_minor :: "u8 list \<Rightarrow> nat option" where
  "rfb_minor version =
     (if version = rfb_version 0x33 then Some 3
      else if version = rfb_version 0x37 then Some 7
      else if take 8 version = rfb_prefix then Some 8
      else None)"

definition handshake :: "rfb_env \<Rightarrow> (rfb_stream, unit) oper" where
  "handshake env =
     then_op (stream_write_all env (rfb_version 0x38)) (\<lambda>_.
     then_op (stream_read_exact env 12) (\<lambda>version.
       case rfb_minor version of
         None \<Rightarrow> (\<lambda>s. (Inl (IoError InvalidData), s))
       | Some minor \<Rightarrow>
           (if minor = 3 then stream_write_all env (to_be32 (ucast SECURITY_NONE))
            else then_op (stream_write_all env [1, SECURITY_NONE]) (\<lambda>_.
                 then_op (stream_read_exact env 1) (\<lambda>chosen.
                   if chosen ! 0 \<noteq> SECURITY_NONE then (\<lambda>s. (Inl (IoError InvalidData), s))
                   else if minor = 8 then stream_write_all env (to_be32 0)
                   else (\<lambda>s. (Inr (), s)))))))"

section \<open>The client's messages\<close>

abbreviation (input) MSG_SET_PIXEL_FORMAT :: u8 where "MSG_SET_PIXEL_FORMAT \<equiv> 0"
abbreviation (input) MSG_SET_ENCODINGS :: u8 where "MSG_SET_ENCODINGS \<equiv> 2"
abbreviation (input) MSG_FRAMEBUFFER_UPDATE_REQUEST :: u8 where "MSG_FRAMEBUFFER_UPDATE_REQUEST \<equiv> 3"
abbreviation (input) MSG_KEY_EVENT :: u8 where "MSG_KEY_EVENT \<equiv> 4"
abbreviation (input) MSG_POINTER_EVENT :: u8 where "MSG_POINTER_EVENT \<equiv> 5"
abbreviation (input) MSG_CLIENT_CUT_TEXT :: u8 where "MSG_CLIENT_CUT_TEXT \<equiv> 6"

datatype request = ReqPixelFormat pixel_format | ReqUpdate bool

text \<open>
  What \<open>read_messages\<close> works on: the connection, the keyboard, and the requests put on the channel.
\<close>

record 'k rfb_reader =
  rr_stream :: rfb_stream
  rr_keyboard :: 'k
  rr_sent :: "request list"

type_synonym 'k key_handler = "bool \<Rightarrow> u32 \<Rightarrow> ('k, unit) oper"

definition on_stream :: "(rfb_stream, 'a) oper \<Rightarrow> ('k rfb_reader, 'a) oper" where
  "on_stream f r = (case f (rr_stream r) of (x, s) \<Rightarrow> (x, r\<lparr>rr_stream := s\<rparr>))"

definition on_keyboard :: "('k, 'a) oper \<Rightarrow> ('k rfb_reader, 'a) oper" where
  "on_keyboard f r = (case f (rr_keyboard r) of (x, k) \<Rightarrow> (x, r\<lparr>rr_keyboard := k\<rparr>))"

text \<open>The body of the match, once the kind of the message is read.\<close>

definition read_body :: "rfb_env \<Rightarrow> 'k key_handler option \<Rightarrow> u8 \<Rightarrow> ('k rfb_reader, request option) oper" where
  "read_body env keys kind =
     (if kind = MSG_SET_PIXEL_FORMAT then
        then_op (on_stream (stream_read_exact env 19)) (\<lambda>b.
          let format = pf_from_bytes (drop 3 b)
          in if \<not> pf_supported format then (\<lambda>r. (Inl (IoError InvalidData), r))
             else (\<lambda>r. (Inr (Some (ReqPixelFormat format)), r)))
      else if kind = MSG_SET_ENCODINGS then
        then_op (on_stream (stream_read_exact env 3)) (\<lambda>b.
        then_op (on_stream (stream_read_exact env (4 * unat (from_be16 [b ! 1, b ! 2])))) (\<lambda>_ r. (Inr None, r)))
      else if kind = MSG_FRAMEBUFFER_UPDATE_REQUEST then
        then_op (on_stream (stream_read_exact env 9)) (\<lambda>b r. (Inr (Some (ReqUpdate (b ! 0 \<noteq> 0))), r))
      else if kind = MSG_KEY_EVENT then
        then_op (on_stream (stream_read_exact env 7)) (\<lambda>b.
          case keys of
            None \<Rightarrow> (\<lambda>r. (Inr None, r))
          | Some key_event \<Rightarrow>
              then_op (on_keyboard (key_event (b ! 0 \<noteq> 0) (from_be32 [b ! 3, b ! 4, b ! 5, b ! 6])))
                (\<lambda>_ r. (Inr None, r)))
      else if kind = MSG_POINTER_EVENT then
        then_op (on_stream (stream_read_exact env 5)) (\<lambda>_ r. (Inr None, r))
      else if kind = MSG_CLIENT_CUT_TEXT then
        then_op (on_stream (stream_read_exact env 7)) (\<lambda>b.
        then_op (on_stream (stream_skip env (unat (from_be32 [b ! 3, b ! 4, b ! 5, b ! 6])))) (\<lambda>_ r. (Inr None, r)))
      else (\<lambda>r. (Inl (IoError InvalidData), r)))"

definition read_message :: "rfb_env \<Rightarrow> 'k key_handler option \<Rightarrow> ('k rfb_reader, request option) oper" where
  "read_message env keys =
     then_op (on_stream (stream_read_exact env 1)) (\<lambda>kind. read_body env keys (kind ! 0))"

lemma stream_read_exact_shrinks: "length (rs_in (snd (stream_read_exact env n s))) \<le> length (rs_in s) - n"
  by (simp add: stream_read_exact_def)

lemma stream_skip_shrinks: "length (rs_in (snd (stream_skip env n s))) \<le> length (rs_in s)"
  by (simp add: stream_skip_def)

definition rr_left :: "'k rfb_reader \<Rightarrow> nat" where
  "rr_left r = length (rs_in (rr_stream r))"

lemma on_stream_left: "rr_left (snd (on_stream f r)) = length (rs_in (snd (f (rr_stream r))))"
  by (simp add: on_stream_def rr_left_def split: prod.splits)

lemma on_keyboard_left: "rr_left (snd (on_keyboard f r)) = rr_left r"
  by (simp add: on_keyboard_def rr_left_def split: prod.splits)

lemma then_op_left:
  assumes "rr_left (snd (f r)) \<le> rr_left r" and "\<And>x r. rr_left (snd (g x r)) \<le> rr_left r"
  shows "rr_left (snd (then_op f g r)) \<le> rr_left r"
proof (cases "f r")
  case (Pair x r')
  then have "rr_left r' \<le> rr_left r" using assms(1) by simp
  then show ?thesis using Pair assms(2) [of _ r'] le_trans by (cases x) (fastforce simp: then_op_def)+
qed

lemma on_stream_read_left: "rr_left (snd (on_stream (stream_read_exact env n) r)) \<le> rr_left r"
  using stream_read_exact_shrinks [of env n "rr_stream r"] by (simp add: on_stream_left) (simp add: rr_left_def)

lemma on_stream_skip_left: "rr_left (snd (on_stream (stream_skip env n) r)) \<le> rr_left r"
  using stream_skip_shrinks [of env n "rr_stream r"] by (simp add: on_stream_left) (simp add: rr_left_def)

lemma read_body_left: "rr_left (snd (read_body env keys kind r)) \<le> rr_left r"
  unfolding read_body_def Let_def
  by (auto intro!: then_op_left on_stream_read_left on_stream_skip_left
      simp: on_keyboard_left split: option.splits)

lemma read_message_left:
  assumes "read_message env keys r = (Inr q, r')"
  shows "rr_left r' < rr_left r"
proof -
  obtain kind r1 where r1: "on_stream (stream_read_exact env 1) r = (Inr kind, r1)"
    and "read_body env keys (kind ! 0) r1 = (Inr q, r')"
    using assms by (auto simp: read_message_def res_simps)
  then have "rr_left r' \<le> rr_left r1" using read_body_left [of env keys "kind ! 0" r1] by simp
  moreover have "rr_left r1 < rr_left r"
    using r1 by (auto simp: on_stream_def stream_read_exact_def rr_left_def split: prod.splits if_splits)
  ultimately show ?thesis by simp
qed

text \<open>
  The loop. \<open>alive\<close> tells whether the update thread still receives after the requests sent before;
  a message takes at least one byte, so the loop ends with the client's bytes.
\<close>

function read_messages ::
    "rfb_env \<Rightarrow> 'k key_handler option \<Rightarrow> (request list \<Rightarrow> bool) \<Rightarrow> ('k rfb_reader, unit) oper" where
  "read_messages env keys alive r =
     (case read_message env keys r of
        (Inl e, r') \<Rightarrow> (Inl e, r')
      | (Inr None, r') \<Rightarrow> read_messages env keys alive r'
      | (Inr (Some q), r') \<Rightarrow>
          if alive (rr_sent r') then read_messages env keys alive (r'\<lparr>rr_sent := rr_sent r' @ [q]\<rparr>)
          else (Inr (), r'))"
  by auto
termination
proof (relation "measure (\<lambda>(env, keys, alive, r). rr_left r)", goal_cases)
  case (2 env keys alive r p r')
  then have "read_message env keys r = (Inr None, r')" by (cases "read_message env keys r") auto
  from read_message_left [OF this] show ?case by simp
next
  case (3 env keys alive r p r')
  then obtain q where "read_message env keys r = (Inr (Some q), r')" by (cases "read_message env keys r") auto
  from read_message_left [OF this] show ?case by (simp add: rr_left_def)
qed simp

declare read_messages.simps [simp del]

section \<open>A connection\<close>

text \<open>The bytes of \<open>Hearth\<close>.\<close>

definition DESKTOP_NAME :: "u8 list" where
  "DESKTOP_NAME = [0x48, 0x65, 0x61, 0x72, 0x74, 0x68]"

definition server_init :: "u16 \<Rightarrow> u16 \<Rightarrow> u8 list" where
  "server_init width height =
     to_be16 width @ to_be16 height @ pf_to_bytes pf_default @
     to_be32 (word_of_nat (length DESKTOP_NAME)) @ DESKTOP_NAME"

definition rfb_setup :: "rfb_env \<Rightarrow> u16 \<times> u16 \<Rightarrow> (rfb_stream, unit) oper" where
  "rfb_setup env dim =
     then_op (handshake env) (\<lambda>_.
     then_op (stream_read_exact env 1) (\<lambda>_.
     stream_write_all env (server_init (fst dim) (snd dim))))"

text \<open>
  \<open>nodelay\<close> and \<open>cloned\<close> are the outcomes of \<open>set_nodelay\<close> and \<open>try_clone\<close>. The update thread runs
  from here on; what it does to the connection is modelled below.
\<close>

definition serve ::
    "rfb_env \<Rightarrow> bool \<Rightarrow> bool \<Rightarrow> u16 \<times> u16 \<Rightarrow> 'k key_handler option \<Rightarrow> (request list \<Rightarrow> bool) \<Rightarrow> ('k rfb_reader, unit) oper" where
  "serve env nodelay cloned dim keys alive r =
     (if \<not> nodelay then (Inl (IoError OsError), r)
      else then_op (on_stream (rfb_setup env dim)) (\<lambda>_ r.
        if \<not> cloned then (Inl (IoError OsError), r)
        else case read_messages env keys alive r of
               (Inl (IoError UnexpectedEof), r') \<Rightarrow> (Inr (), r')
             | res \<Rightarrow> res) r)"

section \<open>Framebuffer updates\<close>

text \<open>Nanoseconds.\<close>

abbreviation (input) UPDATE_INTERVAL :: nat where "UPDATE_INTERVAL \<equiv> 16000000"

text \<open>
  The thread's state: its variables, the display and the messages written. A render that panics is
  \<open>Inl\<close>, one that never returns \<open>None\<close>.
\<close>

type_synonym ('e, 'd) renderer =
  "'e \<Rightarrow> u32 list \<Rightarrow> nat \<Rightarrow> 'd \<Rightarrow> (((nat \<times> nat) option \<times> u32 list \<times> nat) res \<times> 'd) option"

record 'd updater =
  ud_format :: pixel_format
  ud_frame :: "u32 list"
  ud_seen :: nat
  ud_pending :: bool
  ud_next :: nat
  ud_display :: 'd
  ud_written :: "u8 list list"

definition updater_new :: "u16 \<Rightarrow> u16 \<Rightarrow> nat \<Rightarrow> 'd \<Rightarrow> 'd updater" where
  "updater_new width height now display =
     \<lparr>ud_format = pf_default, ud_frame = replicate (unat width * unat height) 0, ud_seen = 0, ud_pending = False,
      ud_next = now, ud_display = display, ud_written = []\<rparr>"

datatype received = Received request | TimedOut | Disconnected

definition update_wait :: "nat \<Rightarrow> 'd updater \<Rightarrow> nat" where
  "update_wait now st = (if ud_pending st then ud_next st - now else UPDATE_INTERVAL)"

fun encode_pixels :: "pixel_format \<Rightarrow> u32 list \<Rightarrow> u8 list res" where
  "encode_pixels f [] = Inr []"
| "encode_pixels f (p # ps) =
     try_res (pf_encode f p) (\<lambda>bs. try_res (encode_pixels f ps) (\<lambda>rest. Inr (bs @ rest)))"

definition update_header :: "u16 \<Rightarrow> nat \<times> nat \<Rightarrow> u8 list" where
  "update_header width rows =
     [0, 0] @ to_be16 1 @ to_be16 0 @ to_be16 (word_of_nat (fst rows)) @ to_be16 width @
     to_be16 (word_of_nat (snd rows - fst rows)) @ to_be32 0"

definition update_message :: "pixel_format \<Rightarrow> u16 \<Rightarrow> u32 list \<Rightarrow> nat \<times> nat \<Rightarrow> u8 list res" where
  "update_message f width frame rows =
     (let w = unat width
      in if snd rows < fst rows then Inl (Panicked ArithOverflow)
         else if length frame < snd rows * w then Inl (Panicked IndexOutOfBounds)
         else try_res (encode_pixels f (take (snd rows * w - fst rows * w) (drop (fst rows * w) frame)))
                (\<lambda>pixels. Inr (update_header width rows @ pixels)))"

text \<open>
  A thread with a request pending that waited its time out is not before the next render; one that
  rendered does not render again within the interval.
\<close>

lemma update_wait_enough:
  "ud_pending st \<Longrightarrow> now + update_wait now st \<le> now' \<Longrightarrow> \<not> now' < ud_next st"
  by (simp add: update_wait_def)

text \<open>
  One turn of the loop after \<open>recv_timeout\<close>: the outcome is \<open>None\<close> when the loop goes on. \<open>now\<close> and
  \<open>now'\<close> are the two readings of the clock, \<open>ok\<close> whether the write succeeds.
\<close>

definition update_turn ::
    "('e, 'd) renderer \<Rightarrow> u16 \<Rightarrow> nat \<Rightarrow> nat \<Rightarrow> bool \<Rightarrow> 'e \<Rightarrow> 'd updater \<Rightarrow> (unit res option \<times> 'd updater) option" where
  "update_turn render width now now' ok e st =
     (if \<not> ud_pending st \<or> now < ud_next st then Some (None, st)
      else (let st = st\<lparr>ud_next := now' + UPDATE_INTERVAL\<rparr>
            in case render e (ud_frame st) (ud_seen st) (ud_display st) of
                 None \<Rightarrow> None
               | Some (Inl err, d) \<Rightarrow> Some (Some (Inl err), st\<lparr>ud_display := d\<rparr>)
               | Some (Inr (None, frame, seen), d) \<Rightarrow>
                   Some (None, st\<lparr>ud_display := d, ud_frame := frame, ud_seen := seen\<rparr>)
               | Some (Inr (Some rows, frame, seen), d) \<Rightarrow>
                   (let st = st\<lparr>ud_display := d, ud_frame := frame, ud_seen := seen\<rparr>
                    in case update_message (ud_format st) width frame rows of
                         Inl err \<Rightarrow> Some (Some (Inl err), st)
                       | Inr msg \<Rightarrow>
                           if ok then Some (None, st\<lparr>ud_written := ud_written st @ [msg], ud_pending := False\<rparr>)
                           else Some (Some (Inl (IoError OsError)), st))))"

definition update_step ::
    "('e, 'd) renderer \<Rightarrow> u16 \<Rightarrow> received \<Rightarrow> nat \<Rightarrow> nat \<Rightarrow> bool \<Rightarrow> 'e \<Rightarrow> 'd updater \<Rightarrow> (unit res option \<times> 'd updater) option" where
  "update_step render width rx now now' ok e st =
     (case rx of
        Received (ReqPixelFormat f) \<Rightarrow> Some (None, st\<lparr>ud_format := f, ud_seen := 0\<rparr>)
      | Received (ReqUpdate incremental) \<Rightarrow>
          update_turn render width now now' ok e
            (st\<lparr>ud_pending := True, ud_seen := if incremental then ud_seen st else 0\<rparr>)
      | TimedOut \<Rightarrow> update_turn render width now now' ok e st
      | Disconnected \<Rightarrow> Some (Some (Inr ()), st))"

text \<open>
  One pass of the loop: what \<open>recv_timeout\<close> returned, the two readings of the clock, whether the
  write succeeds, what the render reads, and what the guest did to the display before it.
\<close>

record ('e, 'd) pass =
  ps_received :: received
  ps_now :: nat
  ps_now' :: nat
  ps_write_ok :: bool
  ps_env :: 'e
  ps_guest :: "'d \<Rightarrow> 'd"

text \<open>
  The passes the thread makes, up to the one that ends it, with the times of the renders whose
  updates were written. The outcome is \<open>None\<close> while the thread still runs.
\<close>

fun update_passes ::
    "('e, 'd) renderer \<Rightarrow> u16 \<Rightarrow> ('e, 'd) pass list \<Rightarrow> 'd updater \<Rightarrow> (unit res option \<times> nat list \<times> 'd updater) option" where
  "update_passes render width [] st = Some (None, [], st)"
| "update_passes render width (p # ps) st =
     (case update_step render width (ps_received p) (ps_now p) (ps_now' p) (ps_write_ok p) (ps_env p)
             (st\<lparr>ud_display := ps_guest p (ud_display st)\<rparr>) of
        None \<Rightarrow> None
      | Some (Some r, st') \<Rightarrow> Some (Some r, [], st')
      | Some (None, st') \<Rightarrow>
          map_option (\<lambda>(r, ts, st''). (r, (if ud_written st' = ud_written st then ts else ps_now' p # ts), st''))
            (update_passes render width ps st'))"

definition send_updates ::
    "('e, 'd) renderer \<Rightarrow> u16 \<Rightarrow> u16 \<Rightarrow> nat \<Rightarrow> 'd \<Rightarrow> ('e, 'd) pass list \<Rightarrow> (unit res option \<times> nat list \<times> 'd updater) option" where
  "send_updates render width height now display ps =
     update_passes render width ps (updater_new width height now display)"

text \<open>The display of a VM without one.\<close>

definition no_display_render :: "(unit, unit) renderer" where
  "no_display_render e out seen d =
     Some (Inr (if seen \<noteq> 0 then (None, out, seen) else (Some (0, 200), replicate (length out) 0, 1)), d)"

section \<open>What a client sends\<close>

datatype client_msg =
    CSetFormat pixel_format
  | CSetEncodings "u32 list"
  | CUpdateRequest bool "u8 list"
  | CKey bool u32
  | CPointer "u8 list"
  | CCutText "u8 list"

text \<open>Their bytes, as RFC 6143 lays them out; padding is zero.\<close>

fun msg_bytes :: "client_msg \<Rightarrow> u8 list" where
  "msg_bytes (CSetFormat f) = [0, 0, 0, 0] @ pf_to_bytes f"
| "msg_bytes (CSetEncodings es) = [2, 0] @ to_be16 (word_of_nat (length es)) @ concat (map to_be32 es)"
| "msg_bytes (CUpdateRequest incremental rect) = [3, of_bool incremental] @ rect"
| "msg_bytes (CKey down keysym) = [4, of_bool down, 0, 0] @ to_be32 keysym"
| "msg_bytes (CPointer state) = 5 # state"
| "msg_bytes (CCutText clip) = [6, 0, 0, 0] @ to_be32 (word_of_nat (length clip)) @ clip"

definition pf_wf :: "pixel_format \<Rightarrow> bool" where
  "pf_wf f \<longleftrightarrow> length (pf_max f) = 3 \<and> length (pf_shift f) = 3"

fun msg_ok :: "client_msg \<Rightarrow> bool" where
  "msg_ok (CSetFormat f) = (pf_wf f \<and> pf_supported f)"
| "msg_ok (CSetEncodings es) = (length es < 2 ^ 16)"
| "msg_ok (CUpdateRequest _ rect) = (length rect = 8)"
| "msg_ok (CKey _ _) = True"
| "msg_ok (CPointer state) = (length state = 5)"
| "msg_ok (CCutText clip) = (length clip < 2 ^ 32)"

fun msg_request :: "client_msg \<Rightarrow> request list" where
  "msg_request (CSetFormat f) = [ReqPixelFormat f]"
| "msg_request (CUpdateRequest incremental _) = [ReqUpdate incremental]"
| "msg_request _ = []"

fun msg_press :: "'k key_handler \<Rightarrow> client_msg \<Rightarrow> 'k \<Rightarrow> 'k" where
  "msg_press keys (CKey down keysym) k = snd (keys down keysym k)"
| "msg_press keys _ k = k"

lemma short_lists:
  "length xs = 2 \<Longrightarrow> \<exists>a b. xs = [a, b]" "length xs = 3 \<Longrightarrow> \<exists>a b c. xs = [a, b, c]"
  "length xs = 4 \<Longrightarrow> \<exists>a b c d. xs = [a, b, c, d]"
  by (auto simp: numeral_eq_Suc length_Suc_conv)

lemma to_be16_pair: "\<exists>a b. to_be16 w = [a, b]"
  by (rule short_lists(1)) simp

lemma to_be32_list: "\<exists>a b c d. to_be32 w = [a, b, c, d]"
  by (rule short_lists(3)) simp

lemma length_encodings: "length (concat (map to_be32 es)) = 4 * length es"
  by (induction es) simp_all

lemma pf_bytes_roundtrip:
  assumes "pf_wf f"
  shows "pf_from_bytes (pf_to_bytes f) = f" and "length (pf_to_bytes f) = 16"
proof -
  obtain a b c p q r where m: "pf_max f = [a, b, c]" and sh: "pf_shift f = [p, q, r]"
    using assms short_lists(2) unfolding pf_wf_def by metis
  obtain a1 a2 b1 b2 c1 c2 where l: "to_be16 a = [a1, a2]" "to_be16 b = [b1, b2]" "to_be16 c = [c1, c2]"
    using to_be16_pair by metis
  have "from_be16 [a1, a2] = a" "from_be16 [b1, b2] = b" "from_be16 [c1, c2] = c"
    using l by (metis from_to_le(4))+
  then show "pf_from_bytes (pf_to_bytes f) = f" "length (pf_to_bytes f) = 16"
    using m sh l by (simp_all add: pf_from_bytes_def pf_to_bytes_def)
qed

section \<open>Parsing\<close>

definition rr_feed :: "u8 list \<Rightarrow> 'k rfb_reader \<Rightarrow> 'k rfb_reader" where
  "rr_feed bs r = r\<lparr>rr_stream := (rr_stream r)\<lparr>rs_in := bs\<rparr>\<rparr>"

lemma read_fed:
  "length bs = n \<Longrightarrow> on_stream (stream_read_exact env n) (rr_feed (bs @ rest) r) = (Inr bs, rr_feed rest r)"
  by (simp add: on_stream_def stream_read_exact_def rr_feed_def)

lemma skip_fed:
  "length bs = n \<Longrightarrow> on_stream (stream_skip env n) (rr_feed (bs @ rest) r) = (Inr (), rr_feed rest r)"
  by (simp add: on_stream_def stream_skip_def rr_feed_def)

lemma read_kind: "read_message env keys (rr_feed (k # rest) r) = read_body env keys k (rr_feed rest r)"
  using read_fed [of "[k]" 1 env rest r] by (simp add: read_message_def)

lemma read_message_fed:
  assumes ok: "msg_ok msg" and keys: "\<And>d s k. fst (keys d s k) = Inr ()"
  shows "\<exists>q. read_message env (Some keys) (rr_feed (msg_bytes msg @ rest) r) =
      (Inr q, rr_feed rest (r\<lparr>rr_keyboard := msg_press keys msg (rr_keyboard r)\<rparr>)) \<and>
    msg_request msg = (case q of None \<Rightarrow> [] | Some x \<Rightarrow> [x])"
proof (cases msg)
  case (CSetFormat f)
  then have f: "pf_wf f" "pf_supported f" using ok by simp_all
  have "on_stream (stream_read_exact env 19) (rr_feed (([0, 0, 0] @ pf_to_bytes f) @ rest) r) =
      (Inr ([0, 0, 0] @ pf_to_bytes f), rr_feed rest r)"
    by (rule read_fed) (simp add: pf_bytes_roundtrip(2) [OF f(1)])
  then show ?thesis using CSetFormat f pf_bytes_roundtrip(1) [OF f(1)]
    by (simp add: read_kind read_body_def Let_def)
next
  case (CSetEncodings es)
  then have l: "length es < 2 ^ 16" using ok by simp
  obtain a b where ab: "to_be16 (word_of_nat (length es)) = [a, b]" using to_be16_pair by metis
  have "from_be16 [a, b] = word_of_nat (length es)" using ab by (metis from_to_le(4))
  then have n: "4 * unat (from_be16 [a, b]) = length (concat (map to_be32 es))"
    using l by (simp add: unsigned_of_nat take_bit_nat_eq_self length_encodings)
  have "on_stream (stream_read_exact env 3) (rr_feed ([0, a, b] @ concat (map to_be32 es) @ rest) r) =
      (Inr [0, a, b], rr_feed (concat (map to_be32 es) @ rest) r)"
    by (rule read_fed) simp
  moreover have "on_stream (stream_read_exact env (4 * unat (from_be16 [a, b]))) (rr_feed (concat (map to_be32 es) @ rest) r) =
      (Inr (concat (map to_be32 es)), rr_feed rest r)"
    by (rule read_fed) (simp only: n)
  ultimately show ?thesis using CSetEncodings ab by (simp add: read_kind read_body_def)
next
  case (CUpdateRequest inc rect)
  then have "on_stream (stream_read_exact env 9) (rr_feed ((of_bool inc # rect) @ rest) r) =
      (Inr (of_bool inc # rect), rr_feed rest r)"
    using ok by (intro read_fed) simp
  then show ?thesis using CUpdateRequest by (simp add: read_kind read_body_def)
next
  case (CKey down keysym)
  obtain a b c d where l: "to_be32 keysym = [a, b, c, d]" using to_be32_list by metis
  have "from_be32 [a, b, c, d] = keysym" using l by (metis from_to_le(5))
  moreover have "on_stream (stream_read_exact env 7) (rr_feed ([of_bool down, 0, 0, a, b, c, d] @ rest) r) =
      (Inr [of_bool down, 0, 0, a, b, c, d], rr_feed rest r)"
    by (rule read_fed) simp
  moreover have "on_keyboard (keys down keysym) (rr_feed rest r) =
      (Inr (), rr_feed rest (r\<lparr>rr_keyboard := snd (keys down keysym (rr_keyboard r))\<rparr>))"
    using keys [of down keysym "rr_keyboard r"]
    by (cases "keys down keysym (rr_keyboard r)") (simp add: on_keyboard_def rr_feed_def)
  ultimately show ?thesis using CKey l by (simp add: read_kind read_body_def)
next
  case (CPointer st)
  then have "on_stream (stream_read_exact env 5) (rr_feed (st @ rest) r) = (Inr st, rr_feed rest r)"
    using ok by (intro read_fed) simp
  then show ?thesis using CPointer by (simp add: read_kind read_body_def)
next
  case (CCutText clip)
  then have t: "length clip < 2 ^ 32" using ok by simp
  obtain a b c d where l: "to_be32 (word_of_nat (length clip)) = [a, b, c, d]" using to_be32_list by metis
  have "from_be32 [a, b, c, d] = word_of_nat (length clip)" using l by (metis from_to_le(5))
  then have n: "unat (from_be32 [a, b, c, d]) = length clip" using t by (simp add: unsigned_of_nat take_bit_nat_eq_self)
  have "on_stream (stream_read_exact env 7) (rr_feed ([0, 0, 0, a, b, c, d] @ clip @ rest) r) =
      (Inr [0, 0, 0, a, b, c, d], rr_feed (clip @ rest) r)"
    by (rule read_fed) simp
  moreover have "on_stream (stream_skip env (length clip)) (rr_feed (clip @ rest) r) = (Inr (), rr_feed rest r)"
    by (rule skip_fed) simp
  ultimately show ?thesis using CCutText l n by (simp add: read_kind read_body_def)
qed


lemma read_messages_fed:
  assumes keys: "\<And>d s k. fst (keys d s k) = Inr ()" and "\<forall>msg\<in>set msgs. msg_ok msg"
  shows "read_messages env (Some keys) (\<lambda>_. True) (rr_feed (concat (map msg_bytes msgs)) r) =
    (Inl (IoError (re_end env)), rr_feed [] (r\<lparr>rr_keyboard := fold (msg_press keys) msgs (rr_keyboard r),
       rr_sent := rr_sent r @ concat (map msg_request msgs)\<rparr>))"
  using assms(2)
proof (induction msgs arbitrary: r)
  case Nil
  show ?case
    by (subst read_messages.simps)
      (simp add: read_message_def on_stream_def stream_read_exact_def rr_feed_def then_op_def)
next
  case (Cons msg msgs)
  obtain q where q: "read_message env (Some keys) (rr_feed (msg_bytes msg @ concat (map msg_bytes msgs)) r) =
      (Inr q, rr_feed (concat (map msg_bytes msgs)) (r\<lparr>rr_keyboard := msg_press keys msg (rr_keyboard r)\<rparr>))"
    and rq: "msg_request msg = (case q of None \<Rightarrow> [] | Some x \<Rightarrow> [x])"
    using read_message_fed [of msg keys env "concat (map msg_bytes msgs)" r] keys Cons.prems by auto
  have sent: "(rr_feed bs r)\<lparr>rr_sent := x\<rparr> = rr_feed bs (r\<lparr>rr_sent := x\<rparr>)" "rr_sent (rr_feed bs r) = rr_sent r"
    for bs x and r :: "'a rfb_reader" by (simp_all add: rr_feed_def)
  show ?case
    using q rq Cons by (subst read_messages.simps) (cases q; simp add: sent)
qed

lemma serve_client:
  assumes "\<And>d s k. fst (keys d s k) = Inr ()" and "\<forall>msg\<in>set msgs. msg_ok msg"
    and "re_end env = UnexpectedEof" and "\<And>o' bs. re_writes env o' bs"
  shows "\<exists>r. serve env True True (width, height) (Some keys) (\<lambda>_. True)
      \<lparr>rr_stream = \<lparr>rs_in = rfb_version 0x38 @ [1] @ [shared] @ concat (map msg_bytes msgs), rs_out = []\<rparr>,
       rr_keyboard = k, rr_sent = []\<rparr> = (Inr (), r) \<and>
    rs_out (rr_stream r) = rfb_version 0x38 @ [1, 1] @ to_be32 0 @ server_init width height \<and>
    rs_in (rr_stream r) = [] \<and> rr_keyboard r = fold (msg_press keys) msgs k \<and>
    rr_sent r = concat (map msg_request msgs)"
proof -
  let ?m = "concat (map msg_bytes msgs)" and ?v = "rfb_version 0x38"
  have v: "length ?v = 12" "rfb_minor ?v = Some 8" by (simp_all add: rfb_version_def rfb_prefix_def rfb_minor_def)
  then have "handshake env \<lparr>rs_in = ?v @ [1] @ [shared] @ ?m, rs_out = []\<rparr> =
      (Inr (), \<lparr>rs_in = shared # ?m, rs_out = ?v @ [1, 1] @ to_be32 0\<rparr>)"
    by (simp add: handshake_def stream_write_all_def stream_read_exact_def then_op_def assms(4))
  then have "rfb_setup env (width, height) \<lparr>rs_in = ?v @ [1] @ [shared] @ ?m, rs_out = []\<rparr> =
      (Inr (), \<lparr>rs_in = ?m, rs_out = ?v @ [1, 1] @ to_be32 0 @ server_init width height\<rparr>)"
    by (simp add: rfb_setup_def stream_write_all_def stream_read_exact_def then_op_def assms(4))
  then show ?thesis
    using read_messages_fed [of keys msgs env
        "\<lparr>rr_stream = \<lparr>rs_in = ?m, rs_out = ?v @ [1, 1] @ to_be32 0 @ server_init width height\<rparr>, rr_keyboard = k, rr_sent = []\<rparr>"]
      assms(1-3)
    by (simp add: serve_def on_stream_def rr_feed_def then_op_def)
qed



section \<open>Pixels\<close>

text \<open>The formats whose pixels can be encoded: the parser checks all but the shifts.\<close>

definition format_ok :: "pixel_format \<Rightarrow> bool" where
  "format_ok f \<longleftrightarrow> pf_wf f \<and> pf_supported f \<and> (\<forall>s\<in>set (pf_shift f). unat s < 32)"

definition pixel_bytes :: "pixel_format \<Rightarrow> u32 \<Rightarrow> u8 list" where
  "pixel_bytes f rgb = (case pf_encode f rgb of Inr bs \<Rightarrow> bs | Inl _ \<Rightarrow> [])"

lemma unat_u16_less: "unat (x :: u16) < 65536"
  using unsigned_less [of x, where 'a = nat] by (simp del: unsigned_less)

lemma u16_of_nat: "n < 65536 \<Longrightarrow> unat (word_of_nat n :: u16) = n"
  by (simp add: unsigned_of_nat take_bit_nat_eq_self)

lemma component_ok:
  fixes x :: u32 and mx :: u16
  assumes "x \<le> 0xff"
  shows "mul_ov x (ucast mx) = Inr (x * ucast mx)"
proof -
  have "unat x \<le> 255" using assms by (simp add: word_le_nat_alt)
  moreover have "unat (ucast mx :: u32) \<le> 65535"
    using unat_u16_less [of mx] by (simp add: unsigned_ucast_eq take_bit_nat_eq_self)
  ultimately have "unat x * unat (ucast mx :: u32) \<le> 255 * 65535" by (rule mult_le_mono)
  then show ?thesis by (simp add: checked_mul_def)
qed

lemma encode_components_ok:
  assumes "\<forall>(c, m, s)\<in>set cs. c \<le> 0xff"
  shows "if \<forall>(c, m, s)\<in>set cs. unat s < 32 then \<exists>v'. encode_components cs v = Inr v'
    else encode_components cs v = Inl (Panicked ArithOverflow)"
  using assms by (induction cs v rule: encode_components.induct) (auto simp: component_ok shl_ov_def)

lemma bytes_per_pixel_ok: "pf_supported f \<Longrightarrow> bytes_per_pixel f \<le> 4"
  by (auto simp: pf_supported_def bytes_per_pixel_def)

text \<open>
  C39. Encoding a pixel in a format the parser accepted gives exactly the format's bytes when the
  three shifts are below 32, and panics otherwise: the parser lets a client choose a shift that
  ends its own update thread.
\<close>

theorem pf_encode_outcome:
  assumes "pf_wf f" and "pf_supported f"
  shows "if \<forall>s\<in>set (pf_shift f). unat s < 32
    then \<exists>bs. pf_encode f rgb = Inr bs \<and> length bs = bytes_per_pixel f
    else pf_encode f rgb = Inl (Panicked ArithOverflow)"
proof -
  obtain a b c p q r where m: "pf_max f = [a, b, c]" and sh: "pf_shift f = [p, q, r]"
    using assms(1) short_lists(2) unfolding pf_wf_def by metis
  let ?cs = "zip [drop_bit 16 rgb AND 0xff, drop_bit 8 rgb AND 0xff, rgb AND 0xff] (zip (pf_max f) (pf_shift f))"
  have "\<forall>(c, m, s)\<in>set ?cs. c \<le> 0xff" by (simp add: m sh word_and_le1)
  note e = encode_components_ok [OF this, of 0]
  have s: "(\<forall>(c, m, s)\<in>set ?cs. unat s < 32) \<longleftrightarrow> (\<forall>s\<in>set (pf_shift f). unat s < 32)" by (simp add: m sh)
  show ?thesis
  proof (cases "\<forall>s\<in>set (pf_shift f). unat s < 32")
    case True
    then obtain v where "encode_components ?cs 0 = Inr v" using e s by auto
    then show ?thesis using True bytes_per_pixel_ok [OF assms(2)] by (auto simp: pf_encode_def Let_def)
  next
    case False
    then show ?thesis using e s by (auto simp: pf_encode_def)
  qed
qed

theorem pf_encode_outcome_witness:
  "(\<exists>bs. pf_encode pf_default 0x123456 = Inr bs \<and> length bs = 4) \<and>
   pf_encode (pf_default\<lparr>pf_shift := [16, 8, 32]\<rparr>) 0x123456 = Inl (Panicked ArithOverflow)"
proof -
  let ?f = "pf_default\<lparr>pf_shift := [16, 8, 32]\<rparr>"
  have a: "pf_wf pf_default" "pf_supported pf_default" "pf_wf ?f" "pf_supported ?f"
    by (simp_all add: pf_default_def pf_wf_def pf_supported_def)
  show ?thesis
    using pf_encode_outcome [OF a(1,2), of "0x123456"] pf_encode_outcome [OF a(3,4), of "0x123456"]
    by (simp add: pf_default_def bytes_per_pixel_def)
qed

lemma pixel_bytes_ok:
  assumes "format_ok f"
  shows "pf_encode f p = Inr (pixel_bytes f p)" "length (pixel_bytes f p) = bytes_per_pixel f"
proof -
  obtain a b c s t r where m: "pf_max f = [a, b, c]" and sh: "pf_shift f = [s, t, r]"
    using assms short_lists(2) unfolding format_ok_def pf_wf_def by metis
  let ?cs = "zip [drop_bit 16 p AND 0xff, drop_bit 8 p AND 0xff, p AND 0xff] (zip (pf_max f) (pf_shift f))"
  have "\<forall>(c, m, s)\<in>set ?cs. c \<le> 0xff" "\<forall>(c, m, s)\<in>set ?cs. unat s < 32"
    using assms by (simp_all add: m sh word_and_le1 format_ok_def)
  then obtain v where "encode_components ?cs 0 = Inr v" using encode_components_ok [of ?cs 0] by auto
  then show "pf_encode f p = Inr (pixel_bytes f p)" "length (pixel_bytes f p) = bytes_per_pixel f"
    using bytes_per_pixel_ok [of f] assms by (auto simp: pixel_bytes_def pf_encode_def Let_def format_ok_def)
qed

lemma encode_pixels_ok: "format_ok f \<Longrightarrow> encode_pixels f ps = Inr (concat (map (pixel_bytes f) ps))"
  by (induction ps) (simp_all add: pixel_bytes_ok)

section \<open>The client's screen\<close>

text \<open>The client cuts the bytes after the header into pixels and puts them on its screen, a list of encoded pixels.\<close>

definition chunks :: "nat \<Rightarrow> nat \<Rightarrow> u8 list \<Rightarrow> u8 list list" where
  "chunks n k bs = map (\<lambda>i. take n (drop (i * n) bs)) [0..<k]"

definition take_update :: "pixel_format \<Rightarrow> u8 list \<Rightarrow> u8 list list \<Rightarrow> u8 list list" where
  "take_update f msg screen =
     (let y = unat (from_be16 (take 2 (drop 6 msg))); w = unat (from_be16 (take 2 (drop 8 msg)));
          h = unat (from_be16 (take 2 (drop 10 msg)))
      in take (y * w) screen @ chunks (bytes_per_pixel f) (h * w) (drop 16 msg) @ drop ((y + h) * w) screen)"

lemma chunks_concat:
  assumes "\<forall>c\<in>set cs. length c = n"
  shows "chunks n (length cs) (concat cs) = cs"
proof -
  have "take n (drop (i * n) (concat cs)) = cs ! i" if "i < length cs" for i
    using assms that
  proof (induction cs arbitrary: i)
    case (Cons c cs)
    then show ?case by (cases i) (simp_all add: add.commute)
  qed simp
  then show ?thesis by (intro nth_equalityI) (simp_all add: chunks_def)
qed

lemma take_update_message:
  fixes height :: u16
  assumes f: "format_ok f" and rows: "a < b" "b \<le> unat height"
    and msg: "update_message f width frame (a, b) = Inr msg" and len: "length frame = unat width * unat height"
  shows "take_update f msg screen =
    take (a * unat width) screen @
    map (pixel_bytes f) (take ((b - a) * unat width) (drop (a * unat width) frame)) @ drop (b * unat width) screen"
proof -
  let ?w = "unat width" and ?ps = "take ((b - a) * unat width) (drop (a * unat width) frame)"
  have lt: "unat height < 65536" by (rule unat_u16_less)
  have "b * ?w \<le> length frame" using rows(2) len by (simp add: mult.commute)
  then have m: "msg = update_header width (a, b) @ concat (map (pixel_bytes f) ?ps)" and l: "length ?ps = (b - a) * ?w"
    using msg rows encode_pixels_ok [OF f] by (auto simp: update_message_def Let_def diff_mult_distrib res_simps)
  have n: "unat (word_of_nat a :: u16) = a" "unat (word_of_nat (b - a) :: u16) = b - a"
    using rows lt by (auto intro!: u16_of_nat simp del: of_nat_diff)
  have "chunks (bytes_per_pixel f) (length (map (pixel_bytes f) ?ps)) (concat (map (pixel_bytes f) ?ps)) = map (pixel_bytes f) ?ps"
    by (rule chunks_concat) (simp add: pixel_bytes_ok(2) [OF f])
  moreover have "take 2 (drop 6 msg) = to_be16 (word_of_nat a)" "take 2 (drop 8 msg) = to_be16 width"
      "take 2 (drop 10 msg) = to_be16 (word_of_nat (b - a))" "drop 16 msg = concat (map (pixel_bytes f) ?ps)"
    unfolding m by (simp_all add: update_header_def)
  ultimately show ?thesis using l n rows by (simp add: take_update_def Let_def)
qed

lemma take_mid_drop:
  assumes "a \<le> b" shows "take a xs @ take (b - a) (drop a xs) @ drop b xs = xs"
proof -
  have "drop b xs = drop (b - a) (drop a xs)" using assms by simp
  then show ?thesis by (simp only: append_take_drop_id)
qed

text \<open>
  The update thread with its client: the display changes as it likes between the turns, the client
  sends requests, and takes each update in the format it has set.
\<close>

fun received_ok :: "received \<Rightarrow> bool" where
  "received_ok (Received (ReqPixelFormat f)) = format_ok f"
| "received_ok _ = True"

inductive rfb_run :: "('e, 'd) renderer \<Rightarrow> u16 \<Rightarrow> u16 \<Rightarrow> ('d \<Rightarrow> bool) \<Rightarrow> 'd updater \<Rightarrow> u8 list list \<Rightarrow> bool"
  for render width height ok where
  new: "ok d \<Longrightarrow> length screen = unat width * unat height \<Longrightarrow>
    rfb_run render width height ok (updater_new width height now d) screen"
| turn: "rfb_run render width height ok st screen \<Longrightarrow> ok d \<Longrightarrow> received_ok rx \<Longrightarrow>
    update_step render width rx now now' True e (st\<lparr>ud_display := d\<rparr>) = Some (None, st') \<Longrightarrow>
    screen' = (if ud_written st' = ud_written st then screen
               else take_update (ud_format st') (last (ud_written st')) screen) \<Longrightarrow>
    rfb_run render width height ok st' screen'"

text \<open>What the trait \<open>Display\<close> promises, as far as the update thread relies on it.\<close>

definition rows_ok :: "u16 \<Rightarrow> u16 \<Rightarrow> nat \<Rightarrow> u32 list \<Rightarrow> (nat \<times> nat) option \<Rightarrow> u32 list \<Rightarrow> bool" where
  "rows_ok width height seen out rows out' \<longleftrightarrow> length out' = length out \<and>
     (case rows of
        None \<Rightarrow> seen \<noteq> 0 \<and> out' = out
      | Some (a, b) \<Rightarrow> a < b \<and> b \<le> unat height \<and> (seen = 0 \<longrightarrow> a = 0 \<and> b = unat height) \<and>
          (\<forall>i<length out. i < a * unat width \<or> b * unat width \<le> i \<longrightarrow> out' ! i = out ! i))"

section \<open>The update rate\<close>

text \<open>The clock is monotone: each pass reads it after the one before.\<close>

fun clocks_ok :: "nat \<Rightarrow> ('e, 'd) pass list \<Rightarrow> bool" where
  "clocks_ok t [] \<longleftrightarrow> True"
| "clocks_ok t (p # ps) \<longleftrightarrow> t \<le> ps_now p \<and> ps_now p \<le> ps_now' p \<and> clocks_ok (ps_now' p) ps"

fun last_clock :: "nat \<Rightarrow> ('e, 'd) pass list \<Rightarrow> nat" where
  "last_clock t [] = t"
| "last_clock t (p # ps) = last_clock (ps_now' p) ps"

fun spaced :: "nat \<Rightarrow> nat list \<Rightarrow> bool" where
  "spaced d (x # y # zs) \<longleftrightarrow> x + d \<le> y \<and> spaced d (y # zs)"
| "spaced d _ \<longleftrightarrow> True"

lemma spaced_Cons: "spaced d (x # xs) \<longleftrightarrow> (xs \<noteq> [] \<longrightarrow> x + d \<le> hd xs) \<and> spaced d xs"
  by (cases xs) auto

lemma spaced_nth: "spaced d xs \<Longrightarrow> Suc i < length xs \<Longrightarrow> xs ! i + d \<le> xs ! Suc i"
  by (induction d xs arbitrary: i rule: spaced.induct) (auto simp: nth_Cons split: nat.splits)

lemma update_step_paced:
  assumes "update_step render width rx now now' ok e st = Some (r, st')"
  shows "(ud_written st' = ud_written st \<and> (ud_next st' = ud_next st \<or> ud_next st' = now' + UPDATE_INTERVAL \<and> ud_next st \<le> now)) \<or>
    (\<exists>msg. ud_written st' = ud_written st @ [msg] \<and> ud_next st \<le> now \<and> ud_next st' = now' + UPDATE_INTERVAL)"
  using assms
  by (auto simp: update_step_def update_turn_def Let_def
      split: received.splits request.splits if_splits option.splits sum.splits prod.splits)

text \<open>The next render is due within the interval, and every update comes at least the interval after the last.\<close>

lemma update_passes_paced:
  assumes "update_passes render width ps st = Some (r, ts, st')" and "clocks_ok t ps" and "ud_next st \<le> t + UPDATE_INTERVAL"
  shows "spaced UPDATE_INTERVAL ts \<and> (ts \<noteq> [] \<longrightarrow> ud_next st \<le> hd ts) \<and>
    (r = None \<longrightarrow> length (ud_written st') = length (ud_written st) + length ts \<and>
      ud_next st' \<le> last_clock t ps + UPDATE_INTERVAL)"
  using assms
proof (induction ps arbitrary: st t ts)
  case (Cons p ps)
  let ?st = "st\<lparr>ud_display := ps_guest p (ud_display st)\<rparr>"
  obtain q st1 where q: "update_step render width (ps_received p) (ps_now p) (ps_now' p) (ps_write_ok p) (ps_env p) ?st = Some (q, st1)"
    using Cons.prems(1) by (auto split: option.splits)
  show ?case
  proof (cases q)
    case None
    obtain ts1 where p1: "update_passes render width ps st1 = Some (r, ts1, st')"
      and ts: "ts = (if ud_written st1 = ud_written st then ts1 else ps_now' p # ts1)"
      using Cons.prems(1) q None by auto
    have clk: "t \<le> ps_now p" "ps_now p \<le> ps_now' p" "clocks_ok (ps_now' p) ps" using Cons.prems(2) by auto
    have s: "ud_written st1 = ud_written st \<and> (ud_next st1 = ud_next st \<or>
          ud_next st1 = ps_now' p + UPDATE_INTERVAL \<and> ud_next st \<le> ps_now p) \<or>
        (\<exists>msg. ud_written st1 = ud_written st @ [msg] \<and> ud_next st \<le> ps_now p \<and> ud_next st1 = ps_now' p + UPDATE_INTERVAL)"
      using update_step_paced [OF q] by simp
    then have n: "ud_next st1 \<le> ps_now' p + UPDATE_INTERVAL" using clk Cons.prems(3) by auto
    from Cons.IH [OF p1 clk(3) n] s clk ts show ?thesis by (auto simp: spaced_Cons)
  qed (use Cons.prems(1) q in auto)
qed simp

locale rfb_display =
  fixes render :: "('e, 'd) renderer" and width height :: u16 and ok :: "'d \<Rightarrow> bool"
  assumes render_ok: "ok d \<Longrightarrow> length out = unat width * unat height \<Longrightarrow>
    \<exists>rows out' seen' d'. render e out seen d = Some (Inr (rows, out', seen'), d') \<and> ok d' \<and> seen' \<noteq> 0 \<and>
      rows_ok width height seen out rows out'"
begin

lemma message_ok:
  assumes "format_ok f" and "rows_ok width height seen out (Some (a, b)) out'" and "length out = unat width * unat height"
  shows "\<exists>msg. update_message f width out' (a, b) = Inr msg"
proof -
  have "a < b" "b \<le> unat height" "length out' = unat width * unat height" using assms by (auto simp: rows_ok_def)
  moreover have "b * unat width \<le> unat height * unat width" using \<open>b \<le> unat height\<close> by simp
  ultimately show ?thesis using encode_pixels_ok [OF assms(1)] by (simp add: update_message_def Let_def mult.commute)
qed

lemma turn_ok:
  assumes ok: "ok (ud_display st)" and f: "format_ok (ud_format st)" and len: "length (ud_frame st) = unat width * unat height"
  shows "\<exists>st'. update_turn render width now now' True e st = Some (None, st') \<and>
    ok (ud_display st') \<and> ud_format st' = ud_format st \<and> length (ud_frame st') = unat width * unat height \<and>
    (ud_written st' = ud_written st \<and> ud_frame st' = ud_frame st \<and> (ud_seen st' \<noteq> 0 \<longrightarrow> ud_seen st \<noteq> 0) \<or>
     (\<exists>a b msg. rows_ok width height (ud_seen st) (ud_frame st) (Some (a, b)) (ud_frame st') \<and>
        update_message (ud_format st) width (ud_frame st') (a, b) = Inr msg \<and> ud_written st' = ud_written st @ [msg]))"
proof (cases "\<not> ud_pending st \<or> now < ud_next st")
  case True
  then show ?thesis using assms by (simp add: update_turn_def)
next
  case False
  obtain rows out' seen' d' where r: "render e (ud_frame st) (ud_seen st) (ud_display st) = Some (Inr (rows, out', seen'), d')"
    and d': "ok d'" and rows: "rows_ok width height (ud_seen st) (ud_frame st) rows out'"
    using render_ok [OF ok len] by blast
  have l: "length out' = unat width * unat height" using rows len by (simp add: rows_ok_def)
  show ?thesis
  proof (cases rows)
    case None
    then show ?thesis using False r d' l rows f by (simp add: update_turn_def Let_def rows_ok_def)
  next
    case (Some p)
    obtain a b where p: "p = (a, b)" by (cases p)
    obtain msg where "update_message (ud_format st) width out' (a, b) = Inr msg"
      using message_ok [OF f _ len] rows Some p by blast
    then show ?thesis using False r d' l rows f Some p by (auto simp: update_turn_def Let_def)
  qed
qed

definition screen_inv :: "'d updater \<Rightarrow> u8 list list \<Rightarrow> bool" where
  "screen_inv st screen \<longleftrightarrow> ok (ud_display st) \<and> format_ok (ud_format st) \<and>
     length (ud_frame st) = unat width * unat height \<and> length screen = unat width * unat height \<and>
     (ud_seen st \<noteq> 0 \<longrightarrow> screen = map (pixel_bytes (ud_format st)) (ud_frame st))"

lemma screen_redrawn:
  assumes rows: "rows_ok width height seen out (Some (a, b)) out'" and f: "format_ok f"
    and msg: "update_message f width out' (a, b) = Inr msg" and len: "length out = unat width * unat height"
    and old: "seen \<noteq> 0 \<Longrightarrow> screen = map (pixel_bytes f) out" and l: "length screen = unat width * unat height"
  shows "take_update f msg screen = map (pixel_bytes f) out'"
proof -
  let ?w = "unat width" and ?g = "pixel_bytes f"
  have r: "a < b" "b \<le> unat height" "length out' = ?w * unat height" "seen = 0 \<longrightarrow> a = 0 \<and> b = unat height"
    and same: "\<forall>i<length out. i < a * ?w \<or> b * ?w \<le> i \<longrightarrow> out' ! i = out ! i"
    using rows len by (auto simp: rows_ok_def)
  have ab: "a * ?w \<le> b * ?w" "b * ?w \<le> length out'" using r by (simp_all add: mult.commute)
  have cut: "out' = take (a * ?w) out' @ take ((b - a) * ?w) (drop (a * ?w) out') @ drop (b * ?w) out'"
    using take_mid_drop [OF ab(1), of out'] by (simp add: diff_mult_distrib)
  have outer: "take (a * ?w) screen = map ?g (take (a * ?w) out')" "drop (b * ?w) screen = map ?g (drop (b * ?w) out')"
  proof -
    have eq: "length out' = length out" using r(3) len by simp
    have "out' ! i = out ! i" if "i < a * ?w" for i
    proof -
      have "i < length out" using that ab unfolding eq by linarith
      then show ?thesis using same that by blast
    qed
    then have "take (a * ?w) out' = take (a * ?w) out" using eq by (auto intro!: nth_equalityI)
    moreover have "drop (b * ?w) out' = drop (b * ?w) out"
      using same eq ab(2) by (intro nth_equalityI) simp_all
    ultimately have "take (a * ?w) out' = take (a * ?w) out" "drop (b * ?w) out' = drop (b * ?w) out" by simp_all
    then show "take (a * ?w) screen = map ?g (take (a * ?w) out')" "drop (b * ?w) screen = map ?g (drop (b * ?w) out')"
      using old r(4) l r(3) by (cases "seen = 0"; simp add: take_map drop_map mult.commute)+
  qed
  show ?thesis
    unfolding take_update_message [OF f r(1,2) msg r(3)] outer by (subst (4) cut) simp
qed

lemma screen_inv_turn:
  assumes inv: "screen_inv st screen"
    and t: "update_turn render width now now' True e st = Some (None, st')"
  shows "screen_inv st' (if ud_written st' = ud_written st then screen
    else take_update (ud_format st') (last (ud_written st')) screen)"
proof -
  have st: "ok (ud_display st)" "format_ok (ud_format st)" "length (ud_frame st) = unat width * unat height"
      "length screen = unat width * unat height"
      "ud_seen st \<noteq> 0 \<Longrightarrow> screen = map (pixel_bytes (ud_format st)) (ud_frame st)"
    using inv by (simp_all add: screen_inv_def)
  from turn_ok [OF st(1-3), of now now' e] t have
    st': "ok (ud_display st')" "ud_format st' = ud_format st" "length (ud_frame st') = unat width * unat height" and
    d: "ud_written st' = ud_written st \<and> ud_frame st' = ud_frame st \<and> (ud_seen st' \<noteq> 0 \<longrightarrow> ud_seen st \<noteq> 0) \<or>
     (\<exists>a b msg. rows_ok width height (ud_seen st) (ud_frame st) (Some (a, b)) (ud_frame st') \<and>
        update_message (ud_format st) width (ud_frame st') (a, b) = Inr msg \<and> ud_written st' = ud_written st @ [msg])"
    by auto
  from d show ?thesis
  proof (elim disjE exE conjE)
    fix a b msg
    assume "rows_ok width height (ud_seen st) (ud_frame st) (Some (a, b)) (ud_frame st')"
      and "update_message (ud_format st) width (ud_frame st') (a, b) = Inr msg" and "ud_written st' = ud_written st @ [msg]"
    then show ?thesis using screen_redrawn [OF _ st(2) _ st(3) _ st(4)] st st' by (simp add: screen_inv_def)
  qed (use st st' in \<open>simp add: screen_inv_def\<close>)
qed

lemma screen_inv_run:
  assumes "rfb_run render width height ok st screen"
  shows "screen_inv st screen"
  using assms
proof (induction rule: rfb_run.induct)
  case (new d screen now)
  then show ?case
    by (simp add: screen_inv_def updater_new_def format_ok_def pf_wf_def pf_supported_def pf_default_def)
next
  case (turn st screen d rx now now' e st' screen')
  have d: "screen_inv (st\<lparr>ud_display := d\<rparr>) screen" using turn.IH turn.hyps by (simp add: screen_inv_def)
  show ?case
  proof (cases rx)
    case (Received rq)
    show ?thesis
    proof (cases rq)
      case (ReqPixelFormat f)
      then show ?thesis using turn.hyps d Received by (auto simp: update_step_def screen_inv_def)
    next
      case (ReqUpdate inc)
      let ?st = "st\<lparr>ud_display := d, ud_pending := True, ud_seen := if inc then ud_seen st else 0\<rparr>"
      have "screen_inv ?st screen" using d by (simp add: screen_inv_def)
      moreover have "update_turn render width now now' True e ?st = Some (None, st')"
        using turn.hyps Received ReqUpdate by (cases inc) (simp_all add: update_step_def)
      ultimately show ?thesis using screen_inv_turn turn.hyps by fastforce
    qed
  next
    case TimedOut
    then have "update_turn render width now now' True e (st\<lparr>ud_display := d\<rparr>) = Some (None, st')"
      using turn.hyps by (simp add: update_step_def)
    then show ?thesis using screen_inv_turn [OF d] turn.hyps by fastforce
  next
    case Disconnected
    then show ?thesis using turn.hyps by (simp add: update_step_def)
  qed
qed

text \<open>The thread as it waits: what every pass keeps.\<close>

definition waiting :: "'d updater \<Rightarrow> bool" where
  "waiting st \<longleftrightarrow> ok (ud_display st) \<and> format_ok (ud_format st) \<and> length (ud_frame st) = unat width * unat height"

definition benign :: "('e, 'd) pass \<Rightarrow> bool" where
  "benign p \<longleftrightarrow> received_ok (ps_received p) \<and> ps_received p \<noteq> Disconnected \<and> ps_write_ok p \<and> (\<forall>d. ok d \<longrightarrow> ok (ps_guest p d))"

lemma waiting_step:
  assumes "waiting st" and "received_ok rx" and "rx \<noteq> Disconnected"
  shows "\<exists>st'. update_step render width rx now now' True e st = Some (None, st') \<and> waiting st'"
proof (cases rx)
  case (Received rq)
  show ?thesis
  proof (cases rq)
    case (ReqPixelFormat f)
    then show ?thesis using assms Received by (simp add: update_step_def waiting_def)
  next
    case (ReqUpdate inc)
    then show ?thesis
      using assms(1) Received turn_ok [of "st\<lparr>ud_pending := True, ud_seen := if inc then ud_seen st else 0\<rparr>" now now' e]
      by (force simp: update_step_def waiting_def)
  qed
next
  case TimedOut
  then show ?thesis using assms(1) turn_ok [of st now now' e] by (force simp: update_step_def waiting_def)
qed (use assms(3) in simp)

lemma thread_survives:
  assumes "rfb_run render width height ok st screen" and "ok d" and "received_ok rx" and "rx \<noteq> Disconnected"
  shows "\<exists>st'. update_step render width rx now now' True e (st\<lparr>ud_display := d\<rparr>) = Some (None, st')"
proof -
  have "waiting (st\<lparr>ud_display := d\<rparr>)"
    using screen_inv_run [OF assms(1)] assms(2) by (simp add: screen_inv_def waiting_def)
  from waiting_step [OF this assms(3,4)] show ?thesis by blast
qed

lemma waiting_passes:
  assumes "waiting st" and "\<forall>p\<in>set ps. benign p"
  shows "\<exists>ts st'. update_passes render width ps st = Some (None, ts, st') \<and> waiting st'"
  using assms
proof (induction ps arbitrary: st)
  case (Cons p ps)
  have p: "benign p" and w: "waiting (st\<lparr>ud_display := ps_guest p (ud_display st)\<rparr>)"
    using Cons.prems by (simp_all add: waiting_def benign_def)
  obtain st1 where "update_step render width (ps_received p) (ps_now p) (ps_now' p) True (ps_env p)
      (st\<lparr>ud_display := ps_guest p (ud_display st)\<rparr>) = Some (None, st1)" and w1: "waiting st1"
    using waiting_step [OF w] p unfolding benign_def by blast
  moreover obtain ts st' where "update_passes render width ps st1 = Some (None, ts, st')" "waiting st'"
    using Cons.IH [OF w1] Cons.prems(2) by auto
  ultimately show ?case using p by (simp add: benign_def)
qed simp

lemma full_update_answered:
  assumes "waiting st" and "ud_pending st" and "ud_seen st = 0" and "ud_next st \<le> now"
  shows "\<exists>msg st'. update_step render width TimedOut now now' True e st = Some (None, st') \<and>
    ud_written st' = ud_written st @ [msg] \<and> \<not> ud_pending st'"
proof -
  have len: "length (ud_frame st) = unat width * unat height" and f: "format_ok (ud_format st)" and d: "ok (ud_display st)"
    using assms(1) by (simp_all add: waiting_def)
  obtain rows out' seen' d' where r: "render e (ud_frame st) (ud_seen st) (ud_display st) = Some (Inr (rows, out', seen'), d')"
    and rows: "rows_ok width height (ud_seen st) (ud_frame st) rows out'"
    using render_ok [OF d len] by blast
  obtain a b where ab: "rows = Some (a, b)" using rows assms(3) by (cases rows) (auto simp: rows_ok_def)
  obtain msg where "update_message (ud_format st) width out' (a, b) = Inr msg"
    using message_ok [OF f _ len] rows ab by blast
  then show ?thesis using r ab assms(2,4) by (simp add: update_step_def update_turn_def Let_def)
qed

lemma updates_paced:
  assumes "ok d" and "clocks_ok now0 ps" and "\<forall>p\<in>set ps. benign p"
  shows "\<exists>ts st. send_updates render width height now0 d ps = Some (None, ts, st) \<and>
    length (ud_written st) = length ts \<and> (\<forall>i. Suc i < length ts \<longrightarrow> ts ! i + UPDATE_INTERVAL \<le> ts ! Suc i) \<and>
    (\<forall>now\<ge>last_clock now0 ps. update_wait now st \<le> UPDATE_INTERVAL) \<and>
    (ud_pending st \<and> ud_seen st = 0 \<longrightarrow> (\<forall>now\<ge>ud_next st. \<forall>now' e. \<exists>msg st'.
      update_step render width TimedOut now now' True e st = Some (None, st') \<and> ud_written st' = ud_written st @ [msg]))"
proof -
  let ?st = "updater_new width height now0 d"
  have w: "waiting ?st"
    using assms(1) by (simp add: waiting_def updater_new_def format_ok_def pf_wf_def pf_supported_def pf_default_def)
  obtain ts st where run: "update_passes render width ps ?st = Some (None, ts, st)" and st: "waiting st"
    using waiting_passes [OF w assms(3)] by blast
  have "ud_next ?st \<le> now0 + UPDATE_INTERVAL" by (simp add: updater_new_def)
  from update_passes_paced [OF run assms(2) this] have
    p: "spaced UPDATE_INTERVAL ts" "length (ud_written st) = length ts" "ud_next st \<le> last_clock now0 ps + UPDATE_INTERVAL"
    by (simp_all add: updater_new_def)
  have "update_wait now st \<le> UPDATE_INTERVAL" if "last_clock now0 ps \<le> now" for now
    using p(3) that by (auto simp: update_wait_def le_diff_conv)
  moreover have "\<exists>msg st'. update_step render width TimedOut now now' True e st = Some (None, st') \<and>
      ud_written st' = ud_written st @ [msg]" if "ud_pending st" "ud_seen st = 0" "ud_next st \<le> now" for now now' e
    using full_update_answered [OF st that] by blast
  ultimately show ?thesis using run p(2) spaced_nth [OF p(1)] unfolding send_updates_def by blast
qed

end

end
