(* ===== verification/Vnc_Display.thy ===== *)
theory Vnc_Display
  imports Rfb Vga
begin

text \<open>
  The two displays there are keep the contract the update thread of \<open>src/src/frontend/rfb.rs\<close>
  relies on: the one of a VM without a display, and the VGA adapter of
  \<open>src/src/arch/x86_64/vga.rs\<close>. What a client sees follows.
\<close>

section \<open>No display\<close>

interpretation nodisp: rfb_display no_display_render 320 200 "\<lambda>_. True"
  by unfold_locales (auto simp: no_display_render_def rows_ok_def)

section \<open>The VGA adapter\<close>

text \<open>A render reads the dirty log and the framebuffer in RAM, which are its environment here.\<close>

definition vga_renderer :: "u32 \<Rightarrow> (u64 list res \<times> ram, vga) renderer" where
  "vga_renderer entries = (\<lambda>(fetched, m). vga_render entries fetched m)"

definition vga_ok :: "u32 \<Rightarrow> vga \<Rightarrow> bool" where
  "vga_ok entries v \<longleftrightarrow> vga_wf v \<and> (case vg_dac_writes v of None \<Rightarrow> True | Some ring \<Rightarrow> ring_wf entries ring)"

lemma vga_wf_bytes: "vga_wf v \<Longrightarrow> vga_wf (vga_write_bytes port bs v)"
  by (induction port bs v rule: vga_write_bytes.induct) (simp_all add: vga_wf_write)

lemma vga_wf_entries: "vga_wf v \<Longrightarrow> vga_wf (foldl (\<lambda>t e. apply_entry e t) v es)"
  by (induction es arbitrary: v) (simp_all add: apply_entry_def vga_wf_bytes)

lemma apply_queued_ok:
  assumes "vga_ok entries v"
  shows "\<exists>v'. apply_queued_writes entries v = Some (Inr (), v') \<and> vga_ok entries v'"
proof (cases "vg_dac_writes v")
  case None
  then show ?thesis using assms by (simp add: apply_queued_writes_def)
next
  case (Some ring)
  then have "ring_wf entries ring" "vga_wf v" using assms by (simp_all add: vga_ok_def)
  then show ?thesis
    using apply_queued_writes_some [OF Some] vga_wf_entries [of v "ring_queued entries ring"]
    by (simp add: vga_ok_def ring_wf_def) (simp add: vga_wf_def)
qed

lemma written_pages_range:
  assumes "vga_wf v" and "written_pages fetched seen v = (Some (a, b), v')"
  shows "a < b \<and> b \<le> 16 \<and> (seen = 0 \<longrightarrow> a = 0 \<and> b = 16)"
proof -
  let ?v = "v\<lparr>vg_frame := vg_frame v + 1\<rparr>"
  define W where "W = map (\<lambda>(page, w). if vg_repaint ?v \<or> page_bit (vga_bitmap fetched ?v) page then vg_frame ?v else w)
    (enumerate 0 (vg_page_written ?v))"
  define P where "P = (\<lambda>w. seen = 0 \<or> seen < (w :: nat))"
  have len: "length W = 16" using assms(1) by (simp add: W_def vga_wf_def length_enumerate)
  obtain l where a: "first_index P W = Some a" and l: "last_index P W = Some l" "b = Suc l"
    using assms(2) unfolding written_pages_def Let_def W_def [symmetric] P_def [symmetric]
    by (auto split: option.splits)
  note fa = a [unfolded first_index_Some_iff] and ll = l(1) [unfolded last_index_Some_iff]
  have "a \<le> l" using fa ll by (metis not_le)
  moreover have "a = 0 \<and> l = 15" if "seen = 0"
  proof -
    have p: "P x" for x using that by (simp add: P_def)
    have "\<not> 0 < a" using fa p by blast
    moreover have "\<not> l < 15" using ll p len by auto
    ultimately show ?thesis using ll len by simp
  qed
  ultimately show ?thesis using l(2) ll len by auto
qed

lemma written_pages_none:
  assumes "vga_wf v" and "written_pages fetched seen v = (None, v')"
  shows "seen \<noteq> 0"
proof
  assume "seen = 0"
  moreover have "vg_page_written v \<noteq> []" using assms(1) by (auto simp: vga_wf_def)
  ultimately show False using assms(2)
    by (cases "vg_page_written v") (auto simp: written_pages_def Let_def last_index_def first_index_None_iff split: option.splits)
qed

lemma vga_rows_ok:
  assumes "a < b" and "b \<le> 16"
  shows "fst (vga_rows (a, b)) < snd (vga_rows (a, b))" "snd (vga_rows (a, b)) \<le> 200"
    "vga_rows (0, 16) = (0, 200)"
proof -
  have "a * 4096 + 2560 \<le> min (b * 4096) 64000" using assms by auto
  then have "(a * 4096 + 2560) div 320 \<le> (min (b * 4096) 64000 + 319) div 320" by (intro div_le_mono) linarith
  then show "fst (vga_rows (a, b)) < snd (vga_rows (a, b))" by (simp add: vga_rows_def)
  have "(min (b * 4096) 64000 + 319) div 320 \<le> (64000 + 319) div 320" by (rule div_le_mono) simp
  then show "snd (vga_rows (a, b)) \<le> 200" by (simp add: vga_rows_def)
  show "vga_rows (0, 16) = (0, 200)" by (simp add: vga_rows_def)
qed

lemma vga_render_ok:
  assumes ok: "vga_ok entries v" and len: "length out = unat (320 :: u16) * unat (200 :: u16)"
  shows "\<exists>rows out' seen' v'. vga_renderer entries e out seen v = Some (Inr (rows, out', seen'), v') \<and>
    vga_ok entries v' \<and> seen' \<noteq> 0 \<and> rows_ok 320 200 seen out rows out'"
proof -
  obtain fetched m where e: "e = (fetched, m)" by (cases e)
  obtain v1 where q: "apply_queued_writes entries v = Some (Inr (), v1)" and v1: "vga_ok entries v1"
    using apply_queued_ok [OF ok] by blast
  obtain pages v2 where w: "written_pages fetched seen v1 = (pages, v2)" by force
  have wf: "vga_wf v1" using v1 by (simp add: vga_ok_def)
  have "vg_dac_writes v2 = vg_dac_writes v1" using w by (auto simp: written_pages_def Let_def split: option.splits)
  then have v2: "vga_ok entries v2" using v1 vga_wf_written_pages [OF wf, of fetched seen] w by (simp add: vga_ok_def)
  have fr: "vg_frame v2 \<noteq> 0" using written_pages_state(1) [OF wf, of fetched seen] w by simp
  show ?thesis
  proof (cases pages)
    case None
    then show ?thesis using q w v2 fr written_pages_none [OF wf, of fetched seen v2]
      by (simp add: vga_renderer_def e vga_render_def rows_ok_def)
  next
    case (Some p)
    obtain a b where p: "p = (a, b)" by (cases p)
    have r: "a < b" "b \<le> 16" "seen = 0 \<longrightarrow> a = 0 \<and> b = 16"
      using written_pages_range [OF wf, of fetched seen a b v2] w Some p by auto
    note rr = vga_rows_ok [OF r(1,2)]
    have "rows_ok 320 200 seen out (Some (vga_rows (a, b))) (vga_draw fb pal (vga_rows (a, b)) out)" for fb pal
      using rr r(3) by (cases "vga_rows (a, b)") (auto simp: rows_ok_def vga_draw_nth)
    then show ?thesis using q w v2 fr Some p
      by (simp add: vga_renderer_def e vga_render_def Let_def)
  qed
qed

interpretation vgadisp: rfb_display "vga_renderer entries" 320 200 "vga_ok entries" for entries
  by unfold_locales (rule vga_render_ok)

text \<open>
  C11. A VNC client of the VGA adapter sees the frame the server drew: in every run, whatever the
  guest does to the adapter and whatever formats (with encodable shifts) and updates the client
  asks for, once the client has been sent a frame its screen is that frame pixel for pixel in the
  client's current format; and the update thread neither panics nor hangs nor ends while the
  client is there.
\<close>

theorem vnc_screen_is_frame:
  assumes "rfb_run (vga_renderer entries) 320 200 (vga_ok entries) st screen"
  shows "(ud_seen st \<noteq> 0 \<longrightarrow> screen = map (pixel_bytes (ud_format st)) (ud_frame st)) \<and>
    (\<forall>d rx now now' e. vga_ok entries d \<and> received_ok rx \<and> rx \<noteq> Disconnected \<longrightarrow>
      (\<exists>st'. update_step (vga_renderer entries) 320 rx now now' True e (st\<lparr>ud_display := d\<rparr>) = Some (None, st')))"
  using vgadisp.screen_inv_run [OF assms] vgadisp.thread_survives [OF assms] by (auto simp: vgadisp.screen_inv_def)


text \<open>A client of a new adapter asks for the whole frame.\<close>

theorem vnc_screen_is_frame_witness:
  "\<exists>st screen. rfb_run (vga_renderer 4) 320 200 (vga_ok 4) st screen \<and> ud_seen st \<noteq> 0 \<and>
    screen = map (pixel_bytes (ud_format st)) (ud_frame st)"
proof -
  let ?v = "vga_new None False None" and ?e = "(Inr [0], \<lambda>_ _. 0) :: u64 list res \<times> ram"
  let ?st = "updater_new 320 200 0 ?v" and ?screen = "replicate (unat (320 :: u16) * unat (200 :: u16)) ([] :: u8 list)"
  have ok: "vga_ok 4 ?v" using vga_wf_new by (simp add: vga_ok_def) (simp add: vga_new_def)
  have run: "rfb_run (vga_renderer 4) 320 200 (vga_ok 4) ?st ?screen"
    by (rule rfb_run.new) (rule ok, simp only: length_replicate)
  obtain st' where st': "update_step (vga_renderer 4) 320 (Received (ReqUpdate False)) 0 0 True ?e (?st\<lparr>ud_display := ?v\<rparr>)
      = Some (None, st')"
    using vnc_screen_is_frame [OF run] ok received_ok.simps by blast
  let ?screen' = "if ud_written st' = ud_written ?st then ?screen else take_update (ud_format st') (last (ud_written st')) ?screen"
  have run': "rfb_run (vga_renderer 4) 320 200 (vga_ok 4) st' ?screen'"
    by (rule rfb_run.turn [where rx = "Received (ReqUpdate False)" and d = ?v, OF run _ _ st' refl]) (rule ok, simp)
  obtain rows out' seen' v' where "vga_renderer 4 ?e (ud_frame ?st) 0 ?v = Some (Inr (rows, out', seen'), v')" "seen' \<noteq> 0"
    using vga_render_ok [OF ok, of "ud_frame ?st" ?e 0] by (auto simp: updater_new_def)
  then have "ud_seen st' \<noteq> 0"
    using st' by (auto simp: update_step_def update_turn_def Let_def updater_new_def split: option.splits sum.splits)
  with run' vnc_screen_is_frame [OF run'] show ?thesis by blast
qed

section \<open>The update rate\<close>

definition vga_pass :: "u32 \<Rightarrow> (u64 list res \<times> ram, vga) pass \<Rightarrow> bool" where
  "vga_pass entries p \<longleftrightarrow> received_ok (ps_received p) \<and> ps_received p \<noteq> Disconnected \<and> ps_write_ok p \<and>
     (\<forall>d. vga_ok entries d \<longrightarrow> vga_ok entries (ps_guest p d))"

lemma vga_pass_benign: "vga_pass entries p \<longleftrightarrow> vgadisp.benign entries p"
  by (simp add: vga_pass_def vgadisp.benign_def)



end
