(* ===== verification/Serial_Tty.thy ===== *)
theory Serial_Tty
  imports Uart16550 Vm_Control
begin

text \<open>
  The serial frontend of \<open>src/src/frontend/serial.rs\<close>: the thread that passes the bytes of
  standard input to the UART, with control-A as the escape byte. The bytes read are an argument,
  a failing read among them; putting the terminal into raw mode is not modelled.
\<close>

section \<open>The thread\<close>

abbreviation (input) QUIT_BYTE :: u8 where "QUIT_BYTE \<equiv> 0x78"
abbreviation (input) ESCAPE_BYTE :: u8 where "ESCAPE_BYTE \<equiv> 0x01"

text \<open>What a byte does in a state of the escape flag; the new flag is \<open>False\<close> unless it is swallowed.\<close>

datatype tty_action = Escape | Quit | Drop | Pass

definition tty_classify :: "bool \<Rightarrow> u8 \<Rightarrow> tty_action" where
  "tty_classify is_escape b =
     (if \<not> is_escape \<and> b = ESCAPE_BYTE then Escape
      else if is_escape then
        (if b = QUIT_BYTE then Quit else if b = ESCAPE_BYTE then Pass else Drop)
      else Pass)"

fun tty_bytes :: "(u8 \<Rightarrow> ('u, unit) oper) \<Rightarrow> bool \<Rightarrow> u8 res list \<Rightarrow> ('u, unit) oper" where
  "tty_bytes send is_escape [] u = (Inr (), u)"
| "tty_bytes send is_escape (byte # rest) u =
     (case unwrap_res byte of
        Inl e \<Rightarrow> (Inl e, u)
      | Inr b \<Rightarrow>
          (case tty_classify is_escape b of
             Escape \<Rightarrow> tty_bytes send True rest u
           | Quit \<Rightarrow> (Inr (), u)
           | Drop \<Rightarrow> tty_bytes send False rest u
           | Pass \<Rightarrow>
               (case send b u of
                  (Inl e, u') \<Rightarrow> (unwrap_res (Inl e), u')
                | (Inr _, u') \<Rightarrow> tty_bytes send False rest u')))"

text \<open>At the end of the input and on control-A x the VM is stopped; a panic leaves it running.\<close>

definition start_tty :: "(u8 \<Rightarrow> ('u, unit) oper) \<Rightarrow> u8 res list \<Rightarrow> ('u \<times> vm_control, unit) oper" where
  "start_tty send input = (\<lambda>(u, c).
     case tty_bytes send False input u of
       (Inl e, u') \<Rightarrow> (Inl e, u', c)
     | (Inr _, u') \<Rightarrow> (Inr (), u', ctl_stop c))"

section \<open>What is typed\<close>

text \<open>The reference: what a sequence of keys means, read two bytes at a time.\<close>

fun tty_typed :: "u8 list \<Rightarrow> u8 list" where
  "tty_typed [] = []"
| "tty_typed [b] = (if b = ESCAPE_BYTE then [] else [b])"
| "tty_typed (b # c # rest) =
     (if b \<noteq> ESCAPE_BYTE then b # tty_typed (c # rest)
      else if c = QUIT_BYTE then []
      else if c = ESCAPE_BYTE then ESCAPE_BYTE # tty_typed rest
      else tty_typed rest)"

definition tty_escape :: "u8 list \<Rightarrow> u8 list" where
  "tty_escape bs = concat (map (\<lambda>b. if b = ESCAPE_BYTE then [ESCAPE_BYTE, ESCAPE_BYTE] else [b]) bs)"

text \<open>What the trait \<open>TTY\<close> promises the frontend: a byte sent is received after those before it.\<close>

locale tty =
  fixes send :: "u8 \<Rightarrow> ('u, unit) oper" and received :: "'u \<Rightarrow> u8 list"
  assumes send_ok: "\<exists>u'. send b u = (Inr (), u') \<and> received u' = received u @ [b]"
begin

lemma bytes_typed:
  "\<exists>u'. tty_bytes send False (map Inr bs) u = (Inr (), u') \<and> received u' = received u @ tty_typed bs"
proof (induction bs arbitrary: u rule: tty_typed.induct)
  case 1
  show ?case by simp
next
  case (2 b)
  obtain u' where "send b u = (Inr (), u')" "received u' = received u @ [b]" using send_ok by blast
  then show ?case by (simp add: unwrap_res_def tty_classify_def)
next
  case (3 b c rest)
  show ?case
  proof (cases "b = ESCAPE_BYTE")
    case False
    obtain u' where u': "send b u = (Inr (), u')" "received u' = received u @ [b]" using send_ok by blast
    show ?thesis using 3(1) [OF False, of u'] u' False by (simp add: unwrap_res_def tty_classify_def)
  next
    case True
    obtain u' where u': "send 1 u = (Inr (), u')" "received u' = received u @ [1]" using send_ok by blast
    have "QUIT_BYTE \<noteq> ESCAPE_BYTE" by simp
    then show ?thesis using 3(2) [of u'] 3(3) [of u] u' True
      by (cases "c = QUIT_BYTE"; cases "c = ESCAPE_BYTE") (auto simp: unwrap_res_def tty_classify_def)
  qed
qed

lemma typed_and_stopped:
  "\<exists>u'. start_tty send (map Inr bs) (u, c) = (Inr (), u', ctl_stop c) \<and> received u' = received u @ tty_typed bs"
  using bytes_typed [of bs u] by (auto simp: start_tty_def)

end

lemma tty_typed_cons: "b \<noteq> ESCAPE_BYTE \<Longrightarrow> tty_typed (b # bs) = b # tty_typed bs"
  by (cases bs) simp_all

lemma tty_typed_escape: "tty_typed (tty_escape bs @ [ESCAPE_BYTE, QUIT_BYTE] @ rest) = bs"
  by (induction bs) (auto simp: tty_escape_def tty_typed_cons simp del: tty_typed.simps(2))

section \<open>The UART\<close>

interpretation uart_tty: tty "uart_send_char (\<lambda>_ _ _. True)" "\<lambda>(s, log). ua_rx s"
proof
  fix b :: u8 and u :: "uart \<times> irq_log"
  obtain s log where u: "u = (s, log)" by (cases u)
  show "\<exists>u'. uart_send_char (\<lambda>_ _ _. True) b u = (Inr (), u') \<and> (case u' of (s, log) \<Rightarrow> ua_rx s) = (case u of (s, log) \<Rightarrow> ua_rx s) @ [b]"
    using uart_update_always [of "s\<lparr>ua_rx := ua_rx s @ [b]\<rparr>" log] u by (auto simp: uart_send_char_def)
qed

text \<open>
  C40. What is typed arrives: when raising the interrupt line never fails, the bytes the guest's UART
  receives are exactly what the keys mean, in order, and then the VM is stopped; in particular any
  bytes at all can be typed by doubling control-A, and control-A x ends the input.
\<close>

theorem tty_delivers_typed:
  "(\<exists>s' log'. start_tty (uart_send_char (\<lambda>_ _ _. True)) (map Inr keys) ((s, log), c) = (Inr (), (s', log'), ctl_stop c) \<and>
      ua_rx s' = ua_rx s @ tty_typed keys) \<and>
   tty_typed (tty_escape bs @ [0x01, 0x78] @ rest) = bs"
  using uart_tty.typed_and_stopped [of keys "(s, log)" c] tty_typed_escape [of bs rest] by auto

end
