(* ===== verification/Vm_Lifetime.thy ===== *)
theory Vm_Lifetime
  imports Vga
begin

text \<open>
  Who keeps what alive: the VM, its guest memory, vcpus and x86 devices, with the descriptors and
  mappings their \<open>Drop\<close> implementations in \<open>src/src/main.rs\<close> close, shared by reference counts
  (\<open>Arc\<close>) between \<open>main\<close>, the vcpu threads of \<open>VM::run\<close>, the threads of the RFB server
  (\<open>frontend/rfb.rs\<close>) and the console thread. The threads of a client outlive the VM.
\<close>

section \<open>Objects and what they own\<close>

datatype obj = OVm | OVcpu nat | ORegion nat | OUart | OI8042 | OVga | OLog | ORing

datatype handle = VmFd | VcpuFd nat | KvmRun nat | Mapping nat | LogFd | RingPage

text \<open>What the boot made: the regions, the one the framebuffer is in, the ring, the vcpus, the options.\<close>

record vm_shape =
  vs_regions :: nat
  vs_framebuffer :: "nat option"
  vs_ring :: bool
  vs_vcpus :: nat
  vs_vnc :: bool

text \<open>The implementations of \<open>Drop\<close>: what each closes or unmaps, in order.\<close>

definition drop_dirty_log :: "handle list" where
  "drop_dirty_log = [LogFd]"

definition drop_coalesced_ring :: "handle list" where
  "drop_coalesced_ring = [RingPage]"

definition drop_mem_region :: "nat \<Rightarrow> handle list" where
  "drop_mem_region i = [Mapping i]"

definition drop_vm :: "handle list" where
  "drop_vm = [VmFd]"

definition drop_vcpu :: "nat \<Rightarrow> bool \<Rightarrow> handle list" where
  "drop_vcpu n mapped = (if mapped then [KvmRun n] else []) @ [VcpuFd n]"

text \<open>A vcpu that \<open>create_vcpu\<close> returned has its \<open>kvm_run\<close> mapped.\<close>

fun releases :: "obj \<Rightarrow> handle list" where
  "releases OVm = drop_vm"
| "releases (OVcpu n) = drop_vcpu n True"
| "releases (ORegion i) = drop_mem_region i"
| "releases OLog = drop_dirty_log"
| "releases ORing = drop_coalesced_ring"
| "releases _ = []"

text \<open>
  The references in the fields of the two structs that have any: the regions, the devices, the
  display and the keyboard of a \<open>VM\<close>; the region, log and ring of the adapter.
\<close>

definition vm_fields :: "vm_shape \<Rightarrow> obj list" where
  "vm_fields S = map ORegion [0..<vs_regions S] @ [OUart, OI8042, OVga] @ [OVga] @ [OI8042]"

definition vga_fields :: "vm_shape \<Rightarrow> obj list" where
  "vga_fields S =
     (case vs_framebuffer S of None \<Rightarrow> [] | Some i \<Rightarrow> [ORegion i, OLog]) @ (if vs_ring S then [ORing] else [])"

definition obj_fields :: "vm_shape \<Rightarrow> obj \<Rightarrow> obj list" where
  "obj_fields S x = (if x = OVm then vm_fields S else if x = OVga then vga_fields S else [])"

text \<open>
  The region \<open>arch_init_io_devices\<close> gives the adapter: the first that covers the framebuffer, if
  guest memory does.
\<close>

definition vga_region :: "guest_memory \<Rightarrow> nat option res" where
  "vga_region mem =
     (case gpa_to_host mem VGA_FRAMEBUFFER VGA_FRAMEBUFFER_SIZE of
        None \<Rightarrow> Inr None
      | Some _ \<Rightarrow> covering_region 0 VGA_FRAMEBUFFER (VGA_FRAMEBUFFER + word_of_nat VGA_FRAMEBUFFER_SIZE) mem)"

definition shape_of :: "guest_memory \<Rightarrow> nat option \<Rightarrow> bool \<Rightarrow> nat \<Rightarrow> bool \<Rightarrow> vm_shape" where
  "shape_of mem region ring vcpus vnc =
     \<lparr>vs_regions = length mem, vs_framebuffer = region, vs_ring = ring, vs_vcpus = vcpus, vs_vnc = vnc\<rparr>"

section \<open>Dropping a reference\<close>

text \<open>
  The last reference to an object drops it: what it owns is released, then its fields are dropped in
  turn. The list holds the references still to drop.
\<close>

fun weight :: "vm_shape \<Rightarrow> obj \<Rightarrow> nat" where
  "weight S OVm = 20 + vs_regions S"
| "weight S OVga = 5"
| "weight S _ = 1"

lemma weight_fields: "sum_list (map (weight S) (obj_fields S x)) < weight S x"
  by (cases x) (auto simp: obj_fields_def vm_fields_def vga_fields_def comp_def sum_list_triv split: option.splits)

function drop_refs :: "vm_shape \<Rightarrow> obj list \<Rightarrow> (obj \<Rightarrow> nat) \<Rightarrow> obj list \<Rightarrow> (obj \<Rightarrow> nat) \<times> obj list" where
  "drop_refs S [] c d = (c, d)"
| "drop_refs S (x # xs) c d =
     (if c x = 1 then drop_refs S (obj_fields S x @ xs) (c(x := 0)) (d @ [x])
      else drop_refs S xs (c(x := c x - 1)) d)"
  by pat_completeness auto
termination
proof (relation "measure (\<lambda>(S, xs, c, d). sum_list (map (weight S) xs))", goal_cases)
  case (2 S x xs c d)
  then show ?case using weight_fields [of S x] by simp
next
  case (3 S x xs c d)
  then show ?case by (cases x) simp_all
qed simp

section \<open>Threads\<close>

text \<open>The threads, and the references each holds.\<close>

datatype holder = HMain | HVcpu nat | HRfb | HClient nat | HUpdates nat | HTty

record life =
  lf_count :: "obj \<Rightarrow> nat"
  lf_dropped :: "obj list"
  lf_held :: "(holder \<times> obj) list"

definition closed :: "life \<Rightarrow> handle list" where
  "closed st = concat (map releases (lf_dropped st))"

definition give :: "holder \<Rightarrow> obj \<Rightarrow> life \<Rightarrow> life" where
  "give h x st = st\<lparr>lf_count := (lf_count st)(x := lf_count st x + 1), lf_held := lf_held st @ [(h, x)]\<rparr>"

definition pass_on :: "holder \<Rightarrow> obj \<Rightarrow> holder \<Rightarrow> life \<Rightarrow> life" where
  "pass_on h x h' st = st\<lparr>lf_held := remove1 (h, x) (lf_held st) @ [(h', x)]\<rparr>"

text \<open>The references that satisfy \<open>P\<close> are dropped, in the order they are held.\<close>

definition let_go :: "vm_shape \<Rightarrow> (holder \<times> obj \<Rightarrow> bool) \<Rightarrow> life \<Rightarrow> life" where
  "let_go S P st =
     (case drop_refs S (map snd (filter P (lf_held st))) (lf_count st) (lf_dropped st) of
        (c, d) \<Rightarrow> st\<lparr>lf_count := c, lf_dropped := d, lf_held := filter (\<lambda>r. \<not> P r) (lf_held st)\<rparr>)"

definition holds_none :: "holder \<Rightarrow> life \<Rightarrow> bool" where
  "holds_none h st \<longleftrightarrow> (\<forall>r\<in>set (lf_held st). fst r \<noteq> h)"

definition refs_count :: "vm_shape \<Rightarrow> (holder \<times> obj) list \<Rightarrow> obj \<Rightarrow> nat" where
  "refs_count S held x = count_list (map snd held) x + count_list (vm_fields S) x + count_list (vga_fields S) x"

text \<open>When \<open>main\<close> comes to run the VM: the console has the UART, the server display and keyboard.\<close>

definition life_new :: "vm_shape \<Rightarrow> life" where
  "life_new S =
     (let held = [(HMain, OVm)] @ map (\<lambda>n. (HMain, OVcpu n)) [0..<vs_vcpus S] @ [(HTty, OUart)] @
            (if vs_vnc S then [(HRfb, OVga), (HRfb, OI8042)] else [])
      in \<lparr>lf_count = refs_count S held, lf_dropped = [], lf_held = held\<rparr>)"

text \<open>
  \<open>VM::run\<close>: a vcpu is spawned with a clone of the VM, or its spawn fails or is not tried after a
  failure and it is dropped; \<open>main\<close> joins the vcpu threads and drops the VM.
\<close>

inductive run_step :: "vm_shape \<Rightarrow> life \<Rightarrow> life \<Rightarrow> bool" for S where
  spawn: "(HMain, OVm) \<in> set (lf_held st) \<Longrightarrow> (HMain, OVcpu n) \<in> set (lf_held st) \<Longrightarrow>
    run_step S st (pass_on HMain (OVcpu n) (HVcpu n) (give (HVcpu n) OVm st))"
| spawn_fails: "(HMain, OVcpu n) \<in> set (lf_held st) \<Longrightarrow> run_step S st (let_go S (\<lambda>r. r = (HMain, OVcpu n)) st)"
| vcpu_ends: "run_step S st (let_go S (\<lambda>r. fst r = (HVcpu n)) st)"
| main_ends: "\<forall>n. (HMain, OVcpu n) \<notin> set (lf_held st) \<Longrightarrow> \<forall>n. holds_none (HVcpu n) st \<Longrightarrow>
    run_step S st (let_go S (\<lambda>r. fst r = HMain) st)"

text \<open>
  \<open>start_rfb\<close>: the accept loop, which never ends, clones display and keyboard for each connection; the
  connection's thread hands the display to its update thread and joins it before it ends.
\<close>

inductive rfb_step :: "vm_shape \<Rightarrow> life \<Rightarrow> life \<Rightarrow> bool" for S where
  accept: "(HRfb, OVga) \<in> set (lf_held st) \<Longrightarrow> (HRfb, OI8042) \<in> set (lf_held st) \<Longrightarrow>
    holds_none (HClient k) st \<Longrightarrow> holds_none (HUpdates k) st \<Longrightarrow>
    rfb_step S st (give (HClient k) OI8042 (give (HClient k) OVga st))"
| serve: "(HClient k, OVga) \<in> set (lf_held st) \<Longrightarrow> rfb_step S st (pass_on (HClient k) OVga (HUpdates k) st)"
| updates_end: "rfb_step S st (let_go S (\<lambda>r. fst r = (HUpdates k)) st)"
| client_ends: "holds_none (HUpdates k) st \<Longrightarrow> rfb_step S st (let_go S (\<lambda>r. fst r = (HClient k)) st)"

text \<open>The console's thread ends too.\<close>

inductive life_step :: "vm_shape \<Rightarrow> life \<Rightarrow> life \<Rightarrow> bool" for S where
  run: "run_step S st st' \<Longrightarrow> life_step S st st'"
| rfb: "rfb_step S st st' \<Longrightarrow> life_step S st st'"
| tty_ends: "life_step S st (let_go S (\<lambda>r. fst r = HTty) st)"

inductive life_reach :: "vm_shape \<Rightarrow> life \<Rightarrow> bool" for S where
  new: "life_reach S (life_new S)"
| step: "life_reach S st \<Longrightarrow> life_step S st st' \<Longrightarrow> life_reach S st'"

section \<open>Counts are right\<close>

definition made :: "vm_shape \<Rightarrow> obj \<Rightarrow> bool" where
  "made S x = (case x of OVcpu n \<Rightarrow> n < vs_vcpus S | ORegion i \<Rightarrow> i < vs_regions S
     | OLog \<Rightarrow> vs_framebuffer S \<noteq> None | ORing \<Rightarrow> vs_ring S | _ \<Rightarrow> True)"

definition owned :: "vm_shape \<Rightarrow> (obj \<Rightarrow> nat) \<Rightarrow> obj \<Rightarrow> nat" where
  "owned S c x = (if 0 < c OVm then count_list (vm_fields S) x else 0) + (if 0 < c OVga then count_list (vga_fields S) x else 0)"

text \<open>
  Each count is the number of references: those held, those in objects not yet dropped, and those
  still to drop. What is dropped is what was made and has no reference left, once each.
\<close>

definition counted :: "vm_shape \<Rightarrow> obj list \<Rightarrow> obj list \<Rightarrow> (obj \<Rightarrow> nat) \<Rightarrow> obj list \<Rightarrow> bool" where
  "counted S held todo c d \<longleftrightarrow>
     (\<forall>x. c x = count_list held x + owned S c x + count_list todo x) \<and> distinct d \<and>
     (\<forall>x. x \<in> set d \<longleftrightarrow> made S x \<and> c x = 0) \<and> (\<forall>x. 0 < c x \<longrightarrow> made S x)"

definition shape_ok :: "vm_shape \<Rightarrow> bool" where
  "shape_ok S \<longleftrightarrow> (\<forall>i. vs_framebuffer S = Some i \<longrightarrow> i < vs_regions S)"

lemma fields_count:
  "count_list (obj_fields S x) y = (if x = OVm then count_list (vm_fields S) y else 0) + (if x = OVga then count_list (vga_fields S) y else 0)"
  by (cases x) (simp_all add: obj_fields_def)

lemma count_upt_region: "count_list (map ORegion [0..<n]) (ORegion i) = (if i < n then 1 else 0)"
  by (induction n) auto

lemma count_upt_other: "(\<And>i. x \<noteq> ORegion i) \<Longrightarrow> count_list (map ORegion [0..<n]) x = 0"
  by (intro count_notin) auto

lemma vm_fields_not_vm: "count_list (vm_fields S) OVm = 0" "count_list (vga_fields S) OVm = 0" "count_list (vga_fields S) OVga = 0"
  by (intro count_notin; auto simp: vm_fields_def vga_fields_def split: option.splits)+

lemma counted_facts:
  assumes "counted S held todo c d"
  shows "c x = count_list held x + owned S c x + count_list todo x" and "distinct d"
    and "x \<in> set d \<longleftrightarrow> made S x \<and> c x = 0" and "0 < c x \<Longrightarrow> made S x"
  using assms unfolding counted_def by blast+

lemma countedI:
  assumes "\<And>x. c x = count_list held x + owned S c x + count_list todo x" and "distinct d"
    and "\<And>x. x \<in> set d \<longleftrightarrow> made S x \<and> c x = 0" and "\<And>x. 0 < c x \<Longrightarrow> made S x"
  shows "counted S held todo c d"
  unfolding counted_def using assms by blast

lemma counted_last:
  assumes inv: "counted S held (x # todo) c d" and x: "c x = 1"
  shows "counted S held (obj_fields S x @ todo) (c(x := 0)) (d @ [x])"
proof (rule countedI)
  note eq = counted_facts(1) [OF inv] and d = counted_facts(2-4) [OF inv]
  have self: "count_list held x = 0" "owned S c x = 0" "count_list todo x = 0" using eq [of x] x by simp_all
  have own: "owned S c y = owned S (c(x := 0)) y + count_list (obj_fields S x) y" for y
    using x unfolding owned_def fields_count by auto
  show "(c(x := 0)) y = count_list held y + owned S (c(x := 0)) y + count_list (obj_fields S x @ todo) y" for y
    using eq [of y] own [of y] self own [of x] by (cases "y = x") auto
  show "distinct (d @ [x])" using d(1) d(2) [of x] x by simp
  show "y \<in> set (d @ [x]) \<longleftrightarrow> made S y \<and> (c(x := 0)) y = 0" for y
    using d(2) [of y] d(3) [of x] x by (cases "y = x") simp_all
  show "0 < (c(x := 0)) y \<Longrightarrow> made S y" for y using d(3) [of y] by (cases "y = x") simp_all
qed

lemma counted_more:
  assumes inv: "counted S held (x # todo) c d" and x: "c x \<noteq> 1"
  shows "counted S held todo (c(x := c x - 1)) d"
proof (rule countedI)
  note eq = counted_facts(1) [OF inv] and d = counted_facts(2-4) [OF inv]
  have pos: "1 < c x" using eq [of x] x by simp
  then have own: "owned S (c(x := c x - 1)) y = owned S c y" for y by (auto simp: owned_def)
  show "(c(x := c x - 1)) y = count_list held y + owned S (c(x := c x - 1)) y + count_list todo y" for y
    unfolding own using eq [of y] by (cases "y = x") auto
  show "distinct d" by (rule d(1))
  show "y \<in> set d \<longleftrightarrow> made S y \<and> (c(x := c x - 1)) y = 0" for y
    using d(2) [of y] pos by (cases "y = x") auto
  show "0 < (c(x := c x - 1)) y \<Longrightarrow> made S y" for y using d(3) [of y] pos by (cases "y = x") auto
qed

lemma drop_refs_counted:
  assumes "counted S held todo c d" and "drop_refs S todo c d = (c', d')"
  shows "counted S held [] c' d'"
  using assms
proof (induction S todo c d rule: drop_refs.induct)
  case (2 S x xs c d)
  show ?case
  proof (cases "c x = 1")
    case True
    then have "drop_refs S (obj_fields S x @ xs) (c(x := 0)) (d @ [x]) = (c', d')" using 2(4) by simp
    then show ?thesis by (rule 2(1) [OF True counted_last [OF 2(3) True]])
  next
    case False
    then have "drop_refs S xs (c(x := c x - 1)) d = (c', d')" using 2(4) by simp
    then show ?thesis by (rule 2(2) [OF False counted_more [OF 2(3) False]])
  qed
qed simp

section \<open>Every run\<close>

definition life_ok :: "vm_shape \<Rightarrow> life \<Rightarrow> bool" where
  "life_ok S st \<longleftrightarrow> counted S (map snd (lf_held st)) [] (lf_count st) (lf_dropped st)"

lemma count_held_pos: "(h, x) \<in> set held \<Longrightarrow> 0 < count_list (map snd held) x"
  by (induction held) auto

lemma held_alive:
  assumes "life_ok S st" and "(h, x) \<in> set (lf_held st)"
  shows "0 < lf_count st x" and "x \<notin> set (lf_dropped st)"
  using count_held_pos [OF assms(2)] counted_facts(1,3) [OF assms(1) [unfolded life_ok_def], of x] by simp_all

lemma life_ok_new:
  assumes "shape_ok S"
  shows "life_ok S (life_new S)"
proof -
  define held where "held = lf_held (life_new S)"
  let ?c = "refs_count S held"
  have st: "lf_count (life_new S) = ?c" "lf_dropped (life_new S) = []"
    by (simp_all add: life_new_def held_def Let_def)
  have set_held: "snd ` set held = {OVm, OUart} \<union> OVcpu ` {..<vs_vcpus S} \<union> (if vs_vnc S then {OVga, OI8042} else {})"
    unfolding held_def life_new_def Let_def life.select_convs by (cases "vs_vnc S") (simp_all add: image_image image_Un lessThan_atLeast0 insert_commute Un_insert_left)
  have pos: "0 < ?c x \<longleftrightarrow> x \<in> snd ` set held \<or> x \<in> set (vm_fields S) \<or> x \<in> set (vga_fields S)" for x
    by (auto simp: refs_count_def count_list_0_iff simp flip: set_map neq0_conv)
  have pos_made: "0 < ?c x \<longleftrightarrow> made S x" for x
    unfolding pos set_held using assms
    by (cases x; cases "vs_framebuffer S") (auto simp: made_def vm_fields_def vga_fields_def shape_ok_def)
  show ?thesis
    unfolding life_ok_def st held_def [symmetric]
  proof (rule countedI)
    have "made S OVm" "made S OVga" by (simp_all add: made_def)
    then show "?c x = count_list (map snd held) x + owned S ?c x + count_list [] x" for x
      using pos_made [of OVm] pos_made [of OVga] by (simp add: owned_def) (simp add: refs_count_def)
    show "x \<in> set [] \<longleftrightarrow> made S x \<and> ?c x = 0" for x using pos_made [of x] by auto
    show "0 < ?c x \<Longrightarrow> made S x" for x using pos_made [of x] by simp
  qed simp
qed

lemma life_ok_give:
  assumes inv: "life_ok S st" and x: "(h, x) \<in> set (lf_held st)"
  shows "life_ok S (give h' x st)"
  unfolding life_ok_def
proof (rule countedI)
  note f = counted_facts [OF inv [unfolded life_ok_def]]
  let ?c = "lf_count st" and ?c' = "lf_count (give h' x st)"
  have pos: "0 < ?c x" by (rule held_alive(1) [OF inv x])
  have c': "?c' y = (if y = x then ?c x + 1 else ?c y)" for y by (simp add: give_def)
  have own: "owned S ?c' y = owned S ?c y" for y using pos by (auto simp: owned_def c')
  show "?c' y = count_list (map snd (lf_held (give h' x st))) y + owned S ?c' y + count_list [] y" for y
    unfolding own c' using f(1) [of y] by (auto simp: give_def)
  show "distinct (lf_dropped (give h' x st))" using f(2) by (simp add: give_def)
  show "y \<in> set (lf_dropped (give h' x st)) \<longleftrightarrow> made S y \<and> ?c' y = 0" for y
    unfolding c' using f(3) [of y] pos by (auto simp: give_def)
  show "0 < ?c' y \<Longrightarrow> made S y" for y unfolding c' using f(4) [of y] pos by (auto split: if_splits)
qed

lemma count_moved:
  "(h, x) \<in> set held \<Longrightarrow> count_list (map snd (remove1 (h, x) held @ [(h', x)])) y = count_list (map snd held) y"
  by (induction held) auto

lemma life_ok_pass_on:
  assumes "life_ok S st" and "(h, x) \<in> set (lf_held st)"
  shows "life_ok S (pass_on h x h' st)"
  using assms(1) unfolding life_ok_def counted_def pass_on_def by (simp add: count_moved [OF assms(2)] del: map_append)

lemma count_split: "count_list (map snd held) x =
    count_list (map snd (filter (\<lambda>r. \<not> P r) held)) x + count_list (map snd (filter P held)) x"
  by (induction held) auto

lemma life_ok_let_go:
  assumes "life_ok S st"
  shows "life_ok S (let_go S P st)"
proof -
  obtain c d where cd: "drop_refs S (map snd (filter P (lf_held st))) (lf_count st) (lf_dropped st) = (c, d)" by force
  have "counted S (map snd (filter (\<lambda>r. \<not> P r) (lf_held st))) (map snd (filter P (lf_held st))) (lf_count st) (lf_dropped st)"
    using assms count_split [of "lf_held st" _ P] unfolding life_ok_def counted_def by simp
  from drop_refs_counted [OF this cd] show ?thesis by (simp add: life_ok_def let_go_def cd)
qed

lemma life_ok_run: "run_step S st st' \<Longrightarrow> life_ok S st \<Longrightarrow> life_ok S st'"
proof (induction rule: run_step.induct)
  case (spawn st n)
  then show ?case
    using life_ok_pass_on [OF life_ok_give [OF spawn.prems spawn.hyps(1)], of HMain "OVcpu n" "HVcpu n" "HVcpu n"]
    by (simp add: give_def)
qed (auto intro: life_ok_let_go)

lemma life_ok_rfb: "rfb_step S st st' \<Longrightarrow> life_ok S st \<Longrightarrow> life_ok S st'"
proof (induction rule: rfb_step.induct)
  case (accept st k)
  then show ?case
    using life_ok_give [OF life_ok_give [OF accept.prems accept.hyps(1)], of HRfb OI8042 "HClient k" "HClient k"]
    by (simp add: give_def)
qed (auto intro: life_ok_let_go life_ok_pass_on)

lemma life_ok_step: "life_step S st st' \<Longrightarrow> life_ok S st \<Longrightarrow> life_ok S st'"
  by (auto elim!: life_step.cases intro: life_ok_run life_ok_rfb life_ok_let_go)

lemma life_reach_ok: "life_reach S st \<Longrightarrow> shape_ok S \<Longrightarrow> life_ok S st"
  by (induction rule: life_reach.induct) (auto intro: life_ok_new life_ok_step)

section \<open>What is closed, and when\<close>

lemma releases_iff:
  "VmFd \<in> set (releases x) \<longleftrightarrow> x = OVm" "VcpuFd n \<in> set (releases x) \<longleftrightarrow> x = OVcpu n"
  "KvmRun n \<in> set (releases x) \<longleftrightarrow> x = OVcpu n" "Mapping i \<in> set (releases x) \<longleftrightarrow> x = ORegion i"
  "LogFd \<in> set (releases x) \<longleftrightarrow> x = OLog" "RingPage \<in> set (releases x) \<longleftrightarrow> x = ORing"
  by (cases x; auto simp: drop_vm_def drop_vcpu_def drop_mem_region_def drop_dirty_log_def drop_coalesced_ring_def)+

lemma closed_iff: "h \<in> set (closed st) \<longleftrightarrow> (\<exists>x\<in>set (lf_dropped st). h \<in> set (releases x))"
  by (auto simp: closed_def)

lemma distinct_releases: "distinct xs \<Longrightarrow> distinct (concat (map releases xs))"
proof (induction xs)
  case (Cons x xs)
  have "set (releases x) \<inter> set (releases y) = {}" if "y \<noteq> x" for y
  proof -
    have "h \<in> set (releases x) \<Longrightarrow> h \<notin> set (releases y)" for h using that by (cases h) (simp_all add: releases_iff)
    then show ?thesis by blast
  qed
  moreover have "distinct (releases x)"
    by (cases x) (simp_all add: drop_vm_def drop_vcpu_def drop_mem_region_def drop_dirty_log_def drop_coalesced_ring_def)
  moreover have "\<forall>y\<in>set xs. y \<noteq> x" using Cons.prems by auto
  ultimately show ?case using Cons by simp blast
qed simp

text \<open>What an object owns lives while it does.\<close>

lemma owned_alive:
  assumes "life_ok S st" and "0 < lf_count st x" and "y \<in> set (obj_fields S x)"
  shows "0 < lf_count st y" and "y \<notin> set (lf_dropped st)"
proof -
  have "0 < count_list (obj_fields S x) y" using assms(3) by (meson count_list_0_iff gr0I)
  then have "0 < owned S (lf_count st) y" using assms(2) unfolding fields_count owned_def by (auto split: if_splits)
  then show "0 < lf_count st y" "y \<notin> set (lf_dropped st)"
    using counted_facts(1,3) [OF assms(1) [unfolded life_ok_def], of y] by simp_all
qed

lemma first_covering:
  assumes "\<forall>r\<in>set mem. mem_size r < 2 ^ 64" and "gpa_to_host_from k mem gpa len = Some p"
    and "covering_region k gpa end' mem = Inr i" and "unat gpa + len = unat end'"
  shows "i = Some (fst p)"
  using assms
proof (induction mem arbitrary: k)
  case (Cons r rs)
  have sz: "unat (word_of_nat (mem_size r) :: u64) = mem_size r"
    using Cons.prems(1) by (simp add: unsigned_of_nat take_bit_nat_eq_self)
  obtain b where b: "region_covers gpa end' r = Inr b" using Cons.prems(3) by (auto simp: res_simps)
  have "b \<longleftrightarrow> region_offset r gpa len \<noteq> None"
    using b Cons.prems(4) sz
    by (auto simp: region_covers_def region_offset_def checked_sub_def res_simps checked_add_def word_le_nat_alt
        unat_sub_no_borrow unat_add_no_overflow Let_def split: if_splits)
  then show ?case
    using Cons b by (cases "region_offset r gpa len") (auto simp: region_offset_def Let_def split: option.splits if_splits)
qed simp

lemma covering_bound: "covering_region k start end' mem = Inr (Some i) \<Longrightarrow> k \<le> i \<and> i < k + length mem"
  by (induction mem arbitrary: k) (fastforce simp: res_simps split: if_splits)+

lemma vga_region_ok:
  assumes "\<forall>r\<in>set mem. mem_size r < 2 ^ 64" and "vga_region mem = Inr region"
  shows "region = map_option fst (gpa_to_host mem VGA_FRAMEBUFFER VGA_FRAMEBUFFER_SIZE)"
    and "shape_ok (shape_of mem region ring vcpus vnc)"
proof -
  show "region = map_option fst (gpa_to_host mem VGA_FRAMEBUFFER VGA_FRAMEBUFFER_SIZE)"
  proof (cases "gpa_to_host mem VGA_FRAMEBUFFER VGA_FRAMEBUFFER_SIZE")
    case (Some p)
    then show ?thesis
      using first_covering [OF assms(1), of 0 VGA_FRAMEBUFFER VGA_FRAMEBUFFER_SIZE p "VGA_FRAMEBUFFER + word_of_nat VGA_FRAMEBUFFER_SIZE" region]
        assms(2) by (simp add: vga_region_def gpa_to_host_def)
  qed (use assms(2) in \<open>simp add: vga_region_def\<close>)
  show "shape_ok (shape_of mem region ring vcpus vnc)"
    using assms(2) covering_bound [of 0 VGA_FRAMEBUFFER _ mem]
    by (auto simp: shape_ok_def shape_of_def vga_region_def split: option.splits)
qed

lemma closed_handles:
  "VmFd \<in> set (closed st) \<longleftrightarrow> OVm \<in> set (lf_dropped st)" "VcpuFd n \<in> set (closed st) \<longleftrightarrow> OVcpu n \<in> set (lf_dropped st)"
  "KvmRun n \<in> set (closed st) \<longleftrightarrow> OVcpu n \<in> set (lf_dropped st)"
  "Mapping i \<in> set (closed st) \<longleftrightarrow> ORegion i \<in> set (lf_dropped st)"
  "LogFd \<in> set (closed st) \<longleftrightarrow> OLog \<in> set (lf_dropped st)" "RingPage \<in> set (closed st) \<longleftrightarrow> ORing \<in> set (lf_dropped st)"
  by (auto simp: closed_iff releases_iff)

lemma all_dropped:
  assumes "life_ok S st" and "lf_held st = []" and "made S x"
  shows "x \<in> set (lf_dropped st)"
proof -
  note f = counted_facts [OF assms(1) [unfolded life_ok_def]]
  have "owned S (lf_count st) OVm = 0" by (simp add: owned_def vm_fields_not_vm)
  then have vm: "lf_count st OVm = 0" using f(1) [of OVm] assms(2) by simp
  then have "owned S (lf_count st) OVga = 0" by (simp add: owned_def vm_fields_not_vm)
  then have vga: "lf_count st OVga = 0" using f(1) [of OVga] assms(2) by simp
  have "owned S (lf_count st) x = 0" by (simp add: owned_def vm vga)
  then have "lf_count st x = 0" using f(1) [of x] assms(2) by simp
  then show ?thesis using f(3) [of x] assms(3) by simp
qed

lemma held_simps [simp]:
  "lf_held (give h x st) = lf_held st @ [(h, x)]"
  "lf_held (pass_on h x h' st) = remove1 (h, x) (lf_held st) @ [(h', x)]"
  "lf_held (let_go S P st) = filter (\<lambda>r. \<not> P r) (lf_held st)"
  by (simp_all add: give_def pass_on_def let_go_def split: prod.splits)

text \<open>
  A run with one vcpu and a VNC client: the client connects, the vcpu runs and ends, \<open>main\<close> drops the
  VM; the client is still there.
\<close>

definition demo_shape :: vm_shape where
  "demo_shape = \<lparr>vs_regions = 1, vs_framebuffer = Some 0, vs_ring = True, vs_vcpus = 1, vs_vnc = True\<rparr>"

lemma client_outlives_vm:
  "\<exists>st. life_reach demo_shape st \<and> (HClient 0, OVga) \<in> set (lf_held st) \<and> (HClient 0, OI8042) \<in> set (lf_held st) \<and>
    VmFd \<in> set (closed st)"
proof -
  let ?S = demo_shape
  define a where "a = give (HClient 0) OI8042 (give (HClient 0) OVga (life_new ?S))"
  define b where "b = pass_on HMain (OVcpu 0) (HVcpu 0) (give (HVcpu 0) OVm a)"
  define c where "c = let_go ?S (\<lambda>r. fst r = HVcpu 0) b"
  define d where "d = let_go ?S (\<lambda>r. fst r = HMain) c"
  have n: "lf_held (life_new ?S) = [(HMain, OVm), (HMain, OVcpu 0), (HTty, OUart), (HRfb, OVga), (HRfb, OI8042)]"
    by (simp add: life_new_def demo_shape_def Let_def)
  have a: "lf_held a = [(HMain, OVm), (HMain, OVcpu 0), (HTty, OUart), (HRfb, OVga), (HRfb, OI8042),
      (HClient 0, OVga), (HClient 0, OI8042)]"
    by (simp add: a_def n)
  have b: "lf_held b = [(HMain, OVm), (HTty, OUart), (HRfb, OVga), (HRfb, OI8042),
      (HClient 0, OVga), (HClient 0, OI8042), (HVcpu 0, OVm), (HVcpu 0, OVcpu 0)]"
    by (simp add: b_def a)
  have c: "lf_held c = [(HMain, OVm), (HTty, OUart), (HRfb, OVga), (HRfb, OI8042), (HClient 0, OVga), (HClient 0, OI8042)]"
    by (simp add: c_def b)
  have d: "lf_held d = [(HTty, OUart), (HRfb, OVga), (HRfb, OI8042), (HClient 0, OVga), (HClient 0, OI8042)]"
    by (simp add: d_def c)
  have "life_step ?S (life_new ?S) a" unfolding a_def by (rule life_step.rfb, rule rfb_step.accept) (simp_all add: n holds_none_def)
  moreover have "life_step ?S a b" unfolding b_def by (rule life_step.run, rule run_step.spawn) (simp_all add: a)
  moreover have "life_step ?S b c" unfolding c_def by (rule life_step.run, rule run_step.vcpu_ends)
  moreover have "life_step ?S c d" unfolding d_def by (rule life_step.run, rule run_step.main_ends) (simp_all add: c holds_none_def)
  ultimately have r: "life_reach ?S d" by (meson life_reach.intros)
  have ok: "life_ok ?S d" by (rule life_reach_ok [OF r]) (simp add: shape_ok_def demo_shape_def)
  note f = counted_facts [OF ok [unfolded life_ok_def]]
  have "owned ?S (lf_count d) OVm = 0" by (simp add: owned_def vm_fields_not_vm)
  then have "lf_count d OVm = 0" using f(1) [of OVm] by (simp add: d)
  then have "VmFd \<in> set (closed d)" using f(3) [of OVm] by (simp add: closed_handles made_def)
  then show ?thesis using r d by (intro exI [of _ d]) simp
qed

text \<open>
  C35. Nothing is used after it is closed, and nothing leaks: in every interleaving of vcpu threads,
  VNC clients and console with the end of \<open>main\<close>, while any thread can render from the adapter the
  region its framebuffer points into is mapped, its dirty log is open and its ring is mapped, even
  after the VM is gone; while any thread has the VM, its descriptor is open and all guest memory is
  mapped; a vcpu's descriptor and \<open>kvm_run\<close> live as long as its thread has it. Every descriptor and
  mapping is closed at most once, and once no thread has a reference all of them are.
\<close>

theorem handles_outlive_users:
  assumes "life_reach (shape_of mem region ring vcpus vnc) st" and "\<forall>r\<in>set mem. mem_size r < 2 ^ 64"
    and "vga_region mem = Inr region"
  shows "((h, OVga) \<in> set (lf_held st) \<longrightarrow> LogFd \<notin> set (closed st) \<and> RingPage \<notin> set (closed st) \<and>
      (\<forall>p. gpa_to_host mem VGA_FRAMEBUFFER VGA_FRAMEBUFFER_SIZE = Some p \<longrightarrow> Mapping (fst p) \<notin> set (closed st))) \<and>
    ((h, OVm) \<in> set (lf_held st) \<longrightarrow> VmFd \<notin> set (closed st) \<and> (\<forall>i<length mem. Mapping i \<notin> set (closed st))) \<and>
    ((h, OVcpu n) \<in> set (lf_held st) \<longrightarrow> VcpuFd n \<notin> set (closed st) \<and> KvmRun n \<notin> set (closed st)) \<and>
    distinct (closed st) \<and>
    (lf_held st = [] \<longrightarrow> VmFd \<in> set (closed st) \<and> (\<forall>i<length mem. Mapping i \<in> set (closed st)) \<and>
      (\<forall>i<vcpus. VcpuFd i \<in> set (closed st) \<and> KvmRun i \<in> set (closed st)) \<and>
      (region \<noteq> None \<longrightarrow> LogFd \<in> set (closed st)) \<and> (ring \<longrightarrow> RingPage \<in> set (closed st)))"
proof -
  let ?S = "shape_of mem region ring vcpus vnc"
  have ok: "life_ok ?S st" by (rule life_reach_ok [OF assms(1) vga_region_ok(2) [OF assms(2,3)]])
  note made = iffD1 [OF counted_facts(3) [OF ok [unfolded life_ok_def]], THEN conjunct1]
    and alive = held_alive [OF ok] and owned = owned_alive(2) [OF ok] and gone = all_dropped [OF ok]
  have vga: "OLog \<notin> set (lf_dropped st)" "ORing \<notin> set (lf_dropped st)"
      "gpa_to_host mem VGA_FRAMEBUFFER VGA_FRAMEBUFFER_SIZE = Some p \<Longrightarrow> ORegion (fst p) \<notin> set (lf_dropped st)"
    if "(h, OVga) \<in> set (lf_held st)" for p
    using owned [OF alive(1) [OF that]] made [of OLog] made [of ORing] vga_region_ok(1) [OF assms(2,3)]
    by (auto simp: obj_fields_def vga_fields_def shape_of_def made_def)
  have vm: "ORegion i \<notin> set (lf_dropped st)" if "(h, OVm) \<in> set (lf_held st)" "i < length mem" for i
    using owned [OF alive(1) [OF that(1)]] that(2) by (simp add: obj_fields_def vm_fields_def shape_of_def)
  have d: "distinct (closed st)"
    unfolding closed_def by (rule distinct_releases [OF counted_facts(2) [OF ok [unfolded life_ok_def]]])
  have "x \<in> set (lf_dropped st)" if "lf_held st = []" "made ?S x" for x by (rule gone [OF that])
  then show ?thesis
    unfolding closed_handles using vga vm alive(2) d by (auto simp: made_def shape_of_def)
qed

text \<open>The client of the run above still finds the framebuffer, the log and the ring.\<close>

theorem handles_outlive_users_witness:
  "\<exists>st. VmFd \<in> set (closed st) \<and> (HClient 0, OVga) \<in> set (lf_held st) \<and>
    Mapping 0 \<notin> set (closed st) \<and> LogFd \<notin> set (closed st) \<and> RingPage \<notin> set (closed st)"
proof -
  let ?mem = "[\<lparr>mem_ptr = 0x70000000, mem_size = 0x200000, guest_phys_addr = 0, slot = None\<rparr>]"
  have shape: "demo_shape = shape_of ?mem (Some 0) True 1 True" by (simp add: demo_shape_def shape_of_def)
  have fb: "gpa_to_host ?mem VGA_FRAMEBUFFER VGA_FRAMEBUFFER_SIZE = Some (0, 0xa0000)"
    by (simp add: gpa_to_host_def region_offset_def checked_sub_def)
  have reg: "vga_region ?mem = Inr (Some 0)"
    unfolding vga_region_def fb by (simp add: region_covers_def checked_add_def overflow_panic_def)
  have sz: "\<forall>r\<in>set ?mem. mem_size r < 2 ^ 64" by simp
  obtain st where st: "life_reach demo_shape st" "(HClient 0, OVga) \<in> set (lf_held st)" "VmFd \<in> set (closed st)"
    using client_outlives_vm by blast
  have "Mapping 0 \<notin> set (closed st) \<and> LogFd \<notin> set (closed st) \<and> RingPage \<notin> set (closed st)"
    using handles_outlive_users [OF st(1) [unfolded shape] sz reg, of "HClient 0"] st(2) fb by auto
  then show ?thesis using st by blast
qed

end
