(* ===== verification/Repo_Tests.thy ===== *)
theory Repo_Tests
  imports I8042 Vnc_Display
begin

text \<open>
  The repository's own unit tests (the modules \<open>tests\<close> of \<open>i8042.rs\<close>, \<open>vga.rs\<close> and \<open>rfb.rs\<close>) run
  against the model: each test is a Boolean with one conjunct an \<open>assert\<close>, and a lemma says that
  the model passes it. What a test leaves to the machine (the clock, the size of the ring) is an
  argument, and the tests pass for all its values.
\<close>

section \<open>Keysyms\<close>

definition keysyms_test :: bool where
  "keysyms_test \<longleftrightarrow>
     keysym_to_set1 0x61 = Some (False, 0x1e) \<and>
     keysym_to_set1 0x5a = Some (False, 0x2c) \<and>
     keysym_to_set1 0x6d = Some (False, 0x32) \<and>
     keysym_to_set1 0x31 = Some (False, 0x02) \<and>
     keysym_to_set1 0x30 = Some (False, 0x0b) \<and>
     keysym_to_set1 0x21 = Some (False, 0x02) \<and>
     keysym_to_set1 0xffbe = Some (False, 0x3b) \<and>
     keysym_to_set1 0xffc7 = Some (False, 0x44) \<and>
     keysym_to_set1 0xff52 = Some (True, 0x48) \<and>
     keysym_to_set1 0xffe4 = Some (True, 0x1d) \<and>
     keysym_to_set1 0x1234 = None"

lemma keysyms_pass: "keysyms_test"
  unfolding keysyms_test_def by (intro conjI; code_simp)

section \<open>The adapter\<close>

text \<open>A vector of the host, here all of region 0, is the framebuffer.\<close>

definition vga_writes :: "(u16 \<times> u8) list \<Rightarrow> vga \<Rightarrow> vga" where
  "vga_writes ws v = foldl (\<lambda>v (port, b). vga_write port b v) v ws"

fun vga_reads :: "nat \<Rightarrow> u16 list \<Rightarrow> vga \<Rightarrow> u8 list \<times> vga" where
  "vga_reads ns [] v = ([], v)"
| "vga_reads ns (port # ports) v =
     (case vga_read ns port v of (b, v) \<Rightarrow> (case vga_reads ns ports v of (bs, v) \<Rightarrow> (b # bs, v)))"

text \<open>The palette is set from entry 1 on and read from entry 2 on; then the display is turned on.\<close>

definition mode13h_adapter :: "u8 list \<Rightarrow> nat \<Rightarrow> vga \<Rightarrow> u8 list \<times> vga" where
  "mode13h_adapter colours ns v = vga_reads ns [DAC_READ_INDEX, DAC_DATA, DAC_DATA, DAC_DATA]
     (vga_writes ([(DAC_WRITE_INDEX, 1)] @ map (Pair DAC_DATA) colours @ [(DAC_READ_INDEX, 2)]) v)"

definition mode13h_turn_on :: "nat \<Rightarrow> vga \<Rightarrow> u8 \<times> vga" where
  "mode13h_turn_on ns v =
     (let v = snd (vga_read ns INSTAT_READ v);
          v = vga_writes [(AC_INDEX, 0x10), (AC_INDEX, 0x41)] v;
          (ac, v) = vga_read ns AC_READ v
      in (ac, vga_write AC_INDEX AC_PAS (snd (vga_read ns INSTAT_READ v))))"

definition mode13h_test :: "u32 \<Rightarrow> nat \<Rightarrow> u64 list res \<Rightarrow> bool" where
  "mode13h_test entries ns fetched =
     (let fb = (\<lambda>region i. if i = 0 then 1 else if i = VGA_FRAMEBUFFER_SIZE - 1 then 2 else 0) :: ram;
          vga = vga_new (Some (0, 0)) False None;
          out = replicate VGA_FRAMEBUFFER_SIZE 0x123456;
          (bytes, vga) = mode13h_adapter [0x3f, 0x00, 0x20, 0x00, 0x3f, 0x01] ns vga
      in bytes = [DAC_STATE_READ, 0x00, 0x3f, 0x01] \<and>
         (case vga_render entries fetched fb out 0 vga of
            Some (Inr (rows, out, seen), vga) \<Rightarrow>
              rows = Some (0, HEIGHT) \<and> list_all (\<lambda>p. p = 0) out \<and>
              (let (ac, vga) = mode13h_turn_on ns vga
               in ac = 0x41 \<and>
                  (case vga_render entries fetched fb out seen vga of
                     Some (Inr (rows, out, seen), vga) \<Rightarrow>
                       out ! 0 = 0xff0082 \<and> out ! 1 = 0 \<and> out ! (VGA_FRAMEBUFFER_SIZE - 1) = 0x00ff04
                   | _ \<Rightarrow> False))
          | _ \<Rightarrow> False))"

text \<open>A frame that sends every page.\<close>

definition sends_all :: "nat \<Rightarrow> nat \<Rightarrow> vga \<Rightarrow> bool" where
  "sends_all n seen v \<longleftrightarrow> seen = 0 \<or> seen \<le> n \<and> (vg_repaint v \<or> vg_framebuffer v \<noteq> None \<and> \<not> vg_has_log v)"

lemma sends_all_changed:
  assumes "sends_all (length h) seen v"
  shows "changed_since seen (h @ [frame_dirty fetched v]) \<supseteq> {..<FRAMEBUFFER_PAGES}"
proof -
  have "list_all (page_bit [NOT 0]) [0..<16]" by code_simp
  then have "page_bit [NOT 0] p" if "p < 16" for p using that by (auto simp: list_all_iff simp del: upt_Suc)
  then have "frame_dirty fetched v = {..<FRAMEBUFFER_PAGES}" if "seen \<noteq> 0"
    using assms that by (auto simp: sends_all_def frame_dirty_def vga_bitmap_def)
  then show ?thesis using assms by (auto simp: changed_since_def sends_all_def)
qed

lemma all_pages:
  assumes "vga_reach h v" and "{..<FRAMEBUFFER_PAGES} \<subseteq> changed_since seen (h @ [frame_dirty fetched v])"
  shows "fst (written_pages fetched seen v) = Some (0, 16)" and "vg_frame (snd (written_pages fetched seen v)) = length h + 1"
proof -
  let ?c = "changed_since seen (h @ [frame_dirty fetched v])"
  have c: "?c = {..<FRAMEBUFFER_PAGES}" using assms(2) changed_since_bounds(1) [OF assms(1)] by auto
  have "Min {..<FRAMEBUFFER_PAGES} = 0" "Max {..<FRAMEBUFFER_PAGES} = 15"
    by (auto intro!: Min_eqI Max_eqI)
  then show "fst (written_pages fetched seen v) = Some (0, 16)" "vg_frame (snd (written_pages fetched seen v)) = length h + 1"
    using vga_frame_changes [OF assms(1), of fetched seen] unfolding c by (simp_all add: Let_def lessThan_empty_iff)
qed

lemmas sends_all_pages = all_pages [OF _ sends_all_changed]

definition shown :: "ram \<Rightarrow> vga \<Rightarrow> (nat \<Rightarrow> u8) option" where
  "shown m v = (if vg_ac_index v AND AC_PAS \<noteq> 0 then map_option (\<lambda>p i. m (fst p) (snd p + i)) (vg_framebuffer v) else None)"

lemma render_all:
  assumes "vga_reach h v" and "sends_all (length h) seen v" and "vg_dac_writes v = None"
  shows "vga_render entries fetched m out seen v = Some (Inr (Some (0, HEIGHT),
    vga_draw (shown m v) (palette_rgb v) (0, HEIGHT) out, length h + 1), snd (written_pages fetched seen v))"
proof -
  obtain v' where w: "written_pages fetched seen v = (Some (0, 16), v')" and v': "v' = snd (written_pages fetched seen v)"
    using sends_all_pages(1) [OF assms(1,2), of fetched] by (simp add: prod_eq_iff)
  have f: "vg_frame v' = length h + 1" using sends_all_pages(2) [OF assms(1,2)] v' by simp
  have k: "vg_ac_index v' = vg_ac_index v" "vg_framebuffer v' = vg_framebuffer v" "palette_rgb v' = palette_rgb v"
    by (simp_all add: v' written_pages_keeps palette_rgb_def)
  show ?thesis
    using assms(3) by (simp add: vga_render_def apply_queued_writes_def w f k shown_def Let_def vga_rows_def)
qed

lemma reach_writes: "vga_reach h v \<Longrightarrow> vga_reach h (vga_writes ws v)"
proof (induction ws arbitrary: v)
  case (Cons w ws)
  then show ?case using Cons.IH [OF vga_reach.wr [OF Cons.prems, of "fst w" "snd w"]] by (simp add: vga_writes_def case_prod_beta)
qed (simp add: vga_writes_def)

lemma reach_reads: "vga_reach h v \<Longrightarrow> vga_reach h (snd (vga_reads ns ports v))"
proof (induction ports arbitrary: v)
  case (Cons port ports)
  then show ?case using Cons.IH [OF vga_reach.rd [OF Cons.prems, of ns port]] by (simp add: case_prod_beta)
qed simp

lemma mode13h_palette:
  assumes "mode13h_adapter [0x3f, 0x00, 0x20, 0x00, 0x3f, 0x01] ns (vga_new fb False None) = (bs, v)"
  shows "bs = [DAC_STATE_READ, 0x00, 0x3f, 0x01] \<and> vga_reach [] v \<and> vg_palette v ! 0 = [0, 0, 0] \<and>
    vg_palette v ! 1 = [0x3f, 0, 0x20] \<and> vg_palette v ! 2 = [0, 0x3f, 1] \<and> vg_ac_index v = 0 \<and>
    length (vg_palette v) = 256 \<and> vg_framebuffer v = fb \<and> vg_dac_writes v = None \<and> \<not> vg_has_log v"
proof -
  have v: "v = snd (mode13h_adapter [0x3f, 0x00, 0x20, 0x00, 0x3f, 0x01] ns (vga_new fb False None))"
    and bs: "bs = fst (mode13h_adapter [0x3f, 0x00, 0x20, 0x00, 0x3f, 0x01] ns (vga_new fb False None))"
    using assms by simp_all
  have "vga_reach [] v"
    unfolding v mode13h_adapter_def by (intro reach_reads reach_writes vga_reach.new)
  moreover have "replicate 3 (0 :: u8) = [0, 0, 0]" by (simp add: numeral_3_eq_3)
  ultimately show ?thesis
    unfolding v bs mode13h_adapter_def
    by (simp add: vga_writes_def vga_read_def vga_write_def vga_new_def dac_next_def)
qed

lemma mode13h_on:
  assumes "mode13h_turn_on ns v = (ac, v')" and "vga_reach h v" and "vg_ac_index v AND AC_PAS = 0"
  shows "ac = 0x41 \<and> vga_reach h v' \<and> vg_ac_index v' = AC_PAS \<and> palette_rgb v' = palette_rgb v \<and>
    vg_framebuffer v' = vg_framebuffer v \<and> vg_dac_writes v' = vg_dac_writes v \<and> vg_has_log v' = vg_has_log v"
proof -
  have v': "v' = snd (mode13h_turn_on ns v)" and ac: "ac = fst (mode13h_turn_on ns v)" using assms(1) by simp_all
  have wf: "length (vg_ac v) = 32" using frame_inv_reach [OF assms(2)] by (simp add: frame_inv_def vga_wf_def)
  have "vga_reach h v'"
    unfolding v' mode13h_turn_on_def Let_def case_prod_beta snd_conv
    by (intro vga_reach.intros reach_writes assms(2))
  then show ?thesis
    unfolding v' ac using wf by (simp add: mode13h_turn_on_def vga_writes_def vga_read_def vga_write_def palette_rgb_def)
qed

lemma mode13h_pass: "mode13h_test entries ns fetched"
proof -
  let ?fb = "(\<lambda>region i. if i = 0 then 1 else if i = VGA_FRAMEBUFFER_SIZE - 1 then 2 else 0) :: ram"
  obtain bs v where a: "mode13h_adapter [0x3f, 0x00, 0x20, 0x00, 0x3f, 0x01] ns (vga_new (Some (0, 0)) False None) = (bs, v)"
    by fastforce
  note v = mode13h_palette [OF a]
  let ?out = "replicate VGA_FRAMEBUFFER_SIZE (0x123456 :: u32)"
  let ?black = "vga_draw (shown ?fb v) (palette_rgb v) (0, HEIGHT) ?out" and ?v = "snd (written_pages fetched 0 v)"
  have r: "vga_render entries fetched ?fb ?out 0 v = Some (Inr (Some (0, HEIGHT), ?black, 1), ?v)"
    using render_all [of "[]" v 0] v by (simp add: sends_all_def)
  have len: "length ?black = VGA_FRAMEBUFFER_SIZE" unfolding vga_draw_nth(2) by simp
  have black: "list_all (\<lambda>p. p = 0) ?black"
    unfolding list_all_length len using v by (auto simp: vga_draw_nth(1) shown_def)
  have keep: "vga_reach [frame_dirty fetched v] ?v" "vg_ac_index ?v = 0" "palette_rgb ?v = palette_rgb v"
      "vg_framebuffer ?v = Some (0, 0)" "vg_dac_writes ?v = None" "\<not> vg_has_log ?v"
    using v vga_reach.frame [of "[]" v fetched 0]
    by (simp_all add: written_pages_keeps palette_rgb_def) (simp_all add: written_pages_def Let_def split: option.splits)
  obtain ac w where on: "mode13h_turn_on ns ?v = (ac, w)" by fastforce
  have w: "ac = 0x41" "vga_reach [frame_dirty fetched v] w" "vg_ac_index w = AC_PAS" "palette_rgb w = palette_rgb v"
      "vg_framebuffer w = Some (0, 0)" "vg_dac_writes w = None" "\<not> vg_has_log w"
    using mode13h_on [OF on keep(1)] keep by simp_all
  have r2: "vga_render entries fetched ?fb ?black 1 w = Some (Inr (Some (0, HEIGHT),
      vga_draw (shown ?fb w) (palette_rgb v) (0, HEIGHT) ?black, 2), snd (written_pages fetched 1 w))"
    using render_all [OF w(2), of 1] w by (simp add: sends_all_def)
  have pal: "palette_rgb v ! 0 = 0" "palette_rgb v ! 1 = 0xff0082" "palette_rgb v ! 2 = 0x00ff04"
    using v by (simp_all add: palette_rgb_def dac_widen_def)
  have px: "vga_draw (shown ?fb w) (palette_rgb v) (0, HEIGHT) ?black ! i = palette_rgb v ! unat (?fb 0 i)"
    if "i < VGA_FRAMEBUFFER_SIZE" for i
  proof -
    have "i < length ?black" unfolding len by (rule that)
    from vga_draw_nth(1) [OF this, of "shown ?fb w" "palette_rgb v" "(0, HEIGHT)"] show ?thesis using that w by (simp add: shown_def)
  qed
  show ?thesis
    unfolding mode13h_test_def Let_def a case_prod_conv r option.case sum.case on r2
    using v black w(1) pal px [of 0] px [of 1] px [of "VGA_FRAMEBUFFER_SIZE - 1"] by simp
qed

text \<open>A ring as KVM fills it; \<open>entries\<close> is its size, and a fresh page is zero.\<close>

definition queue_entry :: "u16 \<times> u8 list \<Rightarrow> ring_entry" where
  "queue_entry = (\<lambda>(port, data).
     \<lparr>re_phys_addr = ucast port, re_len = word_of_nat (length data), re_data = data @ replicate (8 - length data) 0\<rparr>)"

definition queue :: "u32 \<Rightarrow> (u16 \<times> u8 list) list \<Rightarrow> coalesced_ring" where
  "queue entries writes =
     \<lparr>cr_first = 0, cr_last = word_of_nat (length writes),
      cr_entries = map queue_entry writes @
        replicate (unat entries - length writes) \<lparr>re_phys_addr = 0, re_len = 0, re_data = replicate 8 0\<rparr>\<rparr>"

definition queued_dac_writes_test :: "u32 \<Rightarrow> u64 list res \<Rightarrow> bool" where
  "queued_dac_writes_test entries fetched =
     (let fb = (\<lambda>region i. 0) :: ram;
          ring = queue entries [(DAC_WRITE_INDEX, [7]), (DAC_DATA, [0x3f]), (DAC_DATA, [0x01]),
                                (DAC_DATA, [0x02]), (DAC_DATA, [0x03]), (DAC_WRITE_INDEX, [9, 0x11])];
          vga = vga_new (Some (0, 0)) False (Some ring)
      in case apply_queued_writes entries vga of
           Some (Inr _, vga) \<Rightarrow>
             vg_palette vga ! 7 = [0x3f, 0x01, 0x02] \<and> vg_palette vga ! 8 ! 0 = 0x03 \<and>
             vg_palette vga ! 9 ! 0 = 0x11 \<and> map_option cr_first (vg_dac_writes vga) = Some 6 \<and>
             (let vga = vga_writes [(DAC_WRITE_INDEX, 0), (DAC_DATA, 0x20)] vga;
                  vga = vga\<lparr>vg_dac_writes := map_option (\<lambda>ring. ring\<lparr>
                    cr_entries := (cr_entries ring)[6 := queue_entry (DAC_DATA, [0x21])], cr_last := 7\<rparr>) (vg_dac_writes vga)\<rparr>
              in case vga_render entries fetched fb (replicate VGA_FRAMEBUFFER_SIZE 0) 0 vga of
                   Some (Inr _, vga) \<Rightarrow>
                     take 2 (vg_palette vga ! 0) = [0x20, 0x21] \<and> vg_palette vga ! 7 = [0x3f, 0x01, 0x02] \<and>
                     map_option cr_first (vg_dac_writes vga) = Some 7
                 | _ \<Rightarrow> False)
         | _ \<Rightarrow> False)"

lemma render_state:
  assumes "apply_queued_writes entries v = Some (Inr (), v')"
  shows "\<exists>x. vga_render entries fetched m out seen v = Some (Inr x, snd (written_pages fetched seen v'))"
  using assms by (simp add: vga_render_def Let_def split: prod.split option.split)

lemma written_pages_ring: "vg_dac_writes (snd (written_pages f s v)) = vg_dac_writes v"
  by (simp add: written_pages_def Let_def split: option.splits)

lemma queue_entry_bytes [simp]:
  "entry_bytes (queue_entry (port, [b])) = [b]" "entry_bytes (queue_entry (port, [b, c])) = [b, c]"
  "re_phys_addr (queue_entry (port, bs)) = ucast port"
  by (simp_all add: entry_bytes_def queue_entry_def)

lemma palette_entry: "replicate 3 (0 :: u8) = [0, 0, 0]"
  by (simp add: numeral_3_eq_3)

text \<open>The ring has the eight entries the test uses, and not more than \<open>i + 1\<close> can count.\<close>

lemma queued_dac_writes_pass:
  assumes "7 < entries" and "unat entries < 2 ^ 31"
  shows "queued_dac_writes_test entries fetched"
proof -
  let ?writes = "[(DAC_WRITE_INDEX, [7]), (DAC_DATA, [0x3f]), (DAC_DATA, [0x01]),
    (DAC_DATA, [0x02]), (DAC_DATA, [0x03]), (DAC_WRITE_INDEX, [9, 0x11])]"
  let ?ring = "queue entries ?writes" and ?v = "vga_new (Some (0, 0)) False (Some (queue entries ?writes))"
  have e: "7 < unat entries" using assms(1) by (simp add: word_less_nat_alt)
  have wf: "ring_wf entries ?ring" using e assms by (simp add: ring_wf_def queue_def word_less_nat_alt)
  have q: "ring_queued entries ?ring = map queue_entry ?writes"
    using e by (simp add: ring_queued_def ring_count_def queue_def upt_rec nth_append)
  obtain w where w: "apply_queued_writes entries ?v = Some (Inr (), w)"
    and w': "w = foldl (\<lambda>t e. apply_entry e t) ?v (map queue_entry ?writes)\<lparr>vg_dac_writes := Some (?ring\<lparr>cr_first := cr_last ?ring\<rparr>)\<rparr>"
    using apply_queued_writes_some [OF _ wf, of ?v] unfolding q by (simp add: vga_new_def)
  have p: "vg_palette w ! 7 = [0x3f, 0x01, 0x02]" "vg_palette w ! 8 ! 0 = 0x03" "vg_palette w ! 9 ! 0 = 0x11"
      "vg_palette w ! 0 = [0, 0, 0]" "length (vg_palette w) = 256"
    unfolding w' by (simp_all add: apply_entry_def vga_write_def vga_new_def dac_next_def palette_entry)
  let ?x = "vga_writes [(DAC_WRITE_INDEX, 0), (DAC_DATA, 0x20)] w"
  let ?ring2 = "?ring\<lparr>cr_first := 6, cr_entries := (cr_entries ?ring)[6 := queue_entry (DAC_DATA, [0x21])], cr_last := 7\<rparr>"
  have wf2: "ring_wf entries ?ring2" using e assms by (simp add: ring_wf_def queue_def word_less_nat_alt)
  have len: "length (cr_entries ?ring) = unat entries" using wf by (simp add: ring_wf_def)
  have q2: "ring_queued entries ?ring2 = [queue_entry (DAC_DATA, [0x21])]"
    using e len by (simp add: ring_queued_def ring_count_def)
  let ?y = "?x\<lparr>vg_dac_writes := Some ?ring2\<rparr>"
  obtain z where z: "apply_queued_writes entries ?y = Some (Inr (), z)"
    and z': "z = apply_entry (queue_entry (DAC_DATA, [0x21])) ?y\<lparr>vg_dac_writes := Some (?ring2\<lparr>cr_first := cr_last ?ring2\<rparr>)\<rparr>"
    using apply_queued_writes_some [OF _ wf2, of ?y] unfolding q2 by simp
  have p2: "take 2 (vg_palette z ! 0) = [0x20, 0x21]" "vg_palette z ! 7 = [0x3f, 0x01, 0x02]"
    unfolding z' using p by (simp_all add: apply_entry_def vga_writes_def vga_write_def dac_next_def)
  obtain r where r: "vga_render entries fetched (\<lambda>region i. 0) (replicate VGA_FRAMEBUFFER_SIZE 0) 0 ?y =
      Some (Inr r, snd (written_pages fetched 0 z))"
    using render_state [OF z] by blast
  have ring: "vg_dac_writes w = Some (?ring\<lparr>cr_first := 6\<rparr>)" "vg_dac_writes ?x = Some (?ring\<lparr>cr_first := 6\<rparr>)"
    unfolding w' by (simp_all add: vga_writes_def) (simp_all add: queue_def)
  have y: "?x\<lparr>vg_dac_writes := map_option (\<lambda>ring. ring\<lparr>cr_entries := (cr_entries ring)[6 := queue_entry (DAC_DATA, [0x21])],
      cr_last := 7\<rparr>) (vg_dac_writes ?x)\<rparr> = ?y"
    unfolding ring by simp
  have z7: "vg_dac_writes (snd (written_pages fetched 0 z)) = Some (?ring2\<lparr>cr_first := 7\<rparr>)"
    unfolding written_pages_ring z' by simp
  show ?thesis
    unfolding queued_dac_writes_test_def Let_def w option.case sum.case case_prod_conv y r
    using p p2 ring(1) z7 by (simp add: written_pages_keeps)
qed

definition written_pages_test :: "u64 list res \<Rightarrow> bool" where
  "written_pages_test fetched =
     ((let (pages1, vga) = written_pages fetched 0 (vga_new (Some (0, 0)) False None);
           (pages2, vga) = written_pages fetched (vg_frame vga) vga
       in pages1 = Some (0, FRAMEBUFFER_PAGES) \<and> pages2 = Some (0, FRAMEBUFFER_PAGES)) \<and>
      (let (pages1, vga) = written_pages fetched 0 (vga_new None False None);
           seen = vg_frame vga;
           (pages2, vga) = written_pages fetched seen vga;
           (pages3, vga) = written_pages fetched seen (vga_write DAC_DATA 0x3f vga);
           (pages4, vga) = written_pages fetched seen vga
       in pages1 = Some (0, FRAMEBUFFER_PAGES) \<and> pages2 = None \<and> pages3 = Some (0, FRAMEBUFFER_PAGES) \<and>
          pages4 = Some (0, FRAMEBUFFER_PAGES)))"

lemma written_pages_flags [simp]:
  "vg_repaint (snd (written_pages f s v)) = False"
  "vg_framebuffer (snd (written_pages f s v)) = vg_framebuffer v"
  "vg_has_log (snd (written_pages f s v)) = vg_has_log v"
  by (simp_all add: written_pages_def Let_def split: option.splits)

lemma written_pages_pass: "written_pages_test fetched"
proof -
  let ?w = "\<lambda>seen v. snd (written_pages fetched seen v)" and ?d = "frame_dirty fetched"
  let ?a = "vga_new (Some (0, 0)) False None" and ?b = "vga_new None False None"
  have a: "vga_reach [] ?a" "vga_reach [?d ?a] (?w 0 ?a)" "sends_all 0 0 ?a" "sends_all 1 1 (?w 0 ?a)"
    using vga_reach.new vga_reach.frame [OF vga_reach.new, where fetched = fetched and seen = 0]
    by (simp_all add: sends_all_def) (simp_all add: vga_new_def)
  have fa: "vg_frame (?w 0 ?a) = 1" using sends_all_pages(2) [OF a(1), of 0 fetched] a(3) by simp
  let ?b1 = "?w 0 ?b" let ?b2 = "?w 1 ?b1" let ?b3 = "vga_write DAC_DATA 0x3f ?b2" let ?b4 = "?w 1 ?b3"
  have b: "vga_reach [] ?b" by (rule vga_reach.new)
  have b1: "vga_reach [?d ?b] ?b1" using vga_reach.frame [OF b, of fetched 0] by simp
  have b2: "vga_reach [?d ?b, ?d ?b1] ?b2" using vga_reach.frame [OF b1, of fetched 1] by simp
  have b3: "vga_reach [?d ?b, ?d ?b1] ?b3" by (rule vga_reach.wr [OF b2])
  have b4: "vga_reach [?d ?b, ?d ?b1, ?d ?b3] ?b4" using vga_reach.frame [OF b3, of fetched 1] by simp
  have fb: "vg_frame ?b1 = 1" using sends_all_pages(2) [OF b, of 0 fetched] by (simp add: sends_all_def)
  have rp: "vg_repaint ?b3" by (simp add: vga_write_def split: prod.splits)
  then have d3: "?d ?b3 = {..<FRAMEBUFFER_PAGES}" by (auto simp: frame_dirty_def)
  have "?d ?b1 = {}" by (auto simp: frame_dirty_def vga_bitmap_def vga_new_def page_bit_def)
  then have p2: "fst (written_pages fetched 1 ?b1) = None"
    using vga_frame_changes [OF b1, of fetched 1] by (simp add: changed_since_def)
  have p3: "fst (written_pages fetched 1 ?b3) = Some (0, 16)"
    by (rule all_pages(1) [OF b3]) (unfold d3, auto simp: changed_since_def)
  have p4: "fst (written_pages fetched 1 ?b4) = Some (0, 16)"
    by (rule all_pages(1) [OF b4]) (unfold d3, auto simp: changed_since_def)
  have p1: "fst (written_pages fetched 0 ?b) = Some (0, 16)" "fst (written_pages fetched 0 ?a) = Some (0, 16)"
      "fst (written_pages fetched 1 (?w 0 ?a)) = Some (0, 16)"
    using sends_all_pages(1) [OF b, where seen = 0] sends_all_pages(1) [OF a(1), where seen = 0]
      sends_all_pages(1) [OF a(2), where seen = 1] a(3,4)
    by (simp_all add: sends_all_def)
  show ?thesis
    unfolding written_pages_test_def Let_def case_prod_beta fa fb using p1 p2 p3 p4 by simp
qed

section \<open>A session\<close>

text \<open>The test's display: its frame, pixels and the rows changed last. \<open>copy_from_slice\<close> wants equal lengths.\<close>

type_synonym pattern = "nat \<times> u32 list \<times> (nat \<times> nat)"

definition pattern_set :: "nat \<Rightarrow> u32 \<Rightarrow> pattern \<Rightarrow> pattern" where
  "pattern_set i rgb = (\<lambda>(frame, pixels, rows). (frame + 1, pixels[i := rgb], (i div 4, i div 4 + 1)))"

definition pattern_render :: "(unit, pattern) renderer" where
  "pattern_render e out seen = (\<lambda>(frame, pixels, rows). Some
     (if seen = frame then Inr (None, out, seen)
      else if length out \<noteq> length pixels then Inl (Panicked IndexOutOfBounds)
      else Inr (Some (if seen + 1 = frame then rows else (0, 2)), pixels, frame),
      (frame, pixels, rows)))"

text \<open>The test's keyboard.\<close>

definition keys_event :: "(bool \<times> u32) list key_handler" where
  "keys_event down keysym keys = (Inr (), keys @ [(down, keysym)])"

text \<open>An update as the client reads it, in a format of \<open>n\<close> bytes a pixel: the rectangle and the pixels.\<close>

definition read_update :: "nat \<Rightarrow> u8 list \<Rightarrow> (u16 list \<times> u8 list) option" where
  "read_update n msg =
     (let rect = map (\<lambda>i. from_be16 [msg ! (4 + 2 * i), msg ! (5 + 2 * i)]) [0..<4];
          size = unat (rect ! 2) * unat (rect ! 3) * n
      in if take 4 msg = [0, 0, 0, 1] \<and> take 4 (drop 12 msg) = to_be32 0 \<and> length msg = 16 + size
         then Some (rect, drop 16 msg) else None)"

definition rgb565 :: pixel_format where
  "rgb565 = pf_default\<lparr>bits_per_pixel := 16, depth := 16, big_endian := True, pf_max := [31, 63, 31], pf_shift := [11, 5, 0]\<rparr>"

definition session_sent :: "u8 list" where
  "session_sent = rfb_version 0x38 @ [SECURITY_NONE] @ [1] @
     [MSG_SET_ENCODINGS, 0, 0, 1, 0, 0, 0, 0] @
     [MSG_FRAMEBUFFER_UPDATE_REQUEST, 0, 0, 0, 0, 0, 0, 4, 0, 2] @
     [MSG_SET_PIXEL_FORMAT, 0, 0, 0] @ pf_to_bytes rgb565 @
     [MSG_FRAMEBUFFER_UPDATE_REQUEST, 0, 0, 0, 0, 0, 0, 4, 0, 2] @
     [MSG_FRAMEBUFFER_UPDATE_REQUEST, 1, 0, 0, 0, 0, 0, 4, 0, 2] @
     [MSG_KEY_EVENT, 1, 0, 0, 0, 0, 0, 0x61] @ [MSG_KEY_EVENT, 0, 0, 0, 0, 0, 0, 0x61] @
     [MSG_FRAMEBUFFER_UPDATE_REQUEST, 0, 0, 0, 0, 0, 0, 4, 0, 2]"

text \<open>
  The client waits for each update before it goes on, so the passes of the update thread are those
  of its requests, each followed by the timeouts until the update is due; \<open>clock\<close> gives the
  readings of the passes.
\<close>

definition session_passes :: "(nat \<Rightarrow> nat) \<Rightarrow> request list \<Rightarrow> (unit, pattern) pass list" where
  "session_passes clock reqs =
     (let pass = (\<lambda>i rx guest. \<lparr>ps_received = rx, ps_now = clock i, ps_now' = clock i, ps_write_ok = True,
                    ps_env = (), ps_guest = guest\<rparr>)
      in [pass 0 (Received (reqs ! 0)) id, pass 1 (Received (reqs ! 1)) id,
          pass 2 (Received (reqs ! 2)) id, pass 3 TimedOut id,
          pass 4 (Received (reqs ! 3)) (pattern_set 0 0), pass 5 TimedOut id,
          pass 6 (Received (reqs ! 4)) id, pass 7 TimedOut id])"

definition session_pixels :: "u32 list" where
  "session_pixels = [0xff0000, 0x00ff00, 0x0000ff, 0xffffff, 0x101010, 0x202020, 0x303030, 0x404040]"

definition session_test :: "(nat \<Rightarrow> nat) \<Rightarrow> bool" where
  "session_test clock =
     (let env = \<lparr>re_end = UnexpectedEof, re_writes = (\<lambda>_ _. True)\<rparr>;
          display = (1, session_pixels, (0, 2));
          reader = \<lparr>rr_stream = \<lparr>rs_in = session_sent, rs_out = []\<rparr>, rr_keyboard = [], rr_sent = []\<rparr>
      in case serve env True True (4, 2) (Some keys_event) (\<lambda>_. True) reader of
           (Inr _, r) \<Rightarrow>
             rs_out (rr_stream r) =
               rfb_version 0x38 @ [1, SECURITY_NONE] @ [0, 0, 0, 0] @
               [0, 4, 0, 2] @ pf_to_bytes pf_default @ to_be32 6 @ DESKTOP_NAME \<and>
             rr_keyboard r = [(True, 0x61), (False, 0x61)] \<and>
             (case send_updates pattern_render 4 2 (clock 0) display (session_passes clock (rr_sent r)) of
                Some (None, asked # answered # _, st) \<Rightarrow>
                  asked + UPDATE_INTERVAL \<le> answered \<and>
                  (case ud_written st of
                     [m1, m2, m3, m4] \<Rightarrow>
                       map_option (map_prod id (take 8)) (read_update 4 m1) = Some ([0, 0, 4, 2], [0, 0, 0xff, 0, 0, 0xff, 0, 0]) \<and>
                       map_option (map_prod id (take 8)) (read_update 2 m2) =
                         Some ([0, 0, 4, 2], [0xf8, 0x00, 0x07, 0xe0, 0x00, 0x1f, 0xff, 0xff]) \<and>
                       map_option (map_prod id (take 2)) (read_update 2 m3) = Some ([0, 0, 4, 1], [0, 0]) \<and>
                       read_update 2 m4 \<noteq> None
                   | _ \<Rightarrow> False)
              | _ \<Rightarrow> False)
         | _ \<Rightarrow> False)"

text \<open>What the client writes, as messages, and what the server makes of it.\<close>

definition session_messages :: "client_msg list" where
  "session_messages = [CSetEncodings [0], CUpdateRequest False [0, 0, 0, 0, 0, 4, 0, 2], CSetFormat rgb565,
     CUpdateRequest False [0, 0, 0, 0, 0, 4, 0, 2], CUpdateRequest True [0, 0, 0, 0, 0, 4, 0, 2],
     CKey True 0x61, CKey False 0x61, CUpdateRequest False [0, 0, 0, 0, 0, 4, 0, 2]]"

definition session_requests :: "request list" where
  "session_requests = [ReqUpdate False, ReqPixelFormat rgb565, ReqUpdate False, ReqUpdate True, ReqUpdate False]"

lemma session_bytes: "session_sent = rfb_version 0x38 @ [1] @ [1] @ concat (map msg_bytes session_messages)"
  unfolding session_sent_def session_messages_def by code_simp

lemma session_server:
  "\<exists>r. serve \<lparr>re_end = UnexpectedEof, re_writes = (\<lambda>_ _. True)\<rparr> True True (4, 2) (Some keys_event) (\<lambda>_. True)
      \<lparr>rr_stream = \<lparr>rs_in = session_sent, rs_out = []\<rparr>, rr_keyboard = [], rr_sent = []\<rparr> = (Inr (), r) \<and>
    rs_out (rr_stream r) = rfb_version 0x38 @ [1, 1] @ to_be32 0 @ server_init 4 2 \<and>
    rr_keyboard r = [(True, 0x61), (False, 0x61)] \<and>
    rr_sent r = session_requests"
proof -
  have "\<forall>msg\<in>set session_messages. msg_ok msg"
    by (simp add: session_messages_def rgb565_def pf_default_def pf_wf_def pf_supported_def)
  then show ?thesis
    using serve_client [of keys_event session_messages "\<lparr>re_end = UnexpectedEof, re_writes = (\<lambda>_ _. True)\<rparr>" 4 2 1 "[]"]
    unfolding session_bytes by (auto simp: keys_event_def session_messages_def session_requests_def)
qed

lemma pattern_turn:
  assumes "ud_pending st" and "ud_next st \<le> t" and "ud_display st = (frame, pixels, rows)" and "ud_seen st \<noteq> frame"
    and "length (ud_frame st) = length pixels"
    and "update_message (ud_format st) width pixels (if ud_seen st + 1 = frame then rows else (0, 2)) = Inr msg"
  shows "update_turn pattern_render width t t True e st =
    Some (None, st\<lparr>ud_frame := pixels, ud_seen := frame, ud_pending := False,
      ud_next := t + UPDATE_INTERVAL, ud_written := ud_written st @ [msg]\<rparr>)"
proof -
  obtain fm fr sn pe nx di wr where st: "st = \<lparr>ud_format = fm, ud_frame = fr, ud_seen = sn, ud_pending = pe, ud_next = nx,
      ud_display = di, ud_written = wr\<rparr>" by (cases st)
  show ?thesis using assms unfolding st by (simp add: update_turn_def pattern_render_def)
qed

lemma pattern_pair:
  assumes "\<not> ud_pending st" and "t \<le> t'" and "ud_next st \<le> t'"
    and "guest (ud_display st) = (frame, pixels, rows)" and "seen = (if inc then ud_seen st else 0)" and "seen \<noteq> frame"
    and "length (ud_frame st) = length pixels"
    and "update_message (ud_format st) width pixels (if seen + 1 = frame then rows else (0, 2)) = Inr msg"
  shows "\<exists>x. ud_next st \<le> x \<and> t \<le> x \<and> x \<le> t' \<and>
    update_passes pattern_render width
      (\<lparr>ps_received = Received (ReqUpdate inc), ps_now = t, ps_now' = t, ps_write_ok = True, ps_env = (), ps_guest = guest\<rparr> #
       \<lparr>ps_received = TimedOut, ps_now = t', ps_now' = t', ps_write_ok = True, ps_env = (), ps_guest = id\<rparr> # ps) st =
    map_option (\<lambda>(r, ts, st'). (r, x # ts, st'))
      (update_passes pattern_render width ps
        (st\<lparr>ud_display := (frame, pixels, rows), ud_frame := pixels, ud_seen := frame, ud_pending := False,
            ud_next := x + UPDATE_INTERVAL, ud_written := ud_written st @ [msg]\<rparr>))"
proof -
  let ?st = "st\<lparr>ud_display := (frame, pixels, rows)\<rparr>"
  let ?asked = "?st\<lparr>ud_pending := True, ud_seen := seen\<rparr>"
  let ?done = "\<lambda>x. st\<lparr>ud_display := (frame, pixels, rows), ud_frame := pixels, ud_seen := frame, ud_pending := False,
    ud_next := x + UPDATE_INTERVAL, ud_written := ud_written st @ [msg]\<rparr>"
  have asked: "update_step pattern_render width (Received (ReqUpdate inc)) t t True () ?st =
      update_turn pattern_render width t t True () ?asked"
    using assms(5) by (cases inc) (simp_all add: update_step_def)
  have sent: "update_turn pattern_render width x x True () ?asked = Some (None, ?done x)" if "ud_next st \<le> x" for x
    using assms that by (subst pattern_turn) auto
  have idle: "update_step pattern_render width TimedOut t' t' True () (?done t) = Some (None, ?done t)"
    by (simp add: update_step_def update_turn_def)
  have wait: "update_turn pattern_render width t t True () ?asked = Some (None, ?asked)" if "t < ud_next st"
    using that by (simp add: update_turn_def)
  have timeout: "update_step pattern_render width TimedOut t' t' True () ?asked = Some (None, ?done t')"
    using sent [OF assms(3)] by (simp add: update_step_def)
  show ?thesis
  proof (cases "ud_next st \<le> t")
    case True
    then show ?thesis
      using assms(2) by (intro exI [of _ t]) (simp only: update_passes.simps pass.select_convs assms(4) asked sent [OF True], simp add: idle case_prod_beta option.map_id)
  next
    case False
    then have lt: "t < ud_next st" by simp
    show ?thesis
      using lt assms(2,3)
      by (intro exI [of _ t']) (simp only: update_passes.simps pass.select_convs assms(4) asked wait [OF lt], simp add: timeout case_prod_beta option.map_id)
  qed
qed

lemma le_bytes_few:
  "le_bytes 4 v = [word_of_nat (v mod 256), word_of_nat (v div 256 mod 256),
    word_of_nat (v div 256 div 256 mod 256), word_of_nat (v div 256 div 256 div 256 mod 256)]"
  "le_bytes 2 v = [word_of_nat (v mod 256), word_of_nat (v div 256 mod 256)]"
proof -
  have n: "4 = Suc (Suc (Suc (Suc 0)))" "2 = Suc (Suc 0)" by simp_all
  show "le_bytes 4 v = [word_of_nat (v mod 256), word_of_nat (v div 256 mod 256),
      word_of_nat (v div 256 div 256 mod 256), word_of_nat (v div 256 div 256 div 256 mod 256)]"
    unfolding n(1) le_bytes.simps ..
  show "le_bytes 2 v = [word_of_nat (v mod 256), word_of_nat (v div 256 mod 256)]"
    unfolding n(2) le_bytes.simps ..
qed

lemma session_encoded:
  "encode_pixels pf_default session_pixels = Inr ([0, 0, 0xff, 0, 0, 0xff, 0, 0] @
     [0xff, 0, 0, 0, 0xff, 0xff, 0xff, 0, 0x10, 0x10, 0x10, 0, 0x20, 0x20, 0x20, 0, 0x30, 0x30, 0x30, 0, 0x40, 0x40, 0x40, 0])"
  "encode_pixels rgb565 session_pixels = Inr ([0xf8, 0x00, 0x07, 0xe0, 0x00, 0x1f, 0xff, 0xff] @
     [0x08, 0x61, 0x18, 0xe3, 0x29, 0x65, 0x39, 0xe7])"
  "encode_pixels rgb565 (take 4 (session_pixels[0 := 0])) = Inr [0, 0, 0x07, 0xe0, 0x00, 0x1f, 0xff, 0xff]"
  "encode_pixels rgb565 (session_pixels[0 := 0]) = Inr ([0, 0, 0x07, 0xe0, 0x00, 0x1f, 0xff, 0xff] @
     [0x08, 0x61, 0x18, 0xe3, 0x29, 0x65, 0x39, 0xe7])"
  by (simp_all add: session_pixels_def rgb565_def pf_default_def pf_encode_def shl_ov_def checked_mul_def
      overflow_panic_def bytes_per_pixel_def to_le32_def)
    (simp_all add: le_bytes_few)

text \<open>An update with \<open>n\<close> rows from row 0 on.\<close>

lemma session_update:
  assumes "encode_pixels f (take (4 * n) frame) = Inr pixels" and "length frame = 8" and n: "n = 1 \<or> n = 2" and "length pixels = n * 4 * k"
  shows "\<exists>m. update_message f 4 frame (0, n) = Inr m \<and> read_update k m = Some ([0, 0, 4, word_of_nat n], pixels)"
proof (intro exI conjI)
  show "update_message f 4 frame (0, n) = Inr (update_header 4 (0, n) @ pixels)"
    using assms by (auto simp: update_message_def mult.commute)
  have r: "[0..<4] = [0, 1, 2, 3 :: nat]" by (simp add: upt_rec)
  show "read_update k (update_header 4 (0, n) @ pixels) = Some ([0, 0, 4, word_of_nat n], pixels)"
    using n assms(4)
    by (auto simp: update_header_def read_update_def to_be16_def to_be32_def to_le16_def to_le32_def r
      le_bytes_few from_be16_def from_le16_def)
qed

lemma session_updates:
  "\<exists>m. update_message pf_default 4 session_pixels (0, 2) = Inr m \<and>
    map_option (map_prod id (take 8)) (read_update 4 m) = Some ([0, 0, 4, 2], [0, 0, 0xff, 0, 0, 0xff, 0, 0])"
  "\<exists>m. update_message rgb565 4 session_pixels (0, 2) = Inr m \<and>
    map_option (map_prod id (take 8)) (read_update 2 m) = Some ([0, 0, 4, 2], [0xf8, 0x00, 0x07, 0xe0, 0x00, 0x1f, 0xff, 0xff])"
  "\<exists>m. update_message rgb565 4 (session_pixels[0 := 0]) (0, 1) = Inr m \<and>
    map_option (map_prod id (take 2)) (read_update 2 m) = Some ([0, 0, 4, 1], [0, 0])"
  "\<exists>m. update_message rgb565 4 (session_pixels[0 := 0]) (0, 2) = Inr m \<and> read_update 2 m \<noteq> None"
proof -
  have len: "length session_pixels = 8" and all: "take 8 session_pixels = session_pixels"
      "take 8 (session_pixels[0 := 0]) = session_pixels[0 := 0]"
    by (simp_all add: session_pixels_def)
  note u = session_update [of pf_default 2 session_pixels _ 4] session_update [of rgb565 2 session_pixels _ 2]
    session_update [of rgb565 1 "session_pixels[0 := 0]" _ 2] session_update [of rgb565 2 "session_pixels[0 := 0]" _ 2]
  show "\<exists>m. update_message pf_default 4 session_pixels (0, 2) = Inr m \<and>
      map_option (map_prod id (take 8)) (read_update 4 m) = Some ([0, 0, 4, 2], [0, 0, 0xff, 0, 0, 0xff, 0, 0])"
    using u(1) session_encoded(1) len all by auto
  show "\<exists>m. update_message rgb565 4 session_pixels (0, 2) = Inr m \<and>
      map_option (map_prod id (take 8)) (read_update 2 m) = Some ([0, 0, 4, 2], [0xf8, 0x00, 0x07, 0xe0, 0x00, 0x1f, 0xff, 0xff])"
    using u(2) session_encoded(2) len all by auto
  show "\<exists>m. update_message rgb565 4 (session_pixels[0 := 0]) (0, 1) = Inr m \<and>
      map_option (map_prod id (take 2)) (read_update 2 m) = Some ([0, 0, 4, 1], [0, 0])"
    using u(3) session_encoded(3) len by auto
  show "\<exists>m. update_message rgb565 4 (session_pixels[0 := 0]) (0, 2) = Inr m \<and> read_update 2 m \<noteq> None"
    using u(4) session_encoded(4) len all by auto
qed

definition session_state :: "pixel_format \<Rightarrow> u32 list \<Rightarrow> nat \<Rightarrow> nat \<Rightarrow> pattern \<Rightarrow> u8 list list \<Rightarrow> pattern updater" where
  "session_state f frame seen next display written =
     \<lparr>ud_format = f, ud_frame = frame, ud_seen = seen, ud_pending = False, ud_next = next, ud_display = display,
      ud_written = written\<rparr>"

lemma session_pair:
  assumes "t \<le> t'" and "next \<le> t'" and "guest display = (frame, pixels, rows)"
    and "(if inc then seen else 0) \<noteq> frame" and "length old = length pixels"
    and "update_message f width pixels (if (if inc then seen else 0) + 1 = frame then rows else (0, 2)) = Inr msg"
  shows "\<exists>x. next \<le> x \<and> t \<le> x \<and> x \<le> t' \<and>
    update_passes pattern_render width
      (\<lparr>ps_received = Received (ReqUpdate inc), ps_now = t, ps_now' = t, ps_write_ok = True, ps_env = (), ps_guest = guest\<rparr> #
       \<lparr>ps_received = TimedOut, ps_now = t', ps_now' = t', ps_write_ok = True, ps_env = (), ps_guest = id\<rparr> # ps)
      (session_state f old seen next display written) =
    map_option (\<lambda>(r, ts, st'). (r, x # ts, st'))
      (update_passes pattern_render width ps
        (session_state f pixels frame (x + UPDATE_INTERVAL) (frame, pixels, rows) (written @ [msg])))"
proof -
  let ?st = "session_state f old seen next display written" and ?seen = "if inc then seen else 0"
  have st: "ud_next ?st = next" "st\<lparr>ud_display := (frame, pixels, rows), ud_frame := pixels, ud_seen := frame, ud_pending := False,
      ud_next := n, ud_written := w\<rparr> = session_state f pixels frame n (frame, pixels, rows) w" "ud_written ?st = written"
    if "st = ?st" for st n w
    unfolding that by (simp_all add: session_state_def)
  show ?thesis
    by (rule pattern_pair [of ?st t t' guest frame pixels rows ?seen inc width msg ps, unfolded st [OF refl]])
      (use assms in \<open>simp_all add: session_state_def\<close>)
qed

lemma session_start:
  assumes "update_message pf_default 4 session_pixels (0, 2) = Inr m1"
  shows "update_passes pattern_render 4
      (\<lparr>ps_received = Received (ReqUpdate False), ps_now = t, ps_now' = t, ps_write_ok = True, ps_env = (), ps_guest = id\<rparr> #
       \<lparr>ps_received = Received (ReqPixelFormat f), ps_now = t', ps_now' = t', ps_write_ok = True, ps_env = (), ps_guest = id\<rparr> # ps)
      (updater_new 4 2 t (1, session_pixels, (0, 2))) =
    map_option (\<lambda>(r, ts, st'). (r, t # ts, st'))
      (update_passes pattern_render 4 ps
        (session_state f session_pixels 0 (t + UPDATE_INTERVAL) (1, session_pixels, (0, 2)) [m1]))"
proof -
  let ?d = "(1, session_pixels, (0, 2)) :: pattern" and ?new = "updater_new 4 2 t (1, session_pixels, (0, 2)) :: pattern updater"
  let ?s1 = "session_state pf_default session_pixels 1 (t + UPDATE_INTERVAL) ?d [m1]"
  have new: "?new\<lparr>ud_display := id (ud_display ?new)\<rparr> = ?new" "ud_written ?new = []"
    and s1: "?s1\<lparr>ud_display := id (ud_display ?s1)\<rparr> = ?s1" "ud_written ?s1 = [m1]"
    by (simp_all add: updater_new_def session_state_def)
  have len: "length session_pixels = 8" by (simp add: session_pixels_def)
  have a: "update_step pattern_render 4 (Received (ReqUpdate False)) t t True () ?new = Some (None, ?s1)"
    using assms len by (simp add: update_step_def updater_new_def update_turn_def pattern_render_def session_state_def)
  have b: "update_step pattern_render 4 (Received (ReqPixelFormat f)) t' t' True () ?s1 =
      Some (None, session_state f session_pixels 0 (t + UPDATE_INTERVAL) ?d [m1])"
    by (simp add: update_step_def session_state_def)
  have w: "ud_written (session_state g frame seen next d written) = written" for g frame seen "next" d written
    by (simp add: session_state_def)
  show ?thesis
    by (simp only: update_passes.simps pass.select_convs new s1 a b) (simp add: w b [simplified] case_prod_beta option.map_id)
qed

lemma session_run:
  assumes "clock 0 \<le> clock 1" "clock 1 \<le> clock 2" "clock 2 \<le> clock 3" "clock 3 \<le> clock 4" "clock 4 \<le> clock 5"
      "clock 5 \<le> clock 6" "clock 6 \<le> clock 7"
    and "clock 0 + UPDATE_INTERVAL \<le> clock 3" "clock 3 + UPDATE_INTERVAL \<le> clock 5" "clock 5 + UPDATE_INTERVAL \<le> clock 7"
    and m: "update_message pf_default 4 session_pixels (0, 2) = Inr m1" "update_message rgb565 4 session_pixels (0, 2) = Inr m2"
      "update_message rgb565 4 (session_pixels[0 := 0]) (0, 1) = Inr m3"
      "update_message rgb565 4 (session_pixels[0 := 0]) (0, 2) = Inr m4"
  shows "\<exists>x y z st. clock 0 + UPDATE_INTERVAL \<le> x \<and> ud_written st = [m1, m2, m3, m4] \<and>
    send_updates pattern_render 4 2 (clock 0) (1, session_pixels, (0, 2)) (session_passes clock session_requests) =
      Some (None, [clock 0, x, y, z], st)"
proof -
  let ?d = "(1, session_pixels, (0, 2)) :: pattern" and ?p' = "session_pixels[0 := 0]"
  let ?rq = "\<lambda>t inc guest. \<lparr>ps_received = Received (ReqUpdate inc), ps_now = t, ps_now' = t, ps_write_ok = True, ps_env = (),
      ps_guest = guest\<rparr> :: (unit, pattern) pass"
    and ?to = "\<lambda>t. \<lparr>ps_received = TimedOut, ps_now = t, ps_now' = t, ps_write_ok = True, ps_env = (),
      ps_guest = id\<rparr> :: (unit, pattern) pass"
  let ?tail4 = "[?rq (clock 6) False id, ?to (clock 7)]"
  let ?tail3 = "?rq (clock 4) True (pattern_set 0 0) # ?to (clock 5) # ?tail4"
  obtain x where x: "clock 0 + UPDATE_INTERVAL \<le> x" "x \<le> clock 3" and
    p2: "update_passes pattern_render 4 (?rq (clock 2) False id # ?to (clock 3) # ?tail3)
        (session_state rgb565 session_pixels 0 (clock 0 + UPDATE_INTERVAL) ?d [m1]) =
      map_option (\<lambda>(r, ts, st'). (r, x # ts, st')) (update_passes pattern_render 4 ?tail3
        (session_state rgb565 session_pixels 1 (x + UPDATE_INTERVAL) ?d ([m1] @ [m2])))"
    using session_pair [of "clock 2" "clock 3" "clock 0 + UPDATE_INTERVAL" id ?d 1 session_pixels "(0, 2)" False 0
        session_pixels rgb565 4 m2 ?tail3 "[m1]"] assms(3,8) m(2) by (auto simp del: update_passes.simps)
  have set0: "pattern_set 0 0 ?d = (2, ?p', (0, 1))" by (simp add: pattern_set_def)
  obtain y where y: "y \<le> clock 5" and
    p3: "update_passes pattern_render 4 ?tail3
        (session_state rgb565 session_pixels 1 (x + UPDATE_INTERVAL) ?d ([m1] @ [m2])) =
      map_option (\<lambda>(r, ts, st'). (r, y # ts, st')) (update_passes pattern_render 4 ?tail4
        (session_state rgb565 ?p' 2 (y + UPDATE_INTERVAL) (2, ?p', (0, 1)) (([m1] @ [m2]) @ [m3])))"
    using session_pair [of "clock 4" "clock 5" "x + UPDATE_INTERVAL" "pattern_set 0 0" ?d 2 ?p' "(0, 1)" True 1
        session_pixels rgb565 4 m3 ?tail4 "[m1] @ [m2]", OF _ _ set0] assms(5,9) x m(3) by (auto simp del: update_passes.simps)
  obtain z where
    p4: "update_passes pattern_render 4 ?tail4
        (session_state rgb565 ?p' 2 (y + UPDATE_INTERVAL) (2, ?p', (0, 1)) (([m1] @ [m2]) @ [m3])) =
      map_option (\<lambda>(r, ts, st'). (r, z # ts, st')) (update_passes pattern_render 4 []
        (session_state rgb565 ?p' 2 (z + UPDATE_INTERVAL) (2, ?p', (0, 1)) ((([m1] @ [m2]) @ [m3]) @ [m4])))"
    using session_pair [of "clock 6" "clock 7" "y + UPDATE_INTERVAL" id "(2, ?p', (0, 1))" 2 ?p' "(0, 1)" False 2
        ?p' rgb565 4 m4 "[]" "([m1] @ [m2]) @ [m3]"] assms(7,10) y m(4) by (auto simp del: update_passes.simps)
  have ps: "session_passes clock session_requests = ?rq (clock 0) False id #
      \<lparr>ps_received = Received (ReqPixelFormat rgb565), ps_now = clock 1, ps_now' = clock 1, ps_write_ok = True, ps_env = (),
       ps_guest = id\<rparr> # ?rq (clock 2) False id # ?to (clock 3) # ?tail3"
    unfolding session_passes_def session_requests_def by simp
  have run: "send_updates pattern_render 4 2 (clock 0) ?d (session_passes clock session_requests) =
      Some (None, [clock 0, x, y, z], session_state rgb565 ?p' 2 (z + UPDATE_INTERVAL) (2, ?p', (0, 1)) [m1, m2, m3, m4])"
    unfolding send_updates_def ps session_start [OF m(1)] p2 p3 p4 by simp
  then show ?thesis using x(1) by (auto simp: session_state_def)
qed

text \<open>
  The test passes when the clock is monotone and each timeout comes once the update is due, however
  early or late the requests come.
\<close>

lemma session_pass:
  assumes "clock 0 \<le> clock 1" "clock 1 \<le> clock 2" "clock 2 \<le> clock 3" "clock 3 \<le> clock 4" "clock 4 \<le> clock 5"
      "clock 5 \<le> clock 6" "clock 6 \<le> clock 7"
    and "clock 0 + UPDATE_INTERVAL \<le> clock 3" "clock 3 + UPDATE_INTERVAL \<le> clock 5" "clock 5 + UPDATE_INTERVAL \<le> clock 7"
  shows "session_test clock"
proof -
  obtain m1 m2 m3 m4 where
    m: "update_message pf_default 4 session_pixels (0, 2) = Inr m1" "update_message rgb565 4 session_pixels (0, 2) = Inr m2"
      "update_message rgb565 4 (session_pixels[0 := 0]) (0, 1) = Inr m3" "update_message rgb565 4 (session_pixels[0 := 0]) (0, 2) = Inr m4"
    and reads: "map_option (map_prod id (take 8)) (read_update 4 m1) = Some ([0, 0, 4, 2], [0, 0, 0xff, 0, 0, 0xff, 0, 0])"
      "map_option (map_prod id (take 8)) (read_update 2 m2) = Some ([0, 0, 4, 2], [0xf8, 0x00, 0x07, 0xe0, 0x00, 0x1f, 0xff, 0xff])"
      "map_option (map_prod id (take 2)) (read_update 2 m3) = Some ([0, 0, 4, 1], [0, 0])" "read_update 2 m4 \<noteq> None"
    using session_updates by blast
  obtain r where r: "serve \<lparr>re_end = UnexpectedEof, re_writes = (\<lambda>_ _. True)\<rparr> True True (4, 2) (Some keys_event) (\<lambda>_. True)
      \<lparr>rr_stream = \<lparr>rs_in = session_sent, rs_out = []\<rparr>, rr_keyboard = [], rr_sent = []\<rparr> = (Inr (), r)"
    and out: "rs_out (rr_stream r) = rfb_version 0x38 @ [1, 1] @ to_be32 0 @ server_init 4 2"
    and keys: "rr_keyboard r = [(True, 0x61), (False, 0x61)]"
    and sent: "rr_sent r = session_requests"
    using session_server by blast
  obtain x y z st where run: "clock 0 + UPDATE_INTERVAL \<le> x" "ud_written st = [m1, m2, m3, m4]"
      "send_updates pattern_render 4 2 (clock 0) (1, session_pixels, (0, 2)) (session_passes clock session_requests) =
        Some (None, [clock 0, x, y, z], st)"
    using session_run [OF assms m] by blast
  have init: "server_init 4 2 = [0, 4, 0, 2] @ pf_to_bytes pf_default @ to_be32 6 @ DESKTOP_NAME" "to_be32 0 = [0, 0, 0, 0]"
    by (simp_all add: server_init_def DESKTOP_NAME_def to_be16_def to_le16_def to_be32_def to_le32_def le_bytes_few)
  show ?thesis
    unfolding session_test_def Let_def r case_prod_conv sum.case
    using out keys reads run(1,2) unfolding init sent by (simp add: run(3) [simplified])
qed

end
