(* ===== verification/Spec2Isabelle.thy ===== *)
theory Spec2Isabelle
  imports Racing_Guest X86_Main X86_Run Arm_Main Vnc_Display Serial_Tty Vm_Lifetime Repo_Tests
begin

text \<open>
  A verification development for Hearth, a KVM virtual machine monitor in Rust (\<open>src/src\<close>).

  \<^bold>\<open>The program.\<close> \<open>main\<close> opens KVM, creates a VM with one vcpu, loads a kernel into guest memory, makes
  the devices, and runs each vcpu on a thread: \<open>KVM_RUN\<close> returns with an exit, which goes to the
  device that owns the port or page. Devices raise interrupt lines by an ioctl. Frontend threads (the
  serial console, the VNC server, the tap reader) pass input to devices and read the display; they
  stop the VM or kick a vcpu thread out of the guest by a signal.

  \<^bold>\<open>Conventions.\<close> A fallible operation returns \<open>'a res\<close>, a fault or a value; faults are an
  \<open>io::Error\<close> by kind, a panic by cause, and undefined behaviour of \<open>unsafe\<close> code, which is thus
  something to be proved absent. An operation on a state is an \<open>('s, 'a) oper\<close> and returns the
  state it leaves even when it fails. Integers have the width of the source; an arithmetic overflow
  panics, as in the dev profile the README builds. A loop that might not end is a
  \<open>partial_function (option)\<close> with \<open>None\<close> for not returning. What the kernel and the generated bindings
  supply (outcomes of ioctls, layouts and numbers of the virtio headers, constants) is an argument;
  \<open>documented_vring\<close>, \<open>documented_mmio\<close> and \<open>documented_blk\<close> state what the properties need of it, and
  \<open>linux_vring\<close>, \<open>linux_mmio\<close>, \<open>linux_blk\<close> and \<open>linux_net\<close> are the real layouts, used by the witnesses.

  \<^bold>\<open>The theories.\<close>
  \<^item> \<open>Hearth_Prelude\<close>: integers, outcomes, checked arithmetic, byte orders.
  \<^item> \<open>Util_Binary\<close> (\<open>util/binary.rs\<close>): reads and writes of integers and strings in byte slices.
  \<^item> \<open>Irq_Line\<close> (\<open>arch/*/io.rs\<close>): the interrupt ioctl, the level of a line as the last call left it, and
    the locale \<open>irq_source\<close> of devices that remember the level; the UART and the i8042 interpret it.
  \<^item> \<open>Byte_Fifo\<close>: the locale of byte queues, interpreted by the devices that have one.
  \<^item> \<open>Vm_Control\<close> (\<open>VmControl\<close> in \<open>main.rs\<close>): stop and kick flags, the registry of threads; port exits.
  \<^item> \<open>Guest_Memory\<close> (\<open>main.rs\<close>): regions, \<open>gpa_to_host\<close>, accesses through raw pointers, loading,
    KVM slots, the dirty log. A pointer is a region and an offset, RAM a function of the two.
  \<^item> \<open>Kvm_Slots\<close>: the slots KVM holds after the calls the program made, and that the guest sees through
    them the memory the VMM sees through the regions.
  \<^item> \<open>Vring_Queue\<close> (\<open>virtio/queue.rs\<close>): taking chains and completing them. Memory safety for every
    content of guest memory; the available ring refines a queue.
  \<^item> \<open>Guest_Buffers\<close>, \<open>Virtio_Blk\<close>, \<open>Virtio_Net\<close> (\<open>virtio/blk.rs\<close>, \<open>virtio/net.rs\<close>): scatter and gather
    over guest buffers, requests to the disk, received and sent frames.
  \<^item> \<open>Virtio_Mmio\<close> (\<open>virtio/mmio.rs\<close>): the register file and the notify loop over the operations of a
    device; \<open>Virtio_Notify\<close>: that notifications of both devices end and complete what is pending, and the
    guest that makes one never end; \<open>Racing_Guest\<close>: queue and notify loop again, with the writes of a guest
    between their accesses to RAM.
  \<^item> \<open>I8042\<close>, \<open>Uart16550\<close>, \<open>Pl011\<close> (\<open>arch/x86_64/i8042.rs\<close>, \<open>arch/x86_64/io.rs\<close>, \<open>arch/aarch64/mmio.rs\<close>):
    keyboard controller and serial ports; their lines agree with their registers in every
    reachable state, bytes arrive in order.
  \<^item> \<open>Coalesced_Ring\<close>, \<open>Vga\<close> (\<open>main.rs\<close>, \<open>arch/x86_64/vga.rs\<close>): writes KVM queues, the palette,
    the timing, which rows a client gets.
  \<^item> \<open>Rfb\<close> (\<open>frontend/rfb.rs\<close>): pixel formats, handshake, messages, the update thread; the locale
    \<open>rfb_display\<close> is what the thread relies on in a display, and \<open>Vnc_Display\<close> interprets it for the
    VGA adapter and for no display at all, and shows that updates keep to the update rate.
  \<^item> \<open>Serial_Tty\<close> (\<open>frontend/serial.rs\<close>): the console thread, over the locale \<open>tty\<close> the UART interprets.
  \<^item> \<open>Device_Bus\<close> (\<open>main.rs\<close>, \<open>virtio/mod.rs\<close>): MMIO devices found by page, for any type of devices, over
    one log of interrupt calls; the locale \<open>mmio_bus\<close> is what a device owes the others, and both machines
    interpret it.
  \<^item> \<open>Machine\<close> (\<open>arch/x86_64/io.rs\<close>, \<open>arch/x86_64/mmio.rs\<close>): the x86 machine, with ports, bus and setup;
    \<open>Arm_Machine\<close> (\<open>arch/aarch64/mmio.rs\<close>, \<open>arch/aarch64/io.rs\<close>): the aarch64 machine.
  \<^item> \<open>Vcpu_Loop\<close> (\<open>main.rs\<close>): vcpu threads, device threads and signals as interleaved atomic steps.
    \<open>X86_Run\<close>: the run loop of one vcpu over the x86 machine, from return to return of \<open>KVM_RUN\<close>.
  \<^item> \<open>X86_Vcpu\<close>, \<open>Pvh_Boot\<close> (\<open>arch/x86_64/vcpu.rs\<close>, \<open>arch/x86_64/init.rs\<close>, \<open>util/elf.rs\<close>): registers and
    the PVH boot; \<open>Arm_Boot\<close> (\<open>arch/aarch64/vcpu.rs\<close>, \<open>arch/aarch64/init.rs\<close>): the boot on aarch64.
  \<^item> \<open>Cli_Args\<close>, \<open>Vm_Main\<close> (\<open>main.rs\<close>): options, memory sizes, \<open>main\<close> as stages over any state;
    \<open>X86_Main\<close> and \<open>Arm_Main\<close> put in the functions of the other theories, up to the entry of the run.
  \<^item> \<open>Vm_Lifetime\<close> (\<open>Drop\<close> in \<open>main.rs\<close>, \<open>VM::run\<close>, \<open>start_rfb\<close>): reference counts of the VM, its memory and
    devices, and the descriptors and mappings they close, under every interleaving of the threads.
  \<^item> \<open>Repo_Tests\<close>: the repository's own unit tests, which the model passes.
  \<^item> This theory: the keys of a VNC client, through server and keyboard controller.

  \<^bold>\<open>What the theorems show.\<close> Memory safety of the rings whatever the guest writes and whenever it does, and that a driver
  which leaves alone what it published does not notice that taking a chain is not one step; order and
  completeness of what devices deliver; agreement of every interrupt line with the registers behind
  it, for each device and for the whole machine; that notifications, drains and stops end, and that no
  kick or stop is lost in any interleaving; that \<open>main\<close> enters the run with a machine that is whole, on both
  architectures; that guest and VMM see one memory; that what is on the disk, in the palette, on a VNC client's
  screen and in booted memory is what was put there; that no thread uses a descriptor or mapping of the
  framebuffer that is closed, and none leaks; and the errors: which inputs fail, how, and what
  they leave. Where the code falls short of that, a theorem says so: a descriptor outside RAM panics, a
  ring can hang the VMM, a long initramfs is overwritten, a client's keyboard outlives the descriptor its
  interrupt goes to.

  \<^bold>\<open>Bounds.\<close> Notify loops end by the number of pending chains; the parser of VNC messages by the bytes
  left; chains are cut at the size of the queue, as in the code, so \<open>walk_chain\<close> needs no other fuel.
  Dropping references ends by the weight of what they own. A stopped vcpu thread ends within ten of its own steps, a kicked one polls within five.

  \<^bold>\<open>Not modelled.\<close> Printing of registers and messages; sockets; raw mode and saving of the terminal; the object crate's parser of ELF files and clap's
  of the command line, whose results are arguments; the build script and the bindings it generates; the guests' own programs. Guest writes are interleaved with the accesses of
  the virtqueues; within one such access, within the processing of one chain, and in the other devices' accesses
  to guest RAM (the framebuffer), they are not. Frame counters of the display are unbounded. The
  composition of \<open>main\<close> stops at \<open>VM::run\<close>, an argument there: its threads are those of \<open>Vcpu_Loop\<close>, its exits
  those of \<open>X86_Run\<close>.
\<close>

section \<open>From the VNC client to the guest\<close>

text \<open>The key events among a client's messages.\<close>

fun client_keys :: "client_msg list \<Rightarrow> (bool \<times> u32) list" where
  "client_keys [] = []"
| "client_keys (CKey down keysym # msgs) = (down, keysym) # client_keys msgs"
| "client_keys (_ # msgs) = client_keys msgs"

lemma i8042_key_always: "fst (i8042_key_event (\<lambda>_ _ _. True) down keysym w) = Inr ()"
  by (cases w) (auto simp: i8042_key_event_def i8042_update_irq_always Let_def split: option.splits)

lemma fold_msg_press:
  "i8042_key_events (\<lambda>_ _ _. True) (client_keys msgs) w =
    (Inr (), fold (msg_press (i8042_key_event (\<lambda>_ _ _. True))) msgs w)"
proof (induction msgs arbitrary: w rule: client_keys.induct)
  case (2 down keysym msgs)
  then show ?case using i8042_key_always [of down keysym w]
    by (cases "i8042_key_event (\<lambda>_ _ _. True) down keysym w") (simp add: then_op_def)
qed simp_all



end
